(* ===== verification/Prelude.thy ===== *)
theory Prelude
  imports Main "HOL-Library.Word"
begin

text \<open>
  Shared vocabulary of the development: the machine types of the code, the result type that makes
  undefined behaviour and escaping exceptions explicit, its bind, raw memory reads through a
  pointer, and the little-endian object representation that \<open>memcpy\<close> and \<open>append((char*)&x, n)\<close>
  copy (the tests of the repository assert that the library runs on little-endian machines only).
\<close>

section \<open>Machine types and faults\<close>

type_synonym byte = "8 word"
type_synonym u16 = "16 word"
type_synonym u32 = "32 word"
type_synonym u64 = "64 word"
type_synonym bytes = "byte list"

text \<open>
  What the C++ code may run into besides returning: an access outside an object, a signed
  overflow, a shift by the width of the type or more, an exception of the standard library that
  nothing catches, a byte read as a bool that is neither 0 nor 1, the use of a destroyed object, the
  call of an empty \<open>std::function\<close>.
\<close>

datatype fault =
    OutOfBounds
  | SignedOverflow
  | BadShift
  | InvalidArgument
  | InvalidBool
  | UseAfterFree
  | NullCall

type_synonym 'a res = "fault + 'a"

named_theorems res_simps \<open>equations of the result type and of memory reads\<close>
named_theorems frame_intros \<open>writers that only append\<close>

fun bindr :: "'a res \<Rightarrow> ('a \<Rightarrow> 'b res) \<Rightarrow> 'b res" where
  "bindr (Inl e) f = Inl e"
| "bindr (Inr x) f = f x"

lemma bindr_cong [fundef_cong]:
  "m = m' \<Longrightarrow> (\<And>x. m' = Inr x \<Longrightarrow> f x = g x) \<Longrightarrow> bindr m f = bindr m' g"
  by (cases m') auto

lemma bindr_Inr_iff [res_simps]: "bindr m f = Inr y \<longleftrightarrow> (\<exists>x. m = Inr x \<and> f x = Inr y)"
  by (cases m) auto

lemma bindr_InrE [elim]:
  assumes "bindr m f = Inr y"
  obtains x where "m = Inr x" "f x = Inr y"
  using assms by (cases m) auto

lemma bindr_assoc: "bindr (bindr m f) g = bindr m (\<lambda>x. bindr (f x) g)"
  by (cases m) auto

lemma bindr_Inr: "bindr m Inr = m"
  by (cases m) auto

fun mapr :: "('a \<Rightarrow> 'b) \<Rightarrow> 'a res \<Rightarrow> 'b res" where
  "mapr f (Inl e) = Inl e"
| "mapr f (Inr x) = Inr (f x)"

lemma mapr_Inr_iff [res_simps]: "mapr f m = Inr y \<longleftrightarrow> (\<exists>x. m = Inr x \<and> y = f x)"
  by (cases m) auto

lemma mapr_mapr [simp]: "mapr f (mapr g m) = mapr (\<lambda>x. f (g x)) m"
  by (cases m) auto

lemma mapr_ident [simp]: "mapr (\<lambda>x. x) m = m"
  by (cases m) auto

lemma bindr_mapr [simp]: "bindr (mapr f m) g = bindr m (\<lambda>x. g (f x))"
  by (cases m) auto

lemma mapr_bindr: "mapr f (bindr m g) = bindr m (\<lambda>x. mapr f (g x))"
  by (cases m) auto

section \<open>Writers that only append\<close>

text \<open>
  Every \<open>operator>>\<close> of the library appends to the bytes already in its archive: what it appends
  does not depend on them.
\<close>

definition appends :: "('b list \<Rightarrow> 'b list res) \<Rightarrow> bool" where
  "appends f \<longleftrightarrow> (\<forall>oa. f oa = mapr ((@) oa) (f []))"

lemma appendsD: "appends f \<Longrightarrow> f oa = mapr ((@) oa) (f [])"
  unfolding appends_def by blast

lemma appends_InrE:
  assumes "appends f" "f oa = Inr b"
  obtains d where "f [] = Inr d" "b = oa @ d"
  using appendsD [OF assms(1), of oa] assms(2) by (cases "f []") auto

lemma appends_Inr: "appends f \<Longrightarrow> f [] = Inr d \<Longrightarrow> f oa = Inr (oa @ d)"
  using appendsD [of f oa] by simp

lemma appends_same [frame_intros]: "appends Inr"
  by (simp add: appends_def)

lemma appends_bytes [frame_intros]: "appends (\<lambda>oa. Inr (oa @ d))"
  by (simp add: appends_def)

lemma appends_bind [frame_intros]:
  assumes "appends f" "appends g"
  shows "appends (\<lambda>oa. bindr (f oa) g)"
  unfolding appends_def
proof
  fix oa
  show "bindr (f oa) g = mapr ((@) oa) (bindr (f []) g)"
  proof (cases "f []")
    case (Inl e)
    then show ?thesis using appendsD [OF assms(1), of oa] by simp
  next
    case (Inr d)
    then show ?thesis
      using appendsD [OF assms(1), of oa] appendsD [OF assms(2), of d]
        appendsD [OF assms(2), of "oa @ d"] by (cases "g []") simp_all
  qed
qed

lemma appends_outer [frame_intros]:
  assumes "\<And>x. appends (f x)"
  shows "appends (\<lambda>oa. bindr m (\<lambda>x. f x oa))"
  using assms by (cases m) (simp_all, simp add: appends_def)

lemma appends_if [frame_intros]:
  "appends f \<Longrightarrow> appends g \<Longrightarrow> appends (\<lambda>oa. if b then f oa else g oa)"
  by (cases b) simp_all

section \<open>Reading memory through a pointer\<close>

text \<open>
  A \<open>const char*\<close> is modelled by the bytes from it to the end of the object it points into.
  Reading \<open>n\<close> bytes, or moving the pointer past them, needs them to be there.
\<close>

definition peek :: "nat \<Rightarrow> bytes \<Rightarrow> bytes res" where
  "peek n p = (if n \<le> length p then Inr (take n p) else Inl OutOfBounds)"

definition advance :: "nat \<Rightarrow> bytes \<Rightarrow> bytes res" where
  "advance n p = (if n \<le> length p then Inr (drop n p) else Inl OutOfBounds)"

lemma peek_append [res_simps]: "length xs = n \<Longrightarrow> peek n (xs @ ys) = Inr xs"
  by (auto simp: peek_def)

lemma advance_append [res_simps]: "length xs = n \<Longrightarrow> advance n (xs @ ys) = Inr ys"
  by (auto simp: advance_def)

lemma peek_Inr [res_simps]: "peek n p = Inr xs \<longleftrightarrow> n \<le> length p \<and> xs = take n p"
  by (auto simp: peek_def)

lemma advance_Inr [res_simps]: "advance n p = Inr q \<longleftrightarrow> n \<le> length p \<and> q = drop n p"
  by (auto simp: advance_def)

section \<open>Little-endian object representation\<close>

fun le_bytes :: "nat \<Rightarrow> nat \<Rightarrow> bytes" where
  "le_bytes 0 x = []"
| "le_bytes (Suc n) x = of_nat (x mod 256) # le_bytes n (x div 256)"

fun le_nat :: "bytes \<Rightarrow> nat" where
  "le_nat [] = 0"
| "le_nat (b # bs) = unat b + 256 * le_nat bs"

lemma le_bytes_numeral:
  "le_bytes (numeral k) x = of_nat (x mod 256) # le_bytes (pred_numeral k) (x div 256)"
  by (simp only: numeral_eq_Suc le_bytes.simps)

lemma length_le_bytes [simp]: "length (le_bytes n x) = n"
  by (induction n arbitrary: x) auto

lemma unat_byte_of_mod [simp]: "unat (of_nat (x mod 256) :: byte) = x mod 256"
  by (simp add: unat_of_nat)

lemma le_nat_le_bytes: "le_nat (le_bytes n x) = x mod 256 ^ n"
proof (induction n arbitrary: x)
  case 0
  then show ?case by simp
next
  case (Suc n)
  have "x mod 256 ^ Suc n = 256 * (x div 256 mod 256 ^ n) + x mod 256"
    by (simp add: mod_mult2_eq)
  with Suc show ?case by simp
qed

lemma le_nat_le_bytes_small [simp]: "x < 256 ^ n \<Longrightarrow> le_nat (le_bytes n x) = x"
  by (simp add: le_nat_le_bytes)

lemma le_nat_bound: "le_nat bs < 256 ^ length bs"
proof (induction bs)
  case Nil
  then show ?case by simp
next
  case (Cons b bs)
  have "unat b < 256" using unsigned_less [of b] by simp
  with Cons show ?case by simp
qed

lemma le_bytes_le_nat [simp]: "le_bytes (length bs) (le_nat bs) = bs"
proof (induction bs)
  case Nil
  then show ?case by simp
next
  case (Cons b bs)
  have b: "unat b < 256" using unsigned_less [of b] by simp
  then have "(unat b + 256 * le_nat bs) mod 256 = unat b"
    and "(unat b + 256 * le_nat bs) div 256 = le_nat bs" by auto
  with Cons show ?case by (simp only: le_nat.simps le_bytes.simps list.size) simp
qed

lemma le_nat_append: "le_nat (xs @ ys) = le_nat xs + 256 ^ length xs * le_nat ys"
  by (induction xs) (auto simp: algebra_simps)

lemma le_nat_zeros [simp]: "le_nat (replicate n 0) = 0"
  by (induction n) auto

lemma le_bytes_zero: "le_bytes n 0 = replicate n 0"
  by (induction n) auto

lemma le_bytes_add: "le_bytes (m + n) x = le_bytes m x @ le_bytes n (x div 256 ^ m)"
  by (induction m arbitrary: x) (auto simp: div_mult2_eq)

lemma le_bytes_drop_zero: "x < 256 ^ m \<Longrightarrow> le_bytes (m + n) x = le_bytes m x @ replicate n 0"
  by (simp add: le_bytes_add le_bytes_zero)

lemma le_nat_inj: "length xs = length ys \<Longrightarrow> le_nat xs = le_nat ys \<Longrightarrow> xs = ys"
  by (metis le_bytes_le_nat)

section \<open>Words as naturals\<close>

lemma unat_lt_u16: "unat (x :: u16) < 65536"
  using unsigned_less [of x] by simp

lemma unat_lt_u32: "unat (x :: u32) < 4294967296"
  using unsigned_less [of x] by simp

lemma unat_lt_u64: "unat (x :: u64) < 18446744073709551616"
  using unsigned_less [of x] by simp

lemma le_nat_le_bytes_u16 [simp]: "le_nat (le_bytes 2 (unat (x :: u16))) = unat x"
  using unat_lt_u16 [of x] by (intro le_nat_le_bytes_small) simp

lemma le_nat_le_bytes_u32 [simp]: "le_nat (le_bytes 4 (unat (x :: u32))) = unat x"
  using unat_lt_u32 [of x] by (intro le_nat_le_bytes_small) simp

lemma le_nat_le_bytes_u64 [simp]: "le_nat (le_bytes 8 (unat (x :: u64))) = unat x"
  using unat_lt_u64 [of x] by (intro le_nat_le_bytes_small) simp

end
