(* ===== verification/AutoSize.thy ===== *)
theory AutoSize
  imports Prelude
begin

unbundle bit_operations_syntax

text \<open>
  The variable-length integers of \<open>serialize/detail/auto_size.hpp\<close>: the template
  \<open>auto_size_type<int_impl_t>\<close> at its three instances, all 64 bits wide: \<open>auto_size\<close>
  (\<open>size_t\<close>) and \<open>auto_uintmax\<close> (\<open>uintmax_t\<close>) are unsigned, \<open>auto_intmax\<close> (\<open>intmax_t\<close>) is
  signed. A value is its 64-bit pattern; the flag \<open>sg\<close> says whether \<open>int_impl_t\<close> is signed.
  The encoding is one header byte, the number of effective bytes with bit 7 set for a negative
  value, then the magnitude's bytes, little-endian, without leading zeros.
\<close>

section \<open>The code\<close>

definition int64_min :: u64 where
  "int64_min = push_bit 63 1"

text \<open>The comparison \<open>value < 0\<close>: constantly false at an unsigned type.\<close>

definition is_neg :: "bool \<Rightarrow> u64 \<Rightarrow> bool" where
  "is_neg sg v = (sg \<and> sint v < 0)"

text \<open>
  The expression \<open>~value + 1\<close>: at the signed type the addition overflows for the bit pattern of
  the least value, whose complement is the greatest value.
\<close>

definition neg_val :: "bool \<Rightarrow> u64 \<Rightarrow> u64 res" where
  "neg_val sg v = (if sg \<and> v = int64_min then Inl SignedOverflow else Inr (NOT v + 1))"

text \<open>The loop from the top byte down: argument \<open>Suc i\<close> is the iteration with index \<open>i\<close>.\<close>

fun eff_loop :: "nat \<Rightarrow> u64 \<Rightarrow> nat \<Rightarrow> nat" where
  "eff_loop 0 v eff = eff"
| "eff_loop (Suc i) v eff =
     (if drop_bit (i * 8) v AND 0xff \<noteq> 0 then eff else eff_loop i v (eff - 1))"

definition auto_serialize :: "bool \<Rightarrow> u64 \<Rightarrow> bytes res" where
  "auto_serialize sg value =
     (if value = 0 then Inr [0]
      else bindr (if is_neg sg value then neg_val sg value else Inr value) (\<lambda>value_tmp.
        let effective_bytes = eff_loop 8 value_tmp 8;
            header = (of_nat effective_bytes :: byte);
            header' = (if is_neg sg value then header OR 0x80 else header)
        in Inr (header' # le_bytes effective_bytes (unat value_tmp))))"

text \<open>
  Decoding overwrites the low bytes of the object's old value. The copy may leave the source
  object, or, with a header byte that announces more than eight bytes, the eight-byte destination.
  The result is the new value and the number of bytes consumed.
\<close>

definition auto_deserialize :: "bool \<Rightarrow> u64 \<Rightarrow> bytes \<Rightarrow> (u64 \<times> nat) res" where
  "auto_deserialize sg old data =
     bindr (peek 1 data) (\<lambda>h.
       let p0 = hd h;
           negative = (p0 AND 0x80 \<noteq> 0);
           size_bytes = unat (if negative then p0 AND 0x7f else p0)
       in if size_bytes > 8 then Inl OutOfBounds
          else bindr (advance 1 data) (\<lambda>q.
            bindr (peek size_bytes q) (\<lambda>bs.
              let value = of_nat (le_nat (bs @ drop size_bytes (le_bytes 8 (unat old))))
              in if negative
                 then bindr (neg_val sg value) (\<lambda>v. Inr (v, size_bytes + 1))
                 else Inr (value, size_bytes + 1))))"

section \<open>The effective bytes\<close>

lemma drop_byte_zero_iff:
  "drop_bit (i * 8) (v :: u64) AND 0xff = 0 \<longleftrightarrow> unat v div 256 ^ i mod 256 = 0"
proof -
  have "unat (drop_bit (i * 8) v AND 0xff) = unat v div 256 ^ i mod 256"
  proof -
    have m: "(0xff :: u64) = mask 8" by (simp add: mask_eq_exp_minus_1)
    have "unat (drop_bit (i * 8) v AND mask 8) = take_bit 8 (drop_bit (i * 8) (unat v))"
      by (simp flip: take_bit_eq_mask add: unsigned_take_bit_eq unat_drop_bit_eq)
    also have "\<dots> = unat v div 256 ^ i mod 256"
      by (simp add: take_bit_eq_mod drop_bit_eq_div power_mult mult.commute [of i])
    finally show ?thesis by (simp only: m)
  qed
  then show ?thesis by (metis unat_0 unat_eq_zero)
qed

text \<open>The loop finds the least number of bytes that hold the value.\<close>

lemma eff_loop_upper: "unat v < 256 ^ i \<Longrightarrow> unat v < 256 ^ eff_loop i v i"
proof (induction i)
  case 0
  then show ?case by simp
next
  case (Suc i)
  show ?case
  proof (cases "drop_bit (i * 8) v AND 0xff = 0")
    case True
    then have "unat v div 256 ^ i mod 256 = 0" by (simp only: drop_byte_zero_iff)
    moreover have "unat v div 256 ^ i < 256"
      using Suc.prems by (simp add: less_mult_imp_div_less mult.commute)
    ultimately have "unat v div 256 ^ i = 0" by simp
    then have "unat v < 256 ^ i" by (simp add: div_eq_0_iff)
    with Suc.IH True show ?thesis by simp
  next
    case False
    with Suc.prems show ?thesis by simp
  qed
qed

lemma eff_loop_le: "eff_loop i v i \<le> i"
  by (induction i) auto

lemma eff_loop_lower: "unat v \<noteq> 0 \<Longrightarrow> unat v < 256 ^ i \<Longrightarrow> 256 ^ (eff_loop i v i - 1) \<le> unat v"
proof (induction i)
  case 0
  then show ?case by simp
next
  case (Suc i)
  show ?case
  proof (cases "drop_bit (i * 8) v AND 0xff = 0")
    case True
    then have "unat v div 256 ^ i mod 256 = 0" by (simp only: drop_byte_zero_iff)
    moreover have "unat v div 256 ^ i < 256"
      using Suc.prems by (simp add: less_mult_imp_div_less mult.commute)
    ultimately have "unat v < 256 ^ i" by (simp add: div_eq_0_iff)
    with Suc True show ?thesis by simp
  next
    case False
    then have "unat v div 256 ^ i \<noteq> 0" by (metis drop_byte_zero_iff mod_0)
    then have "256 ^ i \<le> unat v" by (simp add: div_eq_0_iff)
    with False show ?thesis by simp
  qed
qed

lemma eff_loop_pos: "v \<noteq> 0 \<Longrightarrow> unat v < 256 ^ i \<Longrightarrow> 0 < eff_loop i v i"
  using eff_loop_upper [of v i] by (cases "eff_loop i v i") (auto simp: unat_eq_zero)


section \<open>The header byte\<close>

lemma header_cases:
  assumes "e \<le> 8"
  shows "(of_nat e :: byte) AND 0x80 = 0"
    and "(of_nat e OR 0x80 :: byte) AND 0x80 \<noteq> 0"
    and "(of_nat e OR 0x80 :: byte) AND 0x7f = of_nat e"
    and "unat (of_nat e :: byte) = e"
proof -
  from assms have "e \<in> set [0..<9]" by simp
  then have "e = 0 \<or> e = 1 \<or> e = 2 \<or> e = 3 \<or> e = 4 \<or> e = 5 \<or> e = 6 \<or> e = 7 \<or> e = 8"
    by (simp add: upt_rec) arith
  then show "(of_nat e :: byte) AND 0x80 = 0"
    and "(of_nat e OR 0x80 :: byte) AND 0x80 \<noteq> 0"
    and "(of_nat e OR 0x80 :: byte) AND 0x7f = of_nat e"
    and "unat (of_nat e :: byte) = e"
    by (elim disjE; simp)+
qed

lemma neg_val_eq: "neg_val sg v = (if sg \<and> v = int64_min then Inl SignedOverflow else Inr (- v))"
  by (simp add: neg_val_def minus_eq_not_plus_1)

lemma minus_int64_min [simp]: "- int64_min = int64_min"
  by (simp add: int64_min_def)

lemma is_neg_zero [simp]: "\<not> is_neg sg 0"
  by (simp add: is_neg_def)

lemma is_neg_unsigned [simp]: "\<not> is_neg False v"
  by (simp add: is_neg_def)

lemma int64_min_neg: "is_neg True int64_min"
  by (simp add: is_neg_def int64_min_def)

lemma unat_lt_256_8: "unat (v :: u64) < 256 ^ 8"
  using unat_lt_u64 [of v] by simp

text \<open>What the encoder writes for a nonzero value: header and magnitude.\<close>

lemma auto_serialize_Inr:
  assumes "auto_serialize sg v = Inr bs" "v \<noteq> 0"
  obtains m e where
    "m = (if is_neg sg v then - v else v)" "m \<noteq> 0" "0 < e" "e \<le> 8"
    "unat m < 256 ^ e" "256 ^ (e - 1) \<le> unat m"
    "bs = (if is_neg sg v then of_nat e OR 0x80 else of_nat e) # le_bytes e (unat m)"
    "\<not> (is_neg sg v \<and> v = int64_min)"
proof -
  let ?m = "if is_neg sg v then - v else v"
  let ?e = "eff_loop 8 ?m 8"
  have m0: "?m \<noteq> 0" using assms(2) by auto
  have e: "0 < ?e" "?e \<le> 8" "unat ?m < 256 ^ ?e"
    using eff_loop_pos [OF m0] eff_loop_le [of 8 ?m] eff_loop_upper [of ?m 8] unat_lt_256_8 [of ?m]
    by auto
  have lo: "256 ^ (?e - 1) \<le> unat ?m"
    using eff_loop_lower [of ?m 8] m0 unat_lt_256_8 [of ?m] by (simp add: unat_eq_zero)
  have nm: "\<not> (is_neg sg v \<and> v = int64_min)"
    using assms by (auto simp: auto_serialize_def neg_val_eq is_neg_def)
  have "bs = (if is_neg sg v then of_nat ?e OR 0x80 else of_nat ?e) # le_bytes ?e (unat ?m)"
    using assms nm by (auto simp: auto_serialize_def neg_val_eq Let_def split: if_splits)
  with m0 e lo nm that show thesis by blast
qed

lemma auto_serialize_zero [simp]: "auto_serialize sg 0 = Inr [0]"
  by (simp add: auto_serialize_def)

lemma auto_deserialize_header:
  assumes "e \<le> 8" "length bs = e"
  shows "auto_deserialize sg old ((of_nat e) # bs @ rest) =
           Inr (of_nat (le_nat (bs @ drop e (le_bytes 8 (unat old)))), e + 1)"
    and "auto_deserialize sg old ((of_nat e OR 0x80) # bs @ rest) =
           bindr (neg_val sg (of_nat (le_nat (bs @ drop e (le_bytes 8 (unat old))))))
             (\<lambda>v. Inr (v, e + 1))"
  using assms header_cases [OF assms(1)]
  by (auto simp: auto_deserialize_def peek_def advance_def)

lemma le_nat_fill: "unat (m :: u64) < 256 ^ e \<Longrightarrow> e \<le> 8 \<Longrightarrow>
  le_nat (le_bytes e (unat m) @ drop e (le_bytes 8 (unat (0 :: u64)))) = unat m"
  by (simp add: le_bytes_zero le_nat_append)

text \<open>Decoding an encoded value into a fresh (zero) object gives it back, whatever follows.\<close>

lemma auto_roundtrip:
  assumes "auto_serialize sg v = Inr bs"
  shows "auto_deserialize sg 0 (bs @ rest) = Inr (v, length bs)"
proof (cases "v = 0")
  case True
  with assms show ?thesis
    using auto_deserialize_header(1) [of 0 "[]" sg 0 rest] by (auto simp: le_bytes_zero)
next
  case False
  with assms obtain m e where
    m: "m = (if is_neg sg v then - v else v)" and e: "e \<le> 8" and u: "unat m < 256 ^ e"
    and bs: "bs = (if is_neg sg v then of_nat e OR 0x80 else of_nat e) # le_bytes e (unat m)"
    and nm: "\<not> (is_neg sg v \<and> v = int64_min)"
    by (rule auto_serialize_Inr)
  have fill: "le_nat (le_bytes e (unat m) @ drop e (le_bytes 8 (unat (0 :: u64)))) = unat m"
    using u e by (rule le_nat_fill)
  show ?thesis
  proof (cases "is_neg sg v")
    case True
    with nm m have "m \<noteq> int64_min" by (metis minus_int64_min minus_minus)
    with True show ?thesis
      using auto_deserialize_header(2) [OF e, of "le_bytes e (unat m)" sg 0 rest] m bs fill
      by (simp add: neg_val_eq)
  next
    case False
    then show ?thesis
      using auto_deserialize_header(1) [OF e, of "le_bytes e (unat m)" sg 0 rest] m bs fill by simp
  qed
qed

lemma auto_serialize_length:
  assumes "auto_serialize sg v = Inr bs"
  shows "0 < length bs" "length bs \<le> 9"
  using assms by (cases "v = 0"; auto elim: auto_serialize_Inr)+

text \<open>The encoder fails for one value of one instance only.\<close>

lemma auto_serialize_total:
  "\<not> (sg \<and> v = int64_min) \<Longrightarrow> \<exists>bs. auto_serialize sg v = Inr bs"
  by (auto simp: auto_serialize_def neg_val_eq is_neg_def Let_def)

lemma auto_serialize_int64_min: "auto_serialize True int64_min = Inl SignedOverflow"
  using int64_min_neg by (auto simp: auto_serialize_def neg_val_eq)

lemma auto_serialize_unsigned: "\<exists>bs. auto_serialize False v = Inr bs"
  by (rule auto_serialize_total) simp

text \<open>A successful decoding stays inside the source and consumes at most nine bytes.\<close>

lemma auto_deserialize_consumed:
  assumes "auto_deserialize sg old p = Inr (v, n)"
  shows "0 < n" "n \<le> 9" "n \<le> length p"
  using assms by (auto simp: auto_deserialize_def Let_def res_simps split: if_splits)

end
