(* ===== verification/Archive.thy ===== *)
theory Archive
  imports AutoSize
begin

text \<open>
  The archives of \<open>serialize_type.hpp\<close> and the entry points of \<open>serialize_api.hpp\<close>. An output
  archive is the byte string \<open>data\<close> it has collected; an input archive is a pointer into memory, a
  \<open>size_t\<close> count and an error flag. The pair of overloads \<open>operator>>\<close> and \<open>operator<<\<close> that a C++
  type has is a \<open>codec\<close>: a class template over element types becomes a function from codecs to
  codecs, and instantiating the template is applying that function. The locale \<open>codec\<close> states what
  every pair of overloads promises; it is interpreted for each of them in the theories below.
\<close>

section \<open>Archives\<close>

type_synonym oarchive = bytes

record iarchive =
  ia_data :: bytes
  ia_size :: u64
  ia_error :: bool

text \<open>Nested output archive, lvalue overload: size header, then the bytes.\<close>

definition write_sub :: "bytes \<Rightarrow> oarchive \<Rightarrow> oarchive res" where
  "write_sub t oa = bindr (auto_serialize False (of_nat (length t))) (\<lambda>h. Inr ((oa @ h) @ t))"

text \<open>The rvalue overload moves the bytes, without a header, into an archive still empty.\<close>

definition write_sub_move :: "bytes \<Rightarrow> oarchive \<Rightarrow> oarchive res" where
  "write_sub_move t oa = (if oa = [] then Inr t else write_sub t oa)"

text \<open>Nested input archive: reads a size header; the nested archive shares the memory.\<close>

definition sub_archive :: "iarchive \<Rightarrow> (iarchive \<times> iarchive) res" where
  "sub_archive ia =
     bindr (auto_deserialize False 0 (ia_data ia)) (\<lambda>(sz, cost).
     bindr (advance cost (ia_data ia)) (\<lambda>p.
     bindr (advance (unat sz) p) (\<lambda>q.
       Inr (\<lparr>ia_data = p, ia_size = sz, ia_error = False\<rparr>,
            ia\<lparr>ia_data := q, ia_size := ia_size ia - (of_nat cost + sz)\<rparr>))))"

text \<open>The overloads for \<open>auto_size_type\<close> itself.\<close>

definition write_auto :: "bool \<Rightarrow> u64 \<Rightarrow> oarchive \<Rightarrow> oarchive res" where
  "write_auto sg v oa = bindr (auto_serialize sg v) (\<lambda>s. Inr (oa @ s))"

definition read_auto :: "bool \<Rightarrow> iarchive \<Rightarrow> (u64 \<times> iarchive) res" where
  "read_auto sg ia =
     bindr (auto_deserialize sg 0 (ia_data ia)) (\<lambda>(v, cost).
     bindr (advance cost (ia_data ia)) (\<lambda>p.
       Inr (v, ia\<lparr>ia_data := p, ia_size := ia_size ia - of_nat cost\<rparr>)))"

section \<open>Codecs and the entry points\<close>

record 'a codec =
  is_fund :: bool
  wr :: "'a \<Rightarrow> oarchive \<Rightarrow> oarchive res"
  rd :: "'a \<Rightarrow> iarchive \<Rightarrow> ('a \<times> iarchive) res"
  dflt :: 'a

text \<open>
  The field \<open>is_fund\<close> is \<open>std::is_fundamental\<close>, the test on which the containers decide whether
  an element gets a nested archive; \<open>dflt\<close> is the value of a default-constructed object, which
  \<open>operator<<\<close> receives as the old content of its target.
\<close>

definition serialize :: "'a codec \<Rightarrow> 'a \<Rightarrow> bytes res" where
  "serialize c t = wr c t []"

text \<open>
  Deserializing into an object that holds \<open>old\<close>. The bytes of a \<open>std::string\<close> are followed by
  its terminating zero, which may be read through the pointer as well.
\<close>

definition deserialize_into :: "'a codec \<Rightarrow> 'a \<Rightarrow> bytes \<Rightarrow> (bool \<times> 'a) res" where
  "deserialize_into c old s =
     bindr (rd c old \<lparr>ia_data = s @ [0], ia_size = of_nat (length s), ia_error = False\<rparr>)
       (\<lambda>(t, ia). Inr (\<not> ia_error ia, t))"

definition deserialize :: "'a codec \<Rightarrow> bytes \<Rightarrow> (bool \<times> 'a) res" where
  "deserialize c s = deserialize_into c (dflt c) s"

text \<open>The overload for a moved string swaps the two strings.\<close>

definition deserialize_string_move :: "bytes \<Rightarrow> bytes \<Rightarrow> bool \<times> bytes \<times> bytes" where
  "deserialize_string_move s t = (True, t, s)"

section \<open>Elements of containers\<close>

text \<open>
  How every container and tuple writes an element: a fundamental one in place, any other through a
  nested archive.
\<close>

definition item_write :: "'a codec \<Rightarrow> 'a \<Rightarrow> oarchive \<Rightarrow> oarchive res" where
  "item_write c v oa =
     (if is_fund c then wr c v oa else bindr (wr c v []) (\<lambda>tmp. write_sub tmp oa))"

text \<open>
  How a container reads one: \<open>None\<close> is the \<open>break\<close> after an error of the nested archive, which
  sets the error of the outer one.
\<close>

definition item_read :: "'a codec \<Rightarrow> iarchive \<Rightarrow> ('a option \<times> iarchive) res" where
  "item_read c ia =
     (if is_fund c then bindr (rd c (dflt c) ia) (\<lambda>(v, ia'). Inr (Some v, ia'))
      else bindr (sub_archive ia) (\<lambda>(tmp, ia').
           bindr (rd c (dflt c) tmp) (\<lambda>(v, tmp').
             if ia_error tmp' then Inr (None, ia'\<lparr>ia_error := True\<rparr>) else Inr (Some v, ia'))))"

text \<open>The two loops, over the elements to write and over the announced number of elements.\<close>

fun items_write :: "'a codec \<Rightarrow> 'a list \<Rightarrow> oarchive \<Rightarrow> oarchive res" where
  "items_write c [] oa = Inr oa"
| "items_write c (v # vs) oa = bindr (item_write c v oa) (items_write c vs)"

fun items_read ::
  "'a codec \<Rightarrow> nat \<Rightarrow> ('s \<Rightarrow> 'a \<Rightarrow> 's res) \<Rightarrow> 's \<Rightarrow> iarchive \<Rightarrow> ('s \<times> iarchive) res" where
  "items_read c 0 put t ia = Inr (t, ia)"
| "items_read c (Suc n) put t ia =
     bindr (item_read c ia) (\<lambda>(item, ia').
       case item of
         None \<Rightarrow> Inr (t, ia')
       | Some v \<Rightarrow> bindr (put t v) (\<lambda>t'. items_read c n put t' ia'))"

section \<open>Laws of the archives\<close>

lemma write_sub_appends [frame_intros]: "appends (write_sub t)"
  by (cases "auto_serialize False (of_nat (length t))") (auto simp: write_sub_def appends_def)

lemma write_auto_appends [frame_intros]: "appends (write_auto sg v)"
  by (cases "auto_serialize sg v") (auto simp: write_auto_def appends_def)

lemma unat_of_nat_length:
  "length xs < 2 ^ 64 \<Longrightarrow> unat (of_nat (length xs) :: u64) = length xs"
  by (simp add: unat_of_nat)

lemma read_write_auto:
  assumes "write_auto sg v [] = Inr b"
  shows "read_auto sg \<lparr>ia_data = b @ rest, ia_size = s, ia_error = e\<rparr> =
           Inr (v, \<lparr>ia_data = rest, ia_size = s - of_nat (length b), ia_error = e\<rparr>)"
  using assms by (auto simp: write_auto_def read_auto_def auto_roundtrip res_simps)

lemma write_auto_nonempty: "write_auto sg v [] = Inr b \<Longrightarrow> 0 < length b"
  using auto_serialize_length(1) by (auto simp: write_auto_def res_simps)

lemma write_sub_nonempty: "write_sub t [] = Inr b \<Longrightarrow> length t < length b"
  using auto_serialize_length(1) by (fastforce simp: write_sub_def res_simps)

lemma sub_archive_write_sub:
  assumes "write_sub d [] = Inr b" "length d < 2 ^ 64"
  shows "sub_archive \<lparr>ia_data = b @ rest, ia_size = s, ia_error = e\<rparr> =
     Inr (\<lparr>ia_data = d @ rest, ia_size = of_nat (length d), ia_error = False\<rparr>,
          \<lparr>ia_data = rest, ia_size = s - of_nat (length b), ia_error = e\<rparr>)"
proof -
  from assms(1) obtain h where
    h: "auto_serialize False (of_nat (length d)) = Inr h" and b: "b = h @ d"
    by (auto simp: write_sub_def res_simps)
  show ?thesis
    using auto_roundtrip [OF h, of "d @ rest"] unat_of_nat_length [OF assms(2)]
    by (simp add: sub_archive_def b res_simps)
qed

lemma write_sub_total: "\<exists>b. write_sub d oa = Inr b"
  using auto_serialize_unsigned [of "of_nat (length d)"] by (auto simp: write_sub_def)

section \<open>What a pair of overloads promises\<close>

text \<open>
  The interface between a container and its element type: the writer only appends; on the values
  in \<open>ok\<close> it succeeds; reading its bytes back from memory that may continue behind them gives the
  value and no error; a fundamental type moreover consumes exactly its bytes.
\<close>

locale codec =
  fixes c :: "'a codec" and ok :: "'a \<Rightarrow> bool"
  assumes wr_appends [frame_intros]: "appends (wr c v)"
    and wr_total: "ok v \<Longrightarrow> \<exists>b. wr c v [] = Inr b"
    and rd_wr: "ok v \<Longrightarrow> wr c v [] = Inr b \<Longrightarrow> length b < 2 ^ 64 \<Longrightarrow>
      \<exists>ia'. rd c (dflt c) \<lparr>ia_data = b @ rest, ia_size = of_nat (length b), ia_error = False\<rparr>
              = Inr (v, ia') \<and> \<not> ia_error ia'"
    and rd_wr_fund: "is_fund c \<Longrightarrow> ok v \<Longrightarrow> wr c v [] = Inr b \<Longrightarrow>
      rd c old \<lparr>ia_data = b @ rest, ia_size = s, ia_error = e\<rparr>
        = Inr (v, \<lparr>ia_data = rest, ia_size = s - of_nat (length b), ia_error = e\<rparr>)"
begin

lemma serialize_deserialize:
  assumes "ok v" "serialize c v = Inr b" "length b < 2 ^ 64"
  shows "deserialize c b = Inr (True, v)"
  using rd_wr [of v b "[0]"] assms
  by (auto simp: serialize_def deserialize_def deserialize_into_def)

lemma item_write_appends [frame_intros]: "appends (item_write c v)"
  unfolding item_write_def by (intro frame_intros)

lemma item_write_total: "ok v \<Longrightarrow> \<exists>b. item_write c v oa = Inr b"
  using wr_total [of v] appends_Inr [OF wr_appends] write_sub_total
  by (fastforce simp: item_write_def)

lemma item_read_write:
  assumes "ok v" "item_write c v [] = Inr b" "length b < 2 ^ 64"
  shows "item_read c \<lparr>ia_data = b @ rest, ia_size = s, ia_error = e\<rparr> =
           Inr (Some v, \<lparr>ia_data = rest, ia_size = s - of_nat (length b), ia_error = e\<rparr>)"
proof (cases "is_fund c")
  case True
  with assms rd_wr_fund [OF True, of v b "dflt c" rest s e] show ?thesis
    by (auto simp: item_read_def item_write_def)
next
  case False
  with assms obtain d where d: "wr c v [] = Inr d" "write_sub d [] = Inr b"
    by (auto simp: item_write_def)
  have "length d < 2 ^ 64" using write_sub_nonempty [OF d(2)] assms(3) by simp
  with d sub_archive_write_sub [OF d(2), of rest s e] rd_wr [OF assms(1) d(1), of rest] False
  show ?thesis by (auto simp: item_read_def)
qed

lemma items_write_appends [frame_intros]: "appends (items_write c vs)"
proof (induction vs)
  case Nil
  then show ?case by (simp add: appends_def)
next
  case (Cons v vs)
  have "appends (\<lambda>oa. bindr (item_write c v oa) (items_write c vs))"
    by (intro frame_intros Cons)
  moreover have "items_write c (v # vs) = (\<lambda>oa. bindr (item_write c v oa) (items_write c vs))"
    by (rule ext) simp
  ultimately show ?case by simp
qed

lemma items_write_total: "list_all ok vs \<Longrightarrow> \<exists>b. items_write c vs oa = Inr b"
proof (induction vs arbitrary: oa)
  case Nil
  then show ?case by simp
next
  case (Cons v vs)
  with item_write_total [of v oa] show ?case by auto
qed

lemma items_write_ConsE:
  assumes "items_write c (v # vs) [] = Inr b"
  obtains b1 b2 where
    "item_write c v [] = Inr b1" "items_write c vs [] = Inr b2" "b = b1 @ b2"
proof -
  from assms obtain b1 where b1: "item_write c v [] = Inr b1" "items_write c vs b1 = Inr b"
    by auto
  then show thesis
    using appends_InrE [OF items_write_appends b1(2)] that by metis
qed

text \<open>The reading loop replays the writing loop, whatever is done with each element.\<close>

lemma items_read_write:
  assumes "list_all ok vs" "items_write c vs [] = Inr b" "length b < 2 ^ 64"
    and "\<And>us v ws. vs = us @ v # ws \<Longrightarrow> put (acc us) v = Inr (acc (us @ [v]))"
  shows "items_read c (length vs) put (acc []) \<lparr>ia_data = b @ rest, ia_size = s, ia_error = e\<rparr> =
           Inr (acc vs, \<lparr>ia_data = rest, ia_size = s - of_nat (length b), ia_error = e\<rparr>)"
proof -
  have "items_read c (length ws) put (acc us) \<lparr>ia_data = b @ rest, ia_size = s, ia_error = e\<rparr> =
          Inr (acc vs, \<lparr>ia_data = rest, ia_size = s - of_nat (length b), ia_error = e\<rparr>)"
    if "vs = us @ ws" "items_write c ws [] = Inr b" "length b < 2 ^ 64" for us ws b s
    using that
  proof (induction ws arbitrary: us b s)
    case Nil
    then show ?case by simp
  next
    case (Cons v ws)
    from Cons.prems(2) obtain b1 b2 where
      b1: "item_write c v [] = Inr b1" and b2: "items_write c ws [] = Inr b2" and b: "b = b1 @ b2"
      by (rule items_write_ConsE)
    have ok: "ok v" using assms(1) Cons.prems(1) by simp
    have rd: "item_read c \<lparr>ia_data = b1 @ (b2 @ rest), ia_size = s, ia_error = e\<rparr> =
        Inr (Some v, \<lparr>ia_data = b2 @ rest, ia_size = s - of_nat (length b1), ia_error = e\<rparr>)"
      using item_read_write [OF ok b1] b Cons.prems(3) by simp
    have IH: "items_read c (length ws) put (acc (us @ [v]))
        \<lparr>ia_data = b2 @ rest, ia_size = s - of_nat (length b1), ia_error = e\<rparr> =
        Inr (acc vs, \<lparr>ia_data = rest, ia_size = s - of_nat (length b1) - of_nat (length b2), ia_error = e\<rparr>)"
      by (rule Cons.IH) (use Cons.prems b b2 in auto)
    show ?case using rd IH assms(4) [OF Cons.prems(1)] b by (simp add: algebra_simps)
  qed
  from this [of "[]" vs] assms(2,3) show ?thesis by simp
qed

end

text \<open>
  Types whose \<open>operator<<\<close> moreover moves the archive past exactly the bytes of the value. Strings
  and the types that end in one do not: they take what the archive announces and stay.
\<close>

locale seq_codec = codec +
  assumes rd_wr_seq: "ok v \<Longrightarrow> wr c v [] = Inr b \<Longrightarrow> length b < 2 ^ 64 \<Longrightarrow>
      rd c (dflt c) \<lparr>ia_data = b @ rest, ia_size = s, ia_error = False\<rparr>
        = Inr (v, \<lparr>ia_data = rest, ia_size = s - of_nat (length b), ia_error = False\<rparr>)"

text \<open>How a codec that is not fundamental is shown to keep the promise.\<close>

lemma seq_codecI:
  assumes "\<not> is_fund c"
    and "\<And>v. appends (wr c v)"
    and "\<And>v. ok v \<Longrightarrow> \<exists>b. wr c v [] = Inr b"
    and "\<And>v b rest s. ok v \<Longrightarrow> wr c v [] = Inr b \<Longrightarrow> length b < 2 ^ 64 \<Longrightarrow>
      rd c (dflt c) \<lparr>ia_data = b @ rest, ia_size = s, ia_error = False\<rparr>
        = Inr (v, \<lparr>ia_data = rest, ia_size = s - of_nat (length b), ia_error = False\<rparr>)"
  shows "seq_codec c ok"
  using assms by unfold_locales auto

lemma seq_codec_fundI:
  assumes "codec c ok" "is_fund c"
  shows "seq_codec c ok"
  by (intro seq_codec.intro seq_codec_axioms.intro assms(1)) (rule codec.rd_wr_fund [OF assms])

end
