(* ===== verification/Result.thy ===== *)
theory Result
  imports Archive
begin

text \<open>
  \<open>result.hpp\<close>: how a call ends, the names of these ends, and the value a future or a coroutine
  yields. The underlying integers of \<open>finally_t\<close> are \<open>finally_code\<close>; they order the type.
\<close>

datatype finally_t =
    normal
  | no_need_rsp
  | timeout
  | canceled
  | rpc_expired
  | rpc_not_ready
  | rsp_serialize_error
  | finally_no_such_cmd

fun finally_code :: "finally_t \<Rightarrow> int" where
  "finally_code normal = 0"
| "finally_code no_need_rsp = 1"
| "finally_code timeout = 2"
| "finally_code canceled = 3"
| "finally_code rpc_expired = 4"
| "finally_code rpc_not_ready = 5"
| "finally_code rsp_serialize_error = 6"
| "finally_code finally_no_such_cmd = 7"

lemma finally_code_inj [simp]: "finally_code s = finally_code t \<longleftrightarrow> s = t"
  by (cases s; cases t) auto

instantiation finally_t :: linorder
begin

definition less_eq_finally_t :: "finally_t \<Rightarrow> finally_t \<Rightarrow> bool" where
  "less_eq_finally_t s t = (finally_code s \<le> finally_code t)"

definition less_finally_t :: "finally_t \<Rightarrow> finally_t \<Rightarrow> bool" where
  "less_finally_t s t = (finally_code s < finally_code t)"

instance
  by standard (auto simp: less_eq_finally_t_def less_finally_t_def)

end

text \<open>The argument is any value of the enumeration's underlying \<open>int\<close>.\<close>

definition finally_t_str :: "int \<Rightarrow> string" where
  "finally_t_str t =
     (if t = finally_code normal then ''normal''
      else if t = finally_code no_need_rsp then ''no_need_rsp''
      else if t = finally_code timeout then ''timeout''
      else if t = finally_code canceled then ''canceled''
      else if t = finally_code rpc_expired then ''rpc_expired''
      else if t = finally_code rpc_not_ready then ''rpc_not_ready''
      else if t = finally_code rsp_serialize_error then ''rsp_serialize_error''
      else if t = finally_code finally_no_such_cmd then ''no_such_cmd''
      else ''unknown'')"

record 'a result =
  r_type :: finally_t
  r_data :: 'a

definition result_bool :: "'a result \<Rightarrow> bool" where
  "result_bool r = (r_type r = normal)"

definition result_deref :: "'a result \<Rightarrow> 'a" where
  "result_deref r = r_data r"

text \<open>The specialization for \<open>void\<close> has no data.\<close>

record result_void =
  rv_type :: finally_t

definition result_void_bool :: "result_void \<Rightarrow> bool" where
  "result_void_bool r = (rv_type r = normal)"

lemma finally_t_str_inj:
  "finally_t_str (finally_code s) = finally_t_str (finally_code t) \<longleftrightarrow> s = t"
  by (cases s; cases t) (simp_all add: finally_t_str_def)

end
