(* ===== verification/Scalars.thy ===== *)
theory Scalars
  imports Archive
begin

text \<open>
  The overloads of \<open>type_raw.hpp\<close>, \<open>type_enum.hpp\<close>, \<open>type_ptr.hpp\<close>, \<open>type_void.hpp\<close>,
  \<open>std_chrono.hpp\<close>, \<open>std_basic_string.hpp\<close>, \<open>std_bitset.hpp\<close> and \<open>binary_wrap.hpp\<close>. A value
  of a type that is copied byte by byte is its object representation; an integer type of \<open>w\<close> bits is
  the set of integers in its range; a pointer is the integer \<open>intptr_t\<close> makes of it.
\<close>

section \<open>Types copied byte by byte\<close>

text \<open>
  \<open>RPC_CORE_DETAIL_DEFINE_RAW_TYPE(type_raw, type_size)\<close>, with \<open>sz = sizeof(type_raw)\<close> and
  \<open>n = type_size\<close>: \<open>bool\<close> and the character types at 1, \<open>short\<close> at 2, \<open>float\<close> at 4, \<open>double\<close> at 8,
  \<open>long double\<close> at 16 (its \<open>sizeof\<close> is 16 on the 64-bit targets, smaller elsewhere).
\<close>

definition raw_codec :: "nat \<Rightarrow> nat \<Rightarrow> bytes codec" where
  "raw_codec sz n =
     \<lparr>is_fund = True,
      wr = (\<lambda>t oa. bindr (peek n t) (\<lambda>b. Inr (oa @ b))),
      rd = (\<lambda>_ ia.
        bindr (peek (min sz n) (ia_data ia)) (\<lambda>b.
        bindr (advance n (ia_data ia)) (\<lambda>p.
          Inr (b @ replicate (sz - min sz n) 0,
               ia\<lparr>ia_data := p, ia_size := ia_size ia - of_nat n\<rparr>)))),
      dflt = replicate sz 0\<rparr>"

text \<open>The type \<open>bool\<close>, whose object representation is 0 or 1.\<close>

definition bool_codec :: "bool codec" where
  "bool_codec =
     \<lparr>is_fund = True,
      wr = (\<lambda>t. wr (raw_codec 1 1) [if t then 1 else 0]),
      rd = (\<lambda>_ ia. bindr (rd (raw_codec 1 1) [0] ia) (\<lambda>(t, ia').
        if t = [1] then Inr (True, ia') else if t = [0] then Inr (False, ia')
        else Inl InvalidBool)),
      dflt = False\<rparr>"

section \<open>Integer types, enumerations, pointers, durations\<close>

text \<open>The conversion \<open>(type_raw)impl.value\<close> from 64 bits to a type of \<open>w\<close> bits.\<close>

definition cast_int :: "bool \<Rightarrow> nat \<Rightarrow> u64 \<Rightarrow> int" where
  "cast_int sg w v = (if sg then signed_take_bit (w - 1) (sint v) else take_bit w (uint v))"

definition int_range :: "bool \<Rightarrow> nat \<Rightarrow> int \<Rightarrow> bool" where
  "int_range sg w i =
     (0 < w \<and> w \<le> 64 \<and>
      (if sg then - (2 ^ (w - 1)) \<le> i \<and> i < 2 ^ (w - 1) else 0 \<le> i \<and> i < 2 ^ w))"

text \<open>The values of \<open>intmax_t\<close> that its encoder negates without overflow.\<close>

definition auto_ok :: "bool \<Rightarrow> nat \<Rightarrow> int \<Rightarrow> bool" where
  "auto_ok sg w i = (int_range sg w i \<and> \<not> (sg \<and> i = - (2 ^ 63)))"

text \<open>\<open>RPC_CORE_DETAIL_DEFINE_RAW_TYPE_AUTO_SIZE\<close>: \<open>int\<close>, \<open>long\<close>, \<open>long long\<close> and unsigned.\<close>

definition int_codec :: "bool \<Rightarrow> nat \<Rightarrow> int codec" where
  "int_codec sg w =
     \<lparr>is_fund = True,
      wr = (\<lambda>t. write_auto sg (word_of_int t)),
      rd = (\<lambda>_ ia. bindr (read_auto sg ia) (\<lambda>(v, ia'). Inr (cast_int sg w v, ia'))),
      dflt = 0\<rparr>"

text \<open>Enumerations go through \<open>uintmax_t\<close>, whatever their underlying type.\<close>

definition enum_codec :: "bool \<Rightarrow> nat \<Rightarrow> int codec" where
  "enum_codec sg w =
     \<lparr>is_fund = False,
      wr = (\<lambda>t. write_auto False (word_of_int t)),
      rd = (\<lambda>_ ia. bindr (read_auto False ia) (\<lambda>(v, ia'). Inr (cast_int sg w v, ia'))),
      dflt = 0\<rparr>"

definition pointer_codec :: "int codec" where
  "pointer_codec =
     \<lparr>is_fund = False,
      wr = (\<lambda>t. wr (int_codec True 64) t),
      rd = (\<lambda>_ ia. rd (int_codec True 64) 0 ia),
      dflt = 0\<rparr>"

definition duration_codec :: "nat \<Rightarrow> int codec" where
  "duration_codec w =
     \<lparr>is_fund = False,
      wr = (\<lambda>t. write_auto True (word_of_int t)),
      rd = (\<lambda>_ ia. bindr (read_auto True ia) (\<lambda>(v, ia'). Inr (cast_int True w v, ia'))),
      dflt = 0\<rparr>"

text \<open>A time point is the duration since the epoch.\<close>

definition time_point_codec :: "nat \<Rightarrow> int codec" where
  "time_point_codec w =
     \<lparr>is_fund = False,
      wr = (\<lambda>t. wr (duration_codec w) t),
      rd = (\<lambda>_ ia. rd (duration_codec w) 0 ia),
      dflt = 0\<rparr>"

definition void_codec :: "unit codec" where
  "void_codec =
     \<lparr>is_fund = True, wr = (\<lambda>_ oa. Inr oa), rd = (\<lambda>_ ia. Inr ((), ia)), dflt = ()\<rparr>"

section \<open>Strings, bit sets, binary data\<close>

text \<open>
  \<open>std::basic_string\<close> with characters of \<open>vt\<close> bytes, as its bytes. Reading takes as many whole
  characters as the archive announces, and leaves the archive where it is.
\<close>

definition string_codec :: "nat \<Rightarrow> bytes codec" where
  "string_codec vt =
     \<lparr>is_fund = False,
      wr = (\<lambda>t oa. Inr (oa @ t)),
      rd = (\<lambda>_ ia. bindr (peek (unat (ia_size ia) div vt * vt) (ia_data ia)) (\<lambda>t. Inr (t, ia))),
      dflt = []\<rparr>"

text \<open>The rvalue overload for strings: an empty archive takes the string over.\<close>

definition string_write_move :: "bytes \<Rightarrow> oarchive \<Rightarrow> oarchive res" where
  "string_write_move t oa = (if oa = [] then Inr t else Inr (oa @ t))"

text \<open>
  \<open>std::bitset<n>\<close>, its bits from the most significant down, travels as the characters 0 and 1. The
  constructor from a string looks at the first \<open>n\<close> characters for the low bits, but throws
  \<open>std::invalid_argument\<close> at any character that is not a digit.
\<close>

definition bitset_codec :: "nat \<Rightarrow> bool list codec" where
  "bitset_codec n =
     \<lparr>is_fund = False,
      wr = (\<lambda>t oa. Inr (oa @ map (\<lambda>b. if b then 49 else 48) t)),
      rd = (\<lambda>_ ia. bindr (rd (string_codec 1) [] ia) (\<lambda>(tmp, ia').
        if list_all (\<lambda>x. x = 48 \<or> x = 49) tmp
        then Inr (replicate (n - min n (length tmp)) False @ map (\<lambda>x. x = 49) (take n tmp), ia')
        else Inl InvalidArgument)),
      dflt = replicate n False\<rparr>"

text \<open>\<open>binary_wrap\<close>: a size and the bytes its pointer refers to.\<close>

definition binary_wrap_codec :: "bytes codec" where
  "binary_wrap_codec =
     \<lparr>is_fund = False,
      wr = (\<lambda>t oa. bindr (wr (int_codec False 64) (int (length t)) oa) (\<lambda>oa'. Inr (oa' @ t))),
      rd = (\<lambda>_ ia. bindr (rd (int_codec False 64) 0 ia) (\<lambda>(sz, ia').
        bindr (peek (nat sz) (ia_data ia')) (\<lambda>t.
        bindr (advance (nat sz) (ia_data ia')) (\<lambda>p.
          Inr (t, ia'\<lparr>ia_data := p, ia_size := ia_size ia' - word_of_int sz\<rparr>))))),
      dflt = []\<rparr>"

section \<open>The codec laws\<close>

text \<open>All integer codecs are the 64-bit encoder between two conversions.\<close>

lemma codec_autoI:
  assumes "wr c = (\<lambda>v. write_auto sg (f v))"
    and "rd c = (\<lambda>_ ia. bindr (read_auto sg ia) (\<lambda>(v, ia'). Inr (g v, ia')))"
    and "\<And>v. ok v \<Longrightarrow> g (f v) = v"
    and "\<And>v. ok v \<Longrightarrow> \<not> (sg \<and> f v = int64_min)"
  shows "codec c ok"
proof
  fix v
  show "appends (wr c v)"
    by (simp add: assms(1) write_auto_appends)
next
  fix v
  assume "ok v"
  with auto_serialize_total [of sg "f v"] assms(4) show "\<exists>b. wr c v [] = Inr b"
    by (auto simp: assms(1) write_auto_def)
next
  fix v b rest
  assume "ok v" "wr c v [] = Inr b"
  then show "\<exists>ia'. rd c (dflt c) \<lparr>ia_data = b @ rest, ia_size = of_nat (length b), ia_error = False\<rparr>
              = Inr (v, ia') \<and> \<not> ia_error ia'"
    by (simp add: assms read_write_auto)
next
  fix v b rest s e old
  assume "ok v" "wr c v [] = Inr b"
  then show "rd c old \<lparr>ia_data = b @ rest, ia_size = s, ia_error = e\<rparr>
        = Inr (v, \<lparr>ia_data = rest, ia_size = s - of_nat (length b), ia_error = e\<rparr>)"
    by (simp add: assms read_write_auto)
qed

lemma int_range_signed_64:
  assumes "int_range True w i"
  shows "- (2 ^ 63) \<le> i" "i < 2 ^ 63"
proof -
  have "(2::int) ^ (w - 1) \<le> 2 ^ 63"
    using assms by (intro power_increasing) (auto simp: int_range_def)
  with assms show "- (2 ^ 63) \<le> i" "i < 2 ^ 63" by (auto simp: int_range_def)
qed

lemma sint_word_of_int_range:
  "- (2 ^ 63) \<le> i \<Longrightarrow> i < 2 ^ 63 \<Longrightarrow> sint (word_of_int i :: u64) = i"
  by (simp add: signed_of_int signed_take_bit_int_eq_self)

lemma cast_int_word_of_int:
  assumes "int_range sg w i"
  shows "cast_int sg w (word_of_int i) = i"
proof (cases sg)
  case True
  with assms int_range_signed_64 [of w i] show ?thesis
    by (simp add: cast_int_def sint_word_of_int_range) (simp add: int_range_def signed_take_bit_int_eq_self)
next
  case False
  have "(2::int) ^ w \<le> 2 ^ 64"
    using assms by (intro power_increasing) (auto simp: int_range_def)
  with False assms have "0 \<le> i" "i < 2 ^ 64" "i < 2 ^ w" by (auto simp: int_range_def)
  with False show ?thesis by (simp add: cast_int_def uint_word_of_int take_bit_int_eq_self)
qed

lemma auto_ok_not_min:
  assumes "auto_ok sg w i" "sg"
  shows "(word_of_int i :: u64) \<noteq> int64_min"
proof
  assume "(word_of_int i :: u64) = int64_min"
  then have "sint (word_of_int i :: u64) = sint int64_min" by simp
  with assms int_range_signed_64 [of w i] show False
    by (simp add: auto_ok_def sint_word_of_int_range int64_min_def)
qed

lemma auto_ok_range: "auto_ok sg w i \<Longrightarrow> int_range sg w i"
  by (simp add: auto_ok_def)

lemma codec_int: "codec (int_codec sg w) (auto_ok sg w)"
  by (rule codec_autoI [of _ sg word_of_int "cast_int sg w"])
    (auto simp: int_codec_def cast_int_word_of_int dest: auto_ok_range auto_ok_not_min)

lemma codec_enum: "codec (enum_codec sg w) (int_range sg w)"
  by (rule codec_autoI [of _ False word_of_int "cast_int sg w"])
    (auto simp: enum_codec_def cast_int_word_of_int)

lemma codec_duration: "codec (duration_codec w) (auto_ok True w)"
  by (rule codec_autoI [of _ True word_of_int "cast_int True w"])
    (auto simp: duration_codec_def cast_int_word_of_int dest: auto_ok_range auto_ok_not_min)

lemma codec_pointer: "codec pointer_codec (auto_ok True 64)"
  by (rule codec_autoI [of _ True word_of_int "cast_int True 64"])
    (auto simp: pointer_codec_def int_codec_def cast_int_word_of_int dest: auto_ok_range auto_ok_not_min)

lemma codec_time_point: "codec (time_point_codec w) (auto_ok True w)"
  by (rule codec_autoI [of _ True word_of_int "cast_int True w"])
    (auto simp: time_point_codec_def duration_codec_def cast_int_word_of_int
      dest: auto_ok_range auto_ok_not_min)

interpretation int: codec "int_codec sg w" "auto_ok sg w" for sg w
  by (rule codec_int)

interpretation enum: codec "enum_codec sg w" "int_range sg w" for sg w
  by (rule codec_enum)

interpretation pointer: codec pointer_codec "auto_ok True 64"
  by (rule codec_pointer)

interpretation duration: codec "duration_codec w" "auto_ok True w" for w
  by (rule codec_duration)

interpretation time_point: codec "time_point_codec w" "auto_ok True w" for w
  by (rule codec_time_point)

interpretation raw: codec "raw_codec n n" "\<lambda>t. length t = n" for n
  by unfold_locales (auto simp: raw_codec_def peek_def advance_def appends_def)

interpretation bool: codec bool_codec "\<lambda>_. True"
  by unfold_locales (auto simp: bool_codec_def raw_codec_def peek_def advance_def appends_def split: if_splits)

interpretation void: codec void_codec "\<lambda>_. True"
  by unfold_locales (auto simp: void_codec_def appends_def)

interpretation string: codec "string_codec vt" "\<lambda>t. 0 < vt \<and> vt dvd length t" for vt
  by unfold_locales (auto simp: string_codec_def unat_of_nat_length peek_def appends_def)

lemma rd_string_bytes:
  "length b < 2 ^ 64 \<Longrightarrow>
   rd (string_codec 1) old \<lparr>ia_data = b @ rest, ia_size = of_nat (length b), ia_error = e\<rparr> =
     Inr (b, \<lparr>ia_data = b @ rest, ia_size = of_nat (length b), ia_error = e\<rparr>)"
  using unat_of_nat_length [of b] by (simp add: string_codec_def peek_def)

lemma bitset_chars: "map (\<lambda>x. x = (49 :: byte)) (map (\<lambda>b. if b then 49 else 48) t) = t"
  by (induction t) auto

interpretation bitset: codec "bitset_codec n" "\<lambda>t. length t = n" for n
proof unfold_locales
  fix t :: "bool list" and b rest
  assume t: "length t = n" and w: "wr (bitset_codec n) t [] = Inr b" and l: "length b < 2 ^ 64"
  from w have b: "b = map (\<lambda>b. if b then 49 else 48) t" by (simp add: bitset_codec_def)
  have "list_all (\<lambda>x. x = (48 :: byte) \<or> x = 49) b" by (auto simp: b list_all_iff)
  with t b bitset_chars [of t] rd_string_bytes [OF l] show "\<exists>ia'. rd (bitset_codec n) (dflt (bitset_codec n))
      \<lparr>ia_data = b @ rest, ia_size = of_nat (length b), ia_error = False\<rparr>
        = Inr (t, ia') \<and> \<not> ia_error ia'"
    by (simp add: bitset_codec_def)
qed (auto simp: bitset_codec_def appends_def)

interpretation binary_wrap: codec binary_wrap_codec "\<lambda>t. length t < 2 ^ 64"
proof unfold_locales
  fix t
  show "appends (wr binary_wrap_codec t)"
    unfolding binary_wrap_codec_def by simp (intro frame_intros int.wr_appends)
next
  fix t :: bytes
  assume "length t < 2 ^ 64"
  then have "auto_ok False 64 (int (length t))" by (simp add: auto_ok_def int_range_def)
  then show "\<exists>b. wr binary_wrap_codec t [] = Inr b"
    using int.wr_total by (fastforce simp: binary_wrap_codec_def)
next
  fix t :: bytes and b rest
  assume t: "length t < 2 ^ 64" and w: "wr binary_wrap_codec t [] = Inr b"
  have ok: "auto_ok False 64 (int (length t))" using t by (simp add: auto_ok_def int_range_def)
  from w obtain h where h: "wr (int_codec False 64) (int (length t)) [] = Inr h" and b: "b = h @ t"
    by (auto simp: binary_wrap_codec_def)
  have f: "is_fund (int_codec False 64)" by (simp add: int_codec_def)
  show "\<exists>ia'. rd binary_wrap_codec (dflt binary_wrap_codec)
      \<lparr>ia_data = b @ rest, ia_size = of_nat (length b), ia_error = False\<rparr>
        = Inr (t, ia') \<and> \<not> ia_error ia'"
    using int.rd_wr_fund [OF f ok h, of 0 "t @ rest"] b
    by (simp add: binary_wrap_codec_def peek_def advance_def)
qed (auto simp: binary_wrap_codec_def)

end
