(* ===== verification/Tuples.thy ===== *)
theory Tuples
  imports Scalars
begin

text \<open>
  The overloads of \<open>std_tuple.hpp\<close>, \<open>std_pair.hpp\<close> and \<open>std_complex.hpp\<close>. A tuple is built from its
  first element by appending one element at a time, as the recursion of \<open>tuple_serialize_helper\<close>
  goes down from \<open>N\<close> to 1, so a tuple of three is \<open>((x, y), z)\<close>.
\<close>

section \<open>std_tuple.hpp\<close>

datatype tuple_serialize_type = Ignore | RawType | Normal

text \<open>The arguments are \<open>std::is_fundamental<T>::value\<close> and \<open>is_std_ignore<T>::value\<close>.\<close>

definition tuple_serialize_type_check :: "bool \<Rightarrow> bool \<Rightarrow> tuple_serialize_type" where
  "tuple_serialize_type_check fund ign = (if fund then RawType else if ign then Ignore else Normal)"

definition tuple_serialize_helper_impl ::
  "tuple_serialize_type \<Rightarrow> 'a codec \<Rightarrow> 'a \<Rightarrow> oarchive \<Rightarrow> oarchive res" where
  "tuple_serialize_helper_impl ty c v oa =
     (case ty of
        Normal \<Rightarrow> bindr (wr c v []) (\<lambda>tmp. write_sub tmp oa)
      | RawType \<Rightarrow> wr c v oa
      | Ignore \<Rightarrow> Inr oa)"

text \<open>The error flag of the nested archive \<open>tmp\<close> is not looked at.\<close>

definition tuple_de_serialize_helper_impl ::
  "tuple_serialize_type \<Rightarrow> 'a codec \<Rightarrow> 'a \<Rightarrow> iarchive \<Rightarrow> ('a \<times> iarchive) res" where
  "tuple_de_serialize_helper_impl ty c v ia =
     (case ty of
        Normal \<Rightarrow> bindr (sub_archive ia) (\<lambda>(tmp, ia').
                   bindr (rd c v tmp) (\<lambda>(v', tmp'). Inr (v', ia')))
      | RawType \<Rightarrow> rd c v ia
      | Ignore \<Rightarrow> Inr (v, ia))"

text \<open>The two cases of the recursion: one element, and one more element.\<close>

definition tuple_one :: "bool \<Rightarrow> 'a codec \<Rightarrow> 'a codec" where
  "tuple_one ign c =
     \<lparr>is_fund = False,
      wr = (\<lambda>t oa. tuple_serialize_helper_impl (tuple_serialize_type_check (is_fund c) ign) c t oa),
      rd = (\<lambda>t ia. tuple_de_serialize_helper_impl (tuple_serialize_type_check (is_fund c) ign) c t ia),
      dflt = dflt c\<rparr>"

definition tuple_snoc :: "'a codec \<Rightarrow> bool \<Rightarrow> 'b codec \<Rightarrow> ('a \<times> 'b) codec" where
  "tuple_snoc tc ign c =
     \<lparr>is_fund = False,
      wr = (\<lambda>(t, v) oa. bindr (wr tc t oa)
        (tuple_serialize_helper_impl (tuple_serialize_type_check (is_fund c) ign) c v)),
      rd = (\<lambda>(t, v) ia. bindr (rd tc t ia) (\<lambda>(t', ia').
        if ia_error ia' then Inr ((t', v), ia')
        else bindr (tuple_de_serialize_helper_impl (tuple_serialize_type_check (is_fund c) ign) c v ia')
               (\<lambda>(v', ia''). Inr ((t', v'), ia'')))),
      dflt = (dflt tc, dflt c)\<rparr>"

section \<open>std_pair.hpp, std_complex.hpp\<close>

text \<open>A pair is a tuple of references on the way out, and a fresh tuple on the way in.\<close>

definition pair_codec :: "'a codec \<Rightarrow> 'b codec \<Rightarrow> ('a \<times> 'b) codec" where
  "pair_codec c d =
     (let tup = tuple_snoc (tuple_one False c) False d in
     \<lparr>is_fund = False,
      wr = (\<lambda>t oa. wr tup t oa),
      rd = (\<lambda>_ ia. rd tup (dflt tup) ia),
      dflt = (dflt c, dflt d)\<rparr>)"

text \<open>A complex number of a fundamental value type: real part, imaginary part.\<close>

definition complex_codec :: "'a codec \<Rightarrow> ('a \<times> 'a) codec" where
  "complex_codec c =
     \<lparr>is_fund = False,
      wr = (\<lambda>(re, im) oa. bindr (wr c re oa) (wr c im)),
      rd = (\<lambda>_ ia. bindr (rd c (dflt c) ia) (\<lambda>(re, ia').
                   bindr (rd c (dflt c) ia') (\<lambda>(im, ia''). Inr ((re, im), ia'')))),
      dflt = (dflt c, dflt c)\<rparr>"

section \<open>The codec laws\<close>

lemma tuple_impl_write:
  "tuple_serialize_helper_impl (tuple_serialize_type_check (is_fund c) False) c v = item_write c v"
  by (rule ext) (simp add: tuple_serialize_helper_impl_def tuple_serialize_type_check_def item_write_def)

lemma tuple_impl_read:
  assumes "item_read c ia = Inr (Some v, ia')"
  shows "tuple_de_serialize_helper_impl (tuple_serialize_type_check (is_fund c) False) c (dflt c) ia
           = Inr (v, ia')"
  using assms
  by (auto simp: tuple_de_serialize_helper_impl_def tuple_serialize_type_check_def item_read_def
      res_simps split: if_splits)

lemmas tuple_write_defs = tuple_one_def tuple_snoc_def tuple_impl_write

context codec
begin

lemma tuple_one_seq: "seq_codec (tuple_one False c) ok"
proof (rule seq_codecI)
  fix v
  show "appends (wr (tuple_one False c) v)"
    by (simp add: tuple_write_defs item_write_appends)
next
  fix v
  assume "ok v"
  then show "\<exists>b. wr (tuple_one False c) v [] = Inr b"
    by (simp add: tuple_write_defs item_write_total)
next
  fix v b rest s
  assume "ok v" "wr (tuple_one False c) v [] = Inr b" "length b < 2 ^ 64"
  then show "rd (tuple_one False c) (dflt (tuple_one False c)) \<lparr>ia_data = b @ rest, ia_size = s, ia_error = False\<rparr>
      = Inr (v, \<lparr>ia_data = rest, ia_size = s - of_nat (length b), ia_error = False\<rparr>)"
    using tuple_impl_read [OF item_read_write, of v b] by (simp add: tuple_write_defs)
qed (simp add: tuple_one_def)

lemma tuple_snoc_seq:
  assumes "seq_codec tc okt"
  shows "seq_codec (tuple_snoc tc False c) (\<lambda>(t, v). okt t \<and> ok v)"
proof (rule seq_codecI)
  fix p
  show "appends (wr (tuple_snoc tc False c) p)"
    by (cases p) (simp add: tuple_write_defs appends_bind [OF codec.wr_appends [OF seq_codec.axioms(1) [OF assms]] item_write_appends])
next
  fix p
  assume "case p of (t, v) \<Rightarrow> okt t \<and> ok v"
  with codec.wr_total [OF seq_codec.axioms(1) [OF assms], of "fst p"] item_write_total [of "snd p"]
  show "\<exists>b. wr (tuple_snoc tc False c) p [] = Inr b"
    by (auto simp: tuple_write_defs)
next
  fix p b rest s
  assume ok: "case p of (t, v) \<Rightarrow> okt t \<and> ok v"
    and w: "wr (tuple_snoc tc False c) p [] = Inr b" and l: "length b < 2 ^ 64"
  obtain t v where p: "p = (t, v)" by force
  with w obtain b1 where b1: "wr tc t [] = Inr b1" "item_write c v b1 = Inr b"
    by (auto simp: tuple_write_defs)
  then obtain b2 where b2: "item_write c v [] = Inr b2" and b: "b = b1 @ b2"
    by (auto elim: appends_InrE [OF item_write_appends])
  have r1: "rd tc (dflt tc) \<lparr>ia_data = b1 @ (b2 @ rest), ia_size = s, ia_error = False\<rparr>
      = Inr (t, \<lparr>ia_data = b2 @ rest, ia_size = s - of_nat (length b1), ia_error = False\<rparr>)"
    by (rule seq_codec.rd_wr_seq [OF assms]) (use ok p b1 b l in auto)
  have r2: "item_read c \<lparr>ia_data = b2 @ rest, ia_size = s - of_nat (length b1), ia_error = False\<rparr>
      = Inr (Some v, \<lparr>ia_data = rest, ia_size = s - of_nat (length b1) - of_nat (length b2), ia_error = False\<rparr>)"
    by (rule item_read_write) (use ok p b2 b l in auto)
  show "rd (tuple_snoc tc False c) (dflt (tuple_snoc tc False c)) \<lparr>ia_data = b @ rest, ia_size = s, ia_error = False\<rparr>
      = Inr (p, \<lparr>ia_data = rest, ia_size = s - of_nat (length b), ia_error = False\<rparr>)"
    using r1 tuple_impl_read [OF r2] by (simp add: tuple_snoc_def p b algebra_simps)
qed (simp add: tuple_snoc_def)

lemma complex_seq:
  assumes "is_fund c"
  shows "seq_codec (complex_codec c) (\<lambda>(re, im). ok re \<and> ok im)"
proof (rule seq_codecI)
  fix p
  show "appends (wr (complex_codec c) p)"
    by (cases p) (simp add: complex_codec_def appends_bind [OF wr_appends wr_appends])
next
  fix p
  assume "case p of (re, im) \<Rightarrow> ok re \<and> ok im"
  then show "\<exists>b. wr (complex_codec c) p [] = Inr b"
    using wr_total [of "fst p"] wr_total [of "snd p"] appends_Inr [OF wr_appends]
    by (auto simp: complex_codec_def)
next
  fix p b rest s
  assume ok: "case p of (re, im) \<Rightarrow> ok re \<and> ok im" and w: "wr (complex_codec c) p [] = Inr b"
  obtain re im where p: "p = (re, im)" by force
  with w obtain b1 where b1: "wr c re [] = Inr b1" "wr c im b1 = Inr b"
    by (auto simp: complex_codec_def)
  then obtain b2 where b2: "wr c im [] = Inr b2" and b: "b = b1 @ b2"
    by (auto elim: appends_InrE [OF wr_appends])
  show "rd (complex_codec c) (dflt (complex_codec c)) \<lparr>ia_data = b @ rest, ia_size = s, ia_error = False\<rparr>
      = Inr (p, \<lparr>ia_data = rest, ia_size = s - of_nat (length b), ia_error = False\<rparr>)"
    using ok rd_wr_fund [OF assms, of re b1] rd_wr_fund [OF assms, of im b2] b1 b2
    by (simp add: complex_codec_def p b algebra_simps)
qed (simp add: complex_codec_def)

end

lemma pair_seq:
  assumes "codec c ok" "codec d okd"
  shows "seq_codec (pair_codec c d) (\<lambda>(x, y). ok x \<and> okd y)"
proof -
  have s: "seq_codec (tuple_snoc (tuple_one False c) False d) (\<lambda>(x, y). ok x \<and> okd y)"
    by (rule codec.tuple_snoc_seq [OF assms(2) codec.tuple_one_seq [OF assms(1)]])
  note cd = seq_codec.axioms(1) [OF s]
  have df: "dflt (tuple_snoc (tuple_one False c) False d) = (dflt c, dflt d)"
    by (simp add: tuple_snoc_def tuple_one_def)
  show ?thesis
    using codec.wr_appends [OF cd] codec.wr_total [OF cd] seq_codec.rd_wr_seq [OF s]
    by (intro seq_codecI) (simp_all add: pair_codec_def Let_def df)
qed

end
