(* ===== verification/Containers.thy ===== *)
theory Containers
  imports Tuples
begin

text \<open>
  The overloads for the containers of the standard library: \<open>std_list_like.hpp\<close> (vector, list,
  deque), \<open>std_array.hpp\<close>, \<open>std_forward_list.hpp\<close>, \<open>std_container_adaptors.hpp\<close> (stack, queue,
  priority queue), \<open>std_set.hpp\<close> and \<open>std_map.hpp\<close>. A container is the list of its elements in
  iteration order. The order of the elements in a set or map comes from the standard library's
  \<open>emplace\<close>, which compares with the comparison object of the container's type.
\<close>

section \<open>Sequences\<close>

text \<open>\<open>emplace_back\<close> appends to what the target held before.\<close>

definition list_like_codec :: "'a codec \<Rightarrow> 'a list codec" where
  "list_like_codec c =
     \<lparr>is_fund = False,
      wr = (\<lambda>t oa. bindr (write_auto False (of_nat (length t)) oa) (items_write c t)),
      rd = (\<lambda>t ia. bindr (read_auto False ia) (\<lambda>(sz, ia').
        items_read c (unat sz) (\<lambda>t v. Inr (t @ [v])) t ia')),
      dflt = []\<rparr>"

text \<open>
  \<open>std::array<T, n>\<close>: the loop runs up to the announced size, and \<open>t[i]\<close> is not checked against
  \<open>n\<close>. The state of the loop is \<open>i\<close> with the array.
\<close>

definition array_put :: "nat \<times> 'a list \<Rightarrow> 'a \<Rightarrow> (nat \<times> 'a list) res" where
  "array_put = (\<lambda>(i, t) item. if i < length t then Inr (i + 1, t[i := item]) else Inl OutOfBounds)"

definition array_codec :: "nat \<Rightarrow> 'a codec \<Rightarrow> 'a list codec" where
  "array_codec n c =
     \<lparr>is_fund = False,
      wr = (\<lambda>t oa. bindr (write_auto False (of_nat (length t)) oa) (items_write c t)),
      rd = (\<lambda>t ia. bindr (read_auto False ia) (\<lambda>(sz, ia').
        bindr (items_read c (unat sz) array_put (0, t) ia') (\<lambda>((i, t'), ia''). Inr (t', ia'')))),
      dflt = replicate n (dflt c)\<rparr>"

text \<open>\<open>emplace_front\<close> for each element, and one \<open>reverse\<close> at the end.\<close>

definition forward_list_codec :: "'a codec \<Rightarrow> 'a list codec" where
  "forward_list_codec c =
     \<lparr>is_fund = False,
      wr = (\<lambda>t oa. bindr (write_auto False (of_nat (length t)) oa) (items_write c t)),
      rd = (\<lambda>t ia. bindr (read_auto False ia) (\<lambda>(sz, ia').
        bindr (items_read c (unat sz) (\<lambda>t v. Inr (v # t)) t ia') (\<lambda>(t', ia''). Inr (rev t', ia'')))),
      dflt = []\<rparr>"

text \<open>A container adaptor is its container: \<open>(typename T::container_type&)t\<close>.\<close>

definition adaptor_codec :: "'a codec \<Rightarrow> 'a codec" where
  "adaptor_codec cont =
     \<lparr>is_fund = False, wr = (\<lambda>t oa. wr cont t oa), rd = (\<lambda>t ia. rd cont t ia), dflt = dflt cont\<rparr>"

section \<open>Sets and maps\<close>

datatype container_kind = Ordered | MultiOrdered | Unordered | MultiUnordered

text \<open>
  The comparison objects of the container's type: \<open>std::less<Key>\<close> or \<open>std::equal_to<Key>\<close> unless
  the type says otherwise.
\<close>

record 'k comparison =
  key_less :: "'k \<Rightarrow> 'k \<Rightarrow> bool"
  key_equal :: "'k \<Rightarrow> 'k \<Rightarrow> bool"

text \<open>
  \<open>emplace\<close> of the standard library: no effect when a set or map has an equivalent key already;
  otherwise before the first element with a greater key. For an unordered container the list is one
  enumeration of its elements, with the new one at the end.
\<close>

definition emplace ::
  "container_kind \<Rightarrow> 'k comparison \<Rightarrow> ('a \<Rightarrow> 'k) \<Rightarrow> 'a list \<Rightarrow> 'a \<Rightarrow> 'a list" where
  "emplace kind cmp key t item =
     (let less = (\<lambda>x y. key_less cmp (key x) (key y));
          eq = (\<lambda>x y. key_equal cmp (key x) (key y));
          insert = takeWhile (\<lambda>x. \<not> less item x) t @ item # dropWhile (\<lambda>x. \<not> less item x) t
      in case kind of
           Ordered \<Rightarrow> if list_ex (\<lambda>x. \<not> less x item \<and> \<not> less item x) t then t else insert
         | MultiOrdered \<Rightarrow> insert
         | Unordered \<Rightarrow> if list_ex (\<lambda>x. eq x item) t then t else t @ [item]
         | MultiUnordered \<Rightarrow> t @ [item])"

definition set_codec :: "container_kind \<Rightarrow> 'a comparison \<Rightarrow> 'a codec \<Rightarrow> 'a list codec" where
  "set_codec kind cmp c =
     \<lparr>is_fund = False,
      wr = (\<lambda>t oa. bindr (write_auto False (of_nat (length t)) oa) (items_write c t)),
      rd = (\<lambda>t ia. bindr (read_auto False ia) (\<lambda>(sz, ia').
        items_read c (unat sz) (\<lambda>t v. Inr (emplace kind cmp (\<lambda>x. x) t v)) t ia')),
      dflt = []\<rparr>"

text \<open>The elements of a map are pairs, never fundamental: each goes through a nested archive.\<close>

definition map_codec ::
  "container_kind \<Rightarrow> 'k comparison \<Rightarrow> 'k codec \<Rightarrow> 'v codec \<Rightarrow> ('k \<times> 'v) list codec" where
  "map_codec kind cmp ck cv =
     \<lparr>is_fund = False,
      wr = (\<lambda>t oa. bindr (write_auto False (of_nat (length t)) oa) (items_write (pair_codec ck cv) t)),
      rd = (\<lambda>t ia. bindr (read_auto False ia) (\<lambda>(sz, ia').
        items_read (pair_codec ck cv) (unat sz) (\<lambda>t v. Inr (emplace kind cmp fst t v)) t ia')),
      dflt = []\<rparr>"

section \<open>Lists that a container can hold\<close>

text \<open>What the container's class guarantees of its iteration order.\<close>

definition well_ordered :: "container_kind \<Rightarrow> 'k comparison \<Rightarrow> ('a \<Rightarrow> 'k) \<Rightarrow> 'a list \<Rightarrow> bool" where
  "well_ordered kind cmp key t =
     (case kind of
        Ordered \<Rightarrow> sorted_wrt (\<lambda>x y. key_less cmp (key x) (key y) \<and> \<not> key_less cmp (key y) (key x)) t
      | MultiOrdered \<Rightarrow> sorted_wrt (\<lambda>x y. \<not> key_less cmp (key y) (key x)) t
      | Unordered \<Rightarrow> sorted_wrt (\<lambda>x y. \<not> key_equal cmp (key x) (key y)) t
      | MultiUnordered \<Rightarrow> True)"

lemma well_ordered_prefix: "well_ordered kind cmp key (us @ ws) \<Longrightarrow> well_ordered kind cmp key us"
  by (auto simp: well_ordered_def sorted_wrt_append split: container_kind.splits)

text \<open>Emplacing the elements of such a list in order appends each of them.\<close>

lemma emplace_in_order:
  assumes "well_ordered kind cmp key (us @ v # ws)"
  shows "emplace kind cmp key us v = us @ [v]"
proof -
  have t: "takeWhile P us = us" "dropWhile P us = []" if "\<forall>x\<in>set us. P x" for P
    using that by auto
  show ?thesis
    using assms
    by (cases kind)
      (auto simp: emplace_def well_ordered_def sorted_wrt_append list_ex_iff t Let_def)
qed

section \<open>The codec laws\<close>

lemma write_size_total: "\<exists>h. write_auto False n oa = Inr h"
  using auto_serialize_unsigned [of n] by (auto simp: write_auto_def)

text \<open>Every container here writes its size and then its elements.\<close>

context codec
begin

lemma sized_items_appends:
  "appends (\<lambda>oa. bindr (write_auto False n oa) (items_write c t))"
  by (intro frame_intros)

lemma sized_items_total:
  assumes "list_all ok t"
  shows "\<exists>b. bindr (write_auto False n []) (items_write c t) = Inr b"
proof -
  obtain h where "write_auto False n [] = Inr h" using write_size_total by blast
  with items_write_total [OF assms] show ?thesis by auto
qed

lemma sized_items_read:
  assumes w: "bindr (write_auto False (of_nat (length t)) []) (items_write c t) = Inr b"
    and ok: "list_all ok t" and l: "length b < 2 ^ 64" and n: "length t < 2 ^ 64"
    and put: "\<And>us v ws. t = us @ v # ws \<Longrightarrow> put (acc us) v = Inr (acc (us @ [v]))"
  shows "bindr (read_auto False \<lparr>ia_data = b @ rest, ia_size = s, ia_error = e\<rparr>)
            (\<lambda>(sz, ia'). items_read c (unat sz) put (acc []) ia')
         = Inr (acc t, \<lparr>ia_data = rest, ia_size = s - of_nat (length b), ia_error = e\<rparr>)"
proof -
  from w obtain h where h: "write_auto False (of_nat (length t)) [] = Inr h"
    "items_write c t h = Inr b" by auto
  from appends_InrE [OF items_write_appends h(2)] obtain d where
    d: "items_write c t [] = Inr d" and b: "b = h @ d" .
  have "items_read c (length t) put (acc []) \<lparr>ia_data = d @ rest, ia_size = s - of_nat (length h), ia_error = e\<rparr> =
      Inr (acc t, \<lparr>ia_data = rest, ia_size = s - of_nat (length h) - of_nat (length d), ia_error = e\<rparr>)"
    by (rule items_read_write [OF ok d]) (use l b put in auto)
  then show ?thesis
    using read_write_auto [OF h(1), of "d @ rest" s e] unat_of_nat_length [OF n] b
    by (simp add: algebra_simps)
qed

lemma list_like_seq:
  "seq_codec (list_like_codec c) (\<lambda>t. list_all ok t \<and> length t < 2 ^ 64)"
proof (rule seq_codecI)
  fix t b rest s
  assume "list_all ok t \<and> length t < 2 ^ 64" "wr (list_like_codec c) t [] = Inr b" "length b < 2 ^ 64"
  then show "rd (list_like_codec c) (dflt (list_like_codec c)) \<lparr>ia_data = b @ rest, ia_size = s, ia_error = False\<rparr>
      = Inr (t, \<lparr>ia_data = rest, ia_size = s - of_nat (length b), ia_error = False\<rparr>)"
    using sized_items_read [of t b "\<lambda>t v. Inr (t @ [v])" "\<lambda>t. t"] by (simp add: list_like_codec_def)
qed (auto simp: list_like_codec_def sized_items_appends sized_items_total)

lemma forward_list_seq:
  "seq_codec (forward_list_codec c) (\<lambda>t. list_all ok t \<and> length t < 2 ^ 64)"
proof (rule seq_codecI)
  fix t b rest s
  assume a: "list_all ok t \<and> length t < 2 ^ 64" "wr (forward_list_codec c) t [] = Inr b" "length b < 2 ^ 64"
  then show "rd (forward_list_codec c) (dflt (forward_list_codec c)) \<lparr>ia_data = b @ rest, ia_size = s, ia_error = False\<rparr>
      = Inr (t, \<lparr>ia_data = rest, ia_size = s - of_nat (length b), ia_error = False\<rparr>)"
    using sized_items_read [of t b "\<lambda>t v. Inr (v # t)" rev rest s False]
    by (auto simp: forward_list_codec_def res_simps split: prod.splits)
qed (auto simp: forward_list_codec_def sized_items_appends sized_items_total)

lemma set_seq:
  "seq_codec (set_codec kind cmp c)
     (\<lambda>t. list_all ok t \<and> length t < 2 ^ 64 \<and> well_ordered kind cmp (\<lambda>x. x) t)"
proof (rule seq_codecI)
  fix t b rest s
  assume a: "list_all ok t \<and> length t < 2 ^ 64 \<and> well_ordered kind cmp (\<lambda>x. x) t"
    "wr (set_codec kind cmp c) t [] = Inr b" "length b < 2 ^ 64"
  moreover have "emplace kind cmp (\<lambda>x. x) us v = us @ [v]" if "t = us @ v # ws" for us v ws
    using a that emplace_in_order [of kind cmp "\<lambda>x. x" us v ws] by simp
  ultimately show "rd (set_codec kind cmp c) (dflt (set_codec kind cmp c)) \<lparr>ia_data = b @ rest, ia_size = s, ia_error = False\<rparr>
      = Inr (t, \<lparr>ia_data = rest, ia_size = s - of_nat (length b), ia_error = False\<rparr>)"
    using sized_items_read [of t b "\<lambda>t v. Inr (emplace kind cmp (\<lambda>x. x) t v)" "\<lambda>t. t"]
    by (simp add: set_codec_def)
qed (auto simp: set_codec_def sized_items_appends sized_items_total)

text \<open>Filling an array from the front.\<close>

lemma array_put_step:
  assumes "length us < n"
  shows "array_put (length us, us @ drop (length us) (replicate n d)) v =
           Inr (length (us @ [v]), (us @ [v]) @ drop (length (us @ [v])) (replicate n d))"
proof -
  have "replicate (n - length us) d = d # replicate (n - Suc (length us)) d"
    using assms by (metis Suc_diff_Suc replicate_Suc)
  with assms show ?thesis by (simp add: array_put_def)
qed

lemma array_seq:
  "seq_codec (array_codec n c) (\<lambda>t. list_all ok t \<and> length t = n \<and> n < 2 ^ 64)"
proof (rule seq_codecI)
  fix t b rest s
  assume a: "list_all ok t \<and> length t = n \<and> n < 2 ^ 64"
    and w: "wr (array_codec n c) t [] = Inr b" and l: "length b < 2 ^ 64"
  let ?acc = "\<lambda>us. (length us, us @ drop (length us) (replicate n (dflt c)))"
  have "array_put (?acc us) v = Inr (?acc (us @ [v]))" if "t = us @ v # ws" for us v ws
    using a that by (intro array_put_step) simp
  with sized_items_read [of t b array_put ?acc rest s False] a w l
  show "rd (array_codec n c) (dflt (array_codec n c)) \<lparr>ia_data = b @ rest, ia_size = s, ia_error = False\<rparr>
      = Inr (t, \<lparr>ia_data = rest, ia_size = s - of_nat (length b), ia_error = False\<rparr>)"
    by (auto simp: array_codec_def res_simps split: prod.splits)
qed (auto simp: array_codec_def sized_items_appends sized_items_total)

end

lemma map_seq:
  assumes "codec ck okk" "codec cv okv"
  shows "seq_codec (map_codec kind cmp ck cv)
     (\<lambda>t. list_all (\<lambda>(k, v). okk k \<and> okv v) t \<and> length t < 2 ^ 64 \<and> well_ordered kind cmp fst t)"
proof (rule seq_codecI)
  note p = seq_codec.axioms(1) [OF pair_seq [OF assms]]
  fix t b rest s
  assume a: "list_all (\<lambda>(k, v). okk k \<and> okv v) t \<and> length t < 2 ^ 64 \<and> well_ordered kind cmp fst t"
    "wr (map_codec kind cmp ck cv) t [] = Inr b" "length b < 2 ^ 64"
  moreover have "emplace kind cmp fst us v = us @ [v]" if "t = us @ v # ws" for us v ws
    using a that emplace_in_order [of kind cmp fst us v ws] by simp
  ultimately show "rd (map_codec kind cmp ck cv) (dflt (map_codec kind cmp ck cv))
        \<lparr>ia_data = b @ rest, ia_size = s, ia_error = False\<rparr>
      = Inr (t, \<lparr>ia_data = rest, ia_size = s - of_nat (length b), ia_error = False\<rparr>)"
    using codec.sized_items_read [OF p, of t b "\<lambda>t v. Inr (emplace kind cmp fst t v)" "\<lambda>t. t"]
    by (simp add: map_codec_def)
qed (auto simp: map_codec_def intro!: codec.sized_items_appends codec.sized_items_total
    seq_codec.axioms(1) [OF pair_seq [OF assms]])

lemma adaptor_seq: "seq_codec cont ok \<Longrightarrow> seq_codec (adaptor_codec cont) ok"
  by (rule seq_codecI)
    (auto simp: adaptor_codec_def codec.wr_appends codec.wr_total seq_codec.rd_wr_seq
      dest: seq_codec.axioms(1))

end
