(* ===== verification/Structs.thy ===== *)
theory Structs
  imports Containers
begin

text \<open>
  The overloads of \<open>std_unique_ptr.hpp\<close> and \<open>std_shared_ptr.hpp\<close>, the user structures of
  \<open>type_struct.hpp\<close> (\<open>RPC_CORE_DEFINE_TYPE\<close>), and the bridges to other serialization libraries:
  \<open>plugin/flatbuffers.hpp\<close>, \<open>plugin/json_msg.hpp\<close>, \<open>plugin/json.hpp\<close>,
  \<open>serialize_nlohmann_json.hpp\<close>. The functions of those libraries are parameters.
\<close>

section \<open>Owning pointers\<close>

text \<open>A pointer is an optional value. A null on the wire leaves the target as it was.\<close>

definition unique_ptr_codec :: "'a codec \<Rightarrow> 'a option codec" where
  "unique_ptr_codec c =
     \<lparr>is_fund = False,
      wr = (\<lambda>t oa. case t of
          Some v \<Rightarrow> bindr (wr bool_codec True oa) (wr c v)
        | None \<Rightarrow> wr bool_codec False oa),
      rd = (\<lambda>t ia. bindr (rd bool_codec False ia) (\<lambda>(notnull, ia').
        if notnull then bindr (rd c (dflt c) ia') (\<lambda>(v, ia''). Inr (Some v, ia''))
        else Inr (t, ia'))),
      dflt = None\<rparr>"

definition shared_ptr_codec :: "'a codec \<Rightarrow> 'a option codec" where
  "shared_ptr_codec c =
     \<lparr>is_fund = False,
      wr = (\<lambda>t oa. case t of
          Some v \<Rightarrow> bindr (wr bool_codec True oa) (wr c v)
        | None \<Rightarrow> wr bool_codec False oa),
      rd = (\<lambda>t ia. bindr (rd bool_codec False ia) (\<lambda>(notnull, ia').
        if notnull then bindr (rd c (dflt c) ia') (\<lambda>(v, ia''). Inr (Some v, ia''))
        else Inr (t, ia'))),
      dflt = None\<rparr>"

section \<open>type_struct.hpp\<close>

definition amp_write :: "'a codec \<Rightarrow> 'a \<Rightarrow> oarchive \<Rightarrow> oarchive res" where
  "amp_write c t oa =
     (if is_fund c then wr c t oa else bindr (wr c t []) (\<lambda>tmp. write_sub tmp oa))"

text \<open>Once the archive is in error nothing is read; the count \<open>ia.size\<close> is not kept up to date.\<close>

definition amp_read :: "'a codec \<Rightarrow> 'a \<Rightarrow> iarchive \<Rightarrow> ('a \<times> iarchive) res" where
  "amp_read c t ia =
     (if ia_error ia then Inr (t, ia)
      else if is_fund c then rd c t ia
      else bindr (auto_deserialize False 0 (ia_data ia)) (\<lambda>(sz, cost).
           bindr (advance cost (ia_data ia)) (\<lambda>p.
           bindr (rd c t \<lparr>ia_data = p, ia_size = sz, ia_error = False\<rparr>) (\<lambda>(t', tmp).
           bindr (advance (unat sz) p) (\<lambda>q.
             Inr (t', ia\<lparr>ia_data := q, ia_error := ia_error tmp\<rparr>))))))"

text \<open>
  One field of a structure \<open>'s\<close>, as the statement \<open>ar & t.v1\<close> that the macro
  \<open>RPC_CORE_DETAIL_SERIALIZE_FIELD\<close> makes of it, for either kind of archive.
\<close>

record 's field =
  f_write :: "'s \<Rightarrow> oarchive \<Rightarrow> oarchive res"
  f_read :: "'s \<Rightarrow> iarchive \<Rightarrow> ('s \<times> iarchive) res"

definition serialize_field :: "('s \<Rightarrow> 'a) \<Rightarrow> ('a \<Rightarrow> 's \<Rightarrow> 's) \<Rightarrow> 'a codec \<Rightarrow> 's field" where
  "serialize_field getf setf c =
     \<lparr>f_write = (\<lambda>t ar. amp_write c (getf t) ar),
      f_read = (\<lambda>t ar. bindr (amp_read c (getf t) ar) (\<lambda>(v, ar'). Inr (setf v t, ar')))\<rparr>"

text \<open>
  The chain \<open>RPC_CORE_DETAIL_SERIALIZE_PASTE2\<close> to \<open>PASTE64\<close>: the macro for the first argument, then
  the next shorter chain for the others.
\<close>

fun serialize_paste :: "('v \<Rightarrow> 'stmt list) \<Rightarrow> 'v list \<Rightarrow> 'stmt list" where
  "serialize_paste func [] = []"
| "serialize_paste func [v] = func v"
| "serialize_paste func (v # w # vs) = serialize_paste func [v] @ serialize_paste func (w # vs)"

text \<open>Running the statements of the two operators that \<open>RPC_CORE_DEFINE_TYPE\<close> defines.\<close>

fun struct_write :: "'s field list \<Rightarrow> 's \<Rightarrow> oarchive \<Rightarrow> oarchive res" where
  "struct_write [] t ar = Inr ar"
| "struct_write (f # fs) t ar = bindr (f_write f t ar) (struct_write fs t)"

fun struct_read :: "'s field list \<Rightarrow> 's \<Rightarrow> iarchive \<Rightarrow> ('s \<times> iarchive) res" where
  "struct_read [] t ar = Inr (t, ar)"
| "struct_read (f # fs) t ar = bindr (f_read f t ar) (\<lambda>(t', ar'). struct_read fs t' ar')"

definition define_type :: "'s \<Rightarrow> 's field list \<Rightarrow> 's codec" where
  "define_type d fs =
     (let stmts = serialize_paste (\<lambda>f. [f]) fs in
     \<lparr>is_fund = False, wr = struct_write stmts, rd = struct_read stmts, dflt = d\<rparr>)"

section \<open>Other serialization libraries\<close>

text \<open>
  flatbuffers: \<open>pack\<close> is the builder's \<open>Pack\<close>, \<open>unpack\<close> is \<open>VerifyBuffer\<close> followed by
  \<open>UnPackTo\<close>, with \<open>None\<close> when the buffer does not verify.
\<close>

definition flatbuffers_codec :: "('a \<Rightarrow> bytes) \<Rightarrow> (bytes \<Rightarrow> 'a option) \<Rightarrow> 'a \<Rightarrow> 'a codec" where
  "flatbuffers_codec pack unpack d =
     \<lparr>is_fund = False,
      wr = (\<lambda>t oa. Inr (oa @ pack t)),
      rd = (\<lambda>t ia. bindr (peek (unat (ia_size ia)) (ia_data ia)) (\<lambda>buf.
        case unpack buf of
          None \<Rightarrow> Inr (t, ia\<lparr>ia_error := True\<rparr>)
        | Some v \<Rightarrow> Inr (v, ia))),
      dflt = d\<rparr>"

text \<open>
  nlohmann::json: \<open>dump\<close> may throw, which nothing here catches; \<open>parse\<close> is \<open>json::parse\<close> and the
  conversion to the type, \<open>None\<close> when it throws, which is caught.
\<close>

definition json_msg_codec :: "('a \<Rightarrow> bytes res) \<Rightarrow> (bytes \<Rightarrow> 'a option) \<Rightarrow> 'a \<Rightarrow> 'a codec" where
  "json_msg_codec dump parse d =
     \<lparr>is_fund = False,
      wr = (\<lambda>t oa. bindr (dump t) (\<lambda>s. Inr (oa @ s))),
      rd = (\<lambda>t ia. bindr (peek (unat (ia_size ia)) (ia_data ia)) (\<lambda>buf.
        case parse buf of
          None \<Rightarrow> Inr (t, ia\<lparr>ia_error := True\<rparr>)
        | Some v \<Rightarrow> Inr (v, ia))),
      dflt = d\<rparr>"

definition json_codec :: "('a \<Rightarrow> bytes res) \<Rightarrow> (bytes \<Rightarrow> 'a option) \<Rightarrow> 'a \<Rightarrow> 'a codec" where
  "json_codec dump parse d =
     \<lparr>is_fund = False,
      wr = (\<lambda>t oa. bindr (dump t) (\<lambda>s. string_write_move s oa)),
      rd = (\<lambda>t ia. bindr (peek (unat (ia_size ia)) (ia_data ia)) (\<lambda>buf.
        case parse buf of
          None \<Rightarrow> Inr (t, ia\<lparr>ia_error := True\<rparr>)
        | Some v \<Rightarrow> Inr (v, ia))),
      dflt = d\<rparr>"

text \<open>The build that replaces the archives altogether by nlohmann::json.\<close>

definition serialize_nlohmann_json :: "('a \<Rightarrow> bytes res) \<Rightarrow> 'a \<Rightarrow> bytes res" where
  "serialize_nlohmann_json dump t = dump t"

definition deserialize_nlohmann_json :: "(bytes \<Rightarrow> 'a option) \<Rightarrow> bytes \<Rightarrow> 'a \<Rightarrow> bool \<times> 'a" where
  "deserialize_nlohmann_json parse data t =
     (case parse data of Some v \<Rightarrow> (True, v) | None \<Rightarrow> (False, t))"

section \<open>The codec laws\<close>

lemma bool_read_write:
  "rd bool_codec old \<lparr>ia_data = (if v then 1 else 0) # rest, ia_size = s, ia_error = e\<rparr>
     = Inr (v, \<lparr>ia_data = rest, ia_size = s - 1, ia_error = e\<rparr>)"
  by (simp add: bool_codec_def raw_codec_def peek_def advance_def)

lemma bool_write: "wr bool_codec v oa = Inr (oa @ [if v then 1 else 0])"
  by (simp add: bool_codec_def raw_codec_def peek_def)

lemma shared_ptr_eq_unique_ptr: "shared_ptr_codec = unique_ptr_codec"
  by (rule ext) (simp add: shared_ptr_codec_def unique_ptr_codec_def)

context codec
begin

lemma unique_ptr_codec: "codec (unique_ptr_codec c) (pred_option ok)"
proof
  fix t
  have "appends (\<lambda>oa. Inr (oa @ [1 :: byte]))" by (rule appends_bytes)
  then show "appends (wr (unique_ptr_codec c) t)"
    by (cases t) (auto simp: unique_ptr_codec_def bool_write intro: appends_bind [OF _ wr_appends, of "\<lambda>oa. Inr (oa @ [1])", simplified] frame_intros)
next
  fix t
  assume "pred_option ok t"
  then show "\<exists>b. wr (unique_ptr_codec c) t [] = Inr b"
    using wr_total appends_Inr [OF wr_appends]
    by (cases t) (fastforce simp: unique_ptr_codec_def bool_write)+
next
  fix t b rest
  assume ok: "pred_option ok t" and w: "wr (unique_ptr_codec c) t [] = Inr b" and l: "length b < 2 ^ 64"
  show "\<exists>ia'. rd (unique_ptr_codec c) (dflt (unique_ptr_codec c))
      \<lparr>ia_data = b @ rest, ia_size = of_nat (length b), ia_error = False\<rparr> = Inr (t, ia') \<and> \<not> ia_error ia'"
  proof (cases t)
    case None
    with w have "b = [0]" by (simp add: unique_ptr_codec_def bool_write)
    with None bool_read_write [of False False rest 1 False] show ?thesis
      by (simp add: unique_ptr_codec_def)
  next
    case (Some v)
    with w have "wr c v [1] = Inr b" by (simp add: unique_ptr_codec_def bool_write)
    then obtain d where d: "wr c v [] = Inr d" and b: "b = [1] @ d"
      by (rule appends_InrE [OF wr_appends])
    obtain ia' where "rd c (dflt c) \<lparr>ia_data = d @ rest, ia_size = of_nat (length d), ia_error = False\<rparr>
        = Inr (v, ia')" "\<not> ia_error ia'"
      using rd_wr [OF _ d, of rest] ok Some l b by auto
    then show ?thesis
      using Some b bool_read_write [of False True "d @ rest" "of_nat (length b)" False]
      by (simp add: unique_ptr_codec_def)
  qed
qed (simp add: unique_ptr_codec_def)

lemma amp_write_item: "amp_write c = item_write c"
  by (intro ext) (simp add: amp_write_def item_write_def)

lemma amp_read_write:
  assumes "ok v" "amp_write c v [] = Inr b" "length b < 2 ^ 64"
  shows "\<exists>s'. amp_read c (dflt c) \<lparr>ia_data = b @ rest, ia_size = s, ia_error = False\<rparr> =
           Inr (v, \<lparr>ia_data = rest, ia_size = s', ia_error = False\<rparr>)"
proof (cases "is_fund c")
  case True
  with assms rd_wr_fund [OF True, of v b "dflt c" rest s False] show ?thesis
    by (simp add: amp_read_def amp_write_def)
next
  case False
  with assms obtain d where d: "wr c v [] = Inr d" "write_sub d [] = Inr b"
    by (auto simp: amp_write_def)
  then obtain h where h: "auto_serialize False (of_nat (length d)) = Inr h" and b: "b = h @ d"
    by (auto simp: write_sub_def)
  have l: "length d < 2 ^ 64" using b assms(3) by simp
  from rd_wr [OF assms(1) d(1) l, of rest] show ?thesis
    using auto_roundtrip [OF h, of "d @ rest"] False unat_of_nat_length [OF l]
    by (auto simp: amp_read_def b res_simps)
qed

end

text \<open>
  A field copies: it writes its part of \<open>t\<close>, and reading that into \<open>t0\<close> gives \<open>t1\<close>, having
  consumed exactly what was written.
\<close>

definition field_copies :: "'s field \<Rightarrow> 's \<Rightarrow> 's \<Rightarrow> 's \<Rightarrow> bool" where
  "field_copies f t t0 t1 \<longleftrightarrow>
     (\<exists>b. f_write f t [] = Inr b) \<and>
     (\<forall>b rest s. f_write f t [] = Inr b \<longrightarrow> length b < 2 ^ 64 \<longrightarrow>
        (\<exists>s'. f_read f t0 \<lparr>ia_data = b @ rest, ia_size = s, ia_error = False\<rparr> =
                Inr (t1, \<lparr>ia_data = rest, ia_size = s', ia_error = False\<rparr>)))"

text \<open>The fields of a structure copy all of \<open>t\<close> into \<open>t0\<close>, one after the other.\<close>

fun fields_copy :: "'s field list \<Rightarrow> 's \<Rightarrow> 's \<Rightarrow> bool" where
  "fields_copy [] t t0 \<longleftrightarrow> t0 = t"
| "fields_copy (f # fs) t t0 \<longleftrightarrow> (\<exists>t1. field_copies f t t0 t1 \<and> fields_copy fs t t1)"

definition fields_append :: "'s field list \<Rightarrow> bool" where
  "fields_append fs \<longleftrightarrow> (\<forall>f\<in>set fs. \<forall>t. appends (f_write f t))"

lemma fields_append_simps [simp]:
  "fields_append []"
  "fields_append (f # fs) \<longleftrightarrow> (\<forall>t. appends (f_write f t)) \<and> fields_append fs"
  by (simp_all add: fields_append_def)

context codec
begin

lemma serialize_field_appends: "appends (f_write (serialize_field getf setf c) t)"
  using item_write_appends by (simp add: serialize_field_def amp_write_item)

lemma serialize_field_copies:
  "ok (getf t) \<Longrightarrow> getf t0 = dflt c \<Longrightarrow>
   field_copies (serialize_field getf setf c) t t0 (setf (getf t) t0)"
  unfolding field_copies_def
proof (intro conjI allI impI)
  assume ok: "ok (getf t)" and d: "getf t0 = dflt c"
  show "\<exists>b. f_write (serialize_field getf setf c) t [] = Inr b"
    using item_write_total [OF ok] by (simp add: serialize_field_def amp_write_item)
  fix b rest s
  assume "f_write (serialize_field getf setf c) t [] = Inr b" "length b < 2 ^ 64"
  then obtain s' where "amp_read c (dflt c) \<lparr>ia_data = b @ rest, ia_size = s, ia_error = False\<rparr> =
      Inr (getf t, \<lparr>ia_data = rest, ia_size = s', ia_error = False\<rparr>)"
    using amp_read_write [OF ok, of b rest s] by (auto simp: serialize_field_def)
  with d show "\<exists>s'. f_read (serialize_field getf setf c) t0
      \<lparr>ia_data = b @ rest, ia_size = s, ia_error = False\<rparr> =
      Inr (setf (getf t) t0, \<lparr>ia_data = rest, ia_size = s', ia_error = False\<rparr>)"
    by (simp add: serialize_field_def)
qed

end

lemma serialize_paste_single [simp]: "serialize_paste (\<lambda>f. [f]) fs = fs"
  by (induction "\<lambda>f :: 'a. [f]" fs rule: serialize_paste.induct) auto

lemma struct_write_appends: "fields_append fs \<Longrightarrow> appends (struct_write fs t)"
proof (induction fs)
  case Nil
  then show ?case by (simp add: appends_def)
next
  case (Cons f fs)
  then have "appends (\<lambda>oa. bindr (f_write f t oa) (struct_write fs t))"
    by (intro frame_intros) auto
  moreover have "struct_write (f # fs) t = (\<lambda>oa. bindr (f_write f t oa) (struct_write fs t))"
    by (rule ext) simp
  ultimately show ?case by simp
qed

lemma struct_write_total: "fields_append fs \<Longrightarrow> fields_copy fs t t0 \<Longrightarrow> \<exists>b. struct_write fs t oa = Inr b"
proof (induction fs arbitrary: t0 oa)
  case Nil
  then show ?case by simp
next
  case (Cons f fs)
  then obtain t1 where t1: "field_copies f t t0 t1" "fields_copy fs t t1" by auto
  then obtain b where "f_write f t oa = Inr b"
    using appends_Inr [of "f_write f t"] Cons.prems(1) by (fastforce simp: field_copies_def)
  with Cons.IH [OF _ t1(2), of b] Cons.prems(1) show ?case by simp
qed

lemma struct_read_write:
  assumes "fields_append fs" "fields_copy fs t t0" "struct_write fs t [] = Inr b" "length b < 2 ^ 64"
  shows "\<exists>s'. struct_read fs t0 \<lparr>ia_data = b @ rest, ia_size = s, ia_error = False\<rparr> =
           Inr (t, \<lparr>ia_data = rest, ia_size = s', ia_error = False\<rparr>)"
  using assms
proof (induction fs arbitrary: t0 b s)
  case Nil
  then show ?case by simp
next
  case (Cons f fs)
  then obtain t1 where t1: "field_copies f t t0 t1" "fields_copy fs t t1" by auto
  from Cons.prems(3) obtain b1 where b1: "f_write f t [] = Inr b1" "struct_write fs t b1 = Inr b"
    by auto
  obtain b2 where b2: "struct_write fs t [] = Inr b2" and b: "b = b1 @ b2"
    using appends_InrE [OF struct_write_appends b1(2)] Cons.prems(1) by auto
  have l: "length b1 < 2 ^ 64" "length b2 < 2 ^ 64" using Cons.prems(4) b by auto
  from t1(1) b1(1) l(1) obtain s1 where
    "f_read f t0 \<lparr>ia_data = b1 @ b2 @ rest, ia_size = s, ia_error = False\<rparr> =
       Inr (t1, \<lparr>ia_data = b2 @ rest, ia_size = s1, ia_error = False\<rparr>)"
    unfolding field_copies_def by blast
  with Cons.IH [OF _ t1(2) b2 l(2), of s1] Cons.prems(1) b show ?case by simp
qed

lemma define_type_codec:
  assumes "fields_append fs"
  shows "codec (define_type d fs) (\<lambda>t. fields_copy fs t d)"
proof
  fix t b rest
  assume "fields_copy fs t d" "wr (define_type d fs) t [] = Inr b" "length b < 2 ^ 64"
  then show "\<exists>ia'. rd (define_type d fs) (dflt (define_type d fs))
      \<lparr>ia_data = b @ rest, ia_size = of_nat (length b), ia_error = False\<rparr> = Inr (t, ia') \<and> \<not> ia_error ia'"
    using struct_read_write [OF assms, of t d b rest] by (fastforce simp: define_type_def)
qed (auto simp: define_type_def struct_write_total assms struct_write_appends)

text \<open>The bridges, for the values that the other library round-trips.\<close>

lemma flatbuffers_codec: "codec (flatbuffers_codec pack unpack d) (\<lambda>v. unpack (pack v) = Some v)"
  by unfold_locales
    (auto simp: flatbuffers_codec_def appends_def peek_def unat_of_nat_length)

lemma json_msg_codec:
  "codec (json_msg_codec dump parse d) (\<lambda>v. \<exists>s. dump v = Inr s \<and> parse s = Some v)"
  by unfold_locales
    (auto simp: json_msg_codec_def peek_def unat_of_nat_length intro: appends_outer [OF appends_bytes])

lemma string_write_move_eq: "string_write_move s oa = Inr (oa @ s)"
  by (simp add: string_write_move_def)

lemma json_codec_eq: "json_codec dump parse d = json_msg_codec dump parse d"
  by (simp add: json_codec_def json_msg_codec_def string_write_move_eq)

end
