(* ===== verification/MsgWrapper.thy ===== *)
theory MsgWrapper
  imports Structs
begin

unbundle bit_operations_syntax

text \<open>
  The message of \<open>detail/msg_wrapper.hpp\<close> with the types of \<open>type.hpp\<close>: its type flags, the
  construction of responses, and unpacking its data as a value of some type.
\<close>

type_synonym seq_type = u32
type_synonym cmd_type = bytes

section \<open>Message types\<close>

definition command :: byte where "command = 1"
definition response :: byte where "response = 2"
definition need_rsp :: byte where "need_rsp = 4"
definition ping :: byte where "ping = 8"
definition pong :: byte where "pong = 16"
definition no_such_cmd :: byte where "no_such_cmd = 32"

lemmas flag_defs = command_def response_def need_rsp_def ping_def pong_def no_such_cmd_def

definition has_flag :: "byte \<Rightarrow> byte \<Rightarrow> bool" where
  "has_flag ty f = (ty AND f \<noteq> 0)"

datatype response_state = response_sync | response_async | serialize_error

text \<open>
  The pointer \<open>request_payload\<close> is the string it points to; \<open>async_helper\<close> is the number of the
  helper object. A field that a constructor of the code leaves uninitialised, and that is written
  before it is read, has some fixed value here.
\<close>

record msg_wrapper =
  m_seq :: seq_type
  m_cmd :: cmd_type
  m_type :: byte
  m_data :: bytes
  m_request_payload :: "bytes option"
  m_response_state :: response_state
  m_async_helper :: "nat option"

definition empty_msg :: msg_wrapper where
  "empty_msg =
     \<lparr>m_seq = 0, m_cmd = [], m_type = 0, m_data = [], m_request_payload = None,
      m_response_state = response_sync, m_async_helper = None\<rparr>"

section \<open>A message as text\<close>

text \<open>
  \<open>dump\<close> prints into 100 characters of which the last is the terminating zero, and \<open>%s\<close> stops at a
  zero of the command.
\<close>

fun decimal :: "nat \<Rightarrow> bytes" where
  "decimal n = (if n < 10 then [] else decimal (n div 10)) @ [of_nat (48 + n mod 10)]"

declare decimal.simps [simp del]

definition ascii :: "string \<Rightarrow> bytes" where
  "ascii s = map of_char s"

definition dump :: "msg_wrapper \<Rightarrow> bytes" where
  "dump m =
     take 99
       (ascii ''seq:'' @ decimal (unat (m_seq m)) @ ascii '', type:'' @ decimal (unat (m_type m)) @
        ascii '', cmd:'' @ takeWhile (\<lambda>b. b \<noteq> 0) (m_cmd m))"

lemma decimal_digits: "b \<in> set (decimal n) \<Longrightarrow> 48 \<le> b \<and> b \<le> 57"
proof (induction n rule: decimal.induct)
  case (1 n)
  have "of_nat (48 + n mod 10) \<in> {48 .. 57 :: byte}"
    by (simp add: word_le_nat_alt unat_of_nat del: of_nat_add)
  with 1 show ?case by (subst (asm) decimal.simps) (auto split: if_splits)
qed

text \<open>The text has no zero inside, so the string made of the array is all of it.\<close>

lemma dump_text: "length (dump m) \<le> 99 \<and> 0 \<notin> set (dump m)"
proof -
  have "(0 :: byte) \<notin> set (decimal n)" for n
    using decimal_digits [of 0 n] by auto
  moreover have "(0 :: byte) \<notin> set (takeWhile (\<lambda>b. b \<noteq> 0) xs)" for xs
    by (auto dest: set_takeWhileD)
  ultimately have z: "0 \<notin> set (ascii ''seq:'' @ decimal (unat (m_seq m)) @ ascii '', type:'' @
      decimal (unat (m_type m)) @ ascii '', cmd:'' @ takeWhile (\<lambda>b. b \<noteq> 0) (m_cmd m))"
    by (simp add: ascii_def)
  have "length (take 99 xs) \<le> 99 \<and> (b \<notin> set xs \<longrightarrow> b \<notin> set (take 99 xs))" for xs :: bytes and b
    by (auto dest: in_set_takeD)
  with z show ?thesis unfolding dump_def by blast
qed

section \<open>Unpacking and making responses\<close>

definition unpack_as :: "'a codec \<Rightarrow> msg_wrapper \<Rightarrow> (bool \<times> 'a) res" where
  "unpack_as c msg = deserialize c (m_data msg)"

definition make_rsp ::
  "'a codec \<Rightarrow> seq_type \<Rightarrow> 'a option \<Rightarrow> bool \<Rightarrow> (bool \<times> msg_wrapper) res" where
  "make_rsp c seq t success =
     bindr (case t of
         Some v \<Rightarrow> if success then serialize c v else Inr []
       | None \<Rightarrow> Inr []) (\<lambda>d.
       Inr (success,
         empty_msg\<lparr>m_type := response, m_seq := seq, m_data := d,
           m_response_state := (if success then response_sync else serialize_error)\<rparr>))"

definition make_rsp_async :: "seq_type \<Rightarrow> nat \<Rightarrow> bool \<Rightarrow> bool \<times> msg_wrapper" where
  "make_rsp_async seq helper success =
     (success,
      empty_msg\<lparr>m_type := response, m_seq := seq, m_async_helper := Some helper,
        m_response_state := (if success then response_async else serialize_error)\<rparr>)"

section \<open>Facts about the flags\<close>

text \<open>The flag tests on the types that the library itself puts on the wire.\<close>

lemma has_flag_simps [simp]:
  "has_flag (response OR no_such_cmd) no_such_cmd"
  "\<not> has_flag response no_such_cmd"
  "has_flag (response OR pong) pong"
  "\<not> has_flag (response OR pong) no_such_cmd"
  by (simp_all add: has_flag_def flag_defs)

definition dispatch_kind :: "byte \<Rightarrow> byte" where
  "dispatch_kind ty = ty AND (command OR response)"

lemma dispatch_kind_simps [simp]:
  "dispatch_kind response = response"
  "dispatch_kind (response OR pong) = response"
  "dispatch_kind (response OR no_such_cmd) = response"
  "response \<noteq> command" "command \<noteq> response"
  by (simp_all add: dispatch_kind_def flag_defs)

text \<open>The type of an outgoing request.\<close>

definition request_type :: "bool \<Rightarrow> bool \<Rightarrow> byte" where
  "request_type is_ping needs =
     command OR (if is_ping then ping else 0) OR (if needs then need_rsp else 0)"

lemma request_type_flags [simp]:
  "dispatch_kind (request_type p n) = command"
  "has_flag (request_type p n) ping = p"
  "has_flag (request_type p n) need_rsp = n"
  by (cases p; cases n; simp add: request_type_def dispatch_kind_def has_flag_def flag_defs)+

lemma make_rsp_Inr:
  assumes "make_rsp c seq t success = Inr (b, m)"
  shows "b = success" "m_seq m = seq" "m_type m = response" "m_cmd m = []"
    "m_request_payload m = None"
    "m_response_state m = (if success then response_sync else serialize_error)"
  using assms by (auto simp: make_rsp_def empty_msg_def res_simps)

end
