(* ===== verification/Varint.thy ===== *)
theory Varint
  imports Prelude
begin

unbundle bit_operations_syntax

text \<open>
  The varint functions of \<open>detail/varint.hpp\<close>, used by the optional coder. The constant
  \<open>MSB_ALL\<close> has type \<open>uint8_t\<close>: of \<open>~0x7F\<close> only the low byte is left, so the loop guard
  \<open>n & MSB_ALL\<close> looks at bit 7 and not at the bits above it.
\<close>

section \<open>The code\<close>

definition MSB :: byte where
  "MSB = 0x80"

definition MSB_ALL :: byte where
  "MSB_ALL = NOT 0x7F"

lemma MSB_ALL_eq: "MSB_ALL = 0x80"
  by (simp add: MSB_ALL_def)

lemma unat_shift7: "unat (drop_bit 7 (n :: u64)) = unat n div 128"
  by (subst unat_drop_bit_eq) (simp add: drop_bit_eq_div)

lemma guard_bit7: "(n :: u64) AND ucast MSB_ALL \<noteq> 0 \<longleftrightarrow> bit n 7"
proof -
  have m: "(ucast MSB_ALL :: u64) = 2 ^ 7" by (simp add: MSB_ALL_eq)
  show ?thesis by (simp only: m and_exp_eq_0_iff_not_bit not_not)
qed

text \<open>The bytes that \<open>varint_encode\<close> writes into its buffer.\<close>

function varint_encode :: "u64 \<Rightarrow> bytes" where
  "varint_encode n =
     (if n AND ucast MSB_ALL \<noteq> 0
      then (ucast (n AND 0xFF) OR MSB) # varint_encode (drop_bit 7 n)
      else [ucast n])"
  by pat_completeness auto
termination
proof (relation "measure unat")
  fix n :: u64
  assume "n AND ucast MSB_ALL \<noteq> 0"
  then have "n \<noteq> 0" by auto
  then have "unat n \<noteq> 0" by (simp add: unat_eq_zero)
  then have "unat n div 128 < unat n" by simp
  then show "(drop_bit 7 n, n) \<in> measure unat"
    by (simp only: in_measure unat_shift7)
qed simp

declare varint_encode.simps [simp del]

text \<open>
  Decoding adds seven bits per byte while the top bit is set. It reads as far as it must, whatever
  the length of the source, and shifts by the number of bits so far, whatever the width of the type.
  The accumulator \<open>k\<close> counts the bytes consumed.
\<close>

fun varint_decode_loop :: "bytes \<Rightarrow> nat \<Rightarrow> u64 \<Rightarrow> nat \<Rightarrow> (u64 \<times> nat) res" where
  "varint_decode_loop [] bits result k = Inl OutOfBounds"
| "varint_decode_loop (p # ps) bits result k =
     (if bits \<ge> 64 then Inl BadShift
      else
        let result' = result + push_bit bits (ucast (p AND 0x7F))
        in if p AND MSB \<noteq> 0 then varint_decode_loop ps (bits + 7) result' (k + 1)
           else Inr (result', k + 1))"

definition varint_decode :: "bytes \<Rightarrow> (u64 \<times> nat) res" where
  "varint_decode buf = varint_decode_loop buf 0 0 0"

text \<open>The buffer of \<open>to_varint\<close> has five bytes.\<close>

definition to_varint :: "u32 \<Rightarrow> bytes res" where
  "to_varint var =
     (let buf = varint_encode (ucast var)
      in if length buf \<le> 5 then Inr buf else Inl OutOfBounds)"

definition from_varint :: "bytes \<Rightarrow> (u32 \<times> nat) res" where
  "from_varint buf = mapr (\<lambda>(v, k). (ucast v, k)) (varint_decode buf)"


section \<open>What a round trip gives\<close>

text \<open>
  The value that comes back: the encoder stops at the first group whose next bit, bit 7, is clear,
  and drops the bits above.
\<close>

function varint_value :: "nat \<Rightarrow> nat" where
  "varint_value n = (if odd (n div 128) then n mod 128 + 128 * varint_value (n div 128) else n mod 128)"
  by pat_completeness auto
termination
  by (relation "measure id") (auto intro!: div_less_dividend Nat.gr0I)

declare varint_value.simps [simp del]

lemma varint_value_le: "varint_value n \<le> n"
proof (induction n rule: varint_value.induct)
  case (1 n)
  show ?case
  proof (cases "odd (n div 128)")
    case True
    have "n mod 128 + 128 * varint_value (n div 128) \<le> n mod 128 + 128 * (n div 128)"
      by (intro add_mono mult_le_mono 1 [OF True]) auto
    also have "\<dots> = n" by simp
    finally show ?thesis by (simp add: varint_value.simps [of n] True)
  qed (simp add: varint_value.simps [of n])
qed

lemma bit7_iff: "bit (n :: u64) 7 \<longleftrightarrow> odd (unat n div 128)"
proof -
  have "bit n 7 \<longleftrightarrow> bit (unat n) 7" by (simp add: bit_unsigned_iff)
  then show ?thesis by (simp only: bit_iff_odd) simp
qed

lemma unat_low7: "unat (ucast ((w :: byte) AND 0x7F) :: u64) = unat w mod 128"
proof -
  have m: "(0x7F :: byte) = mask 7" by (simp add: mask_eq_exp_minus_1)
  have "unat (take_bit 7 w) = take_bit 7 (unat w)" by (rule unsigned_take_bit_eq)
  also have "\<dots> = unat w mod 128" by (simp add: take_bit_eq_mod)
  finally have "unat (w AND mask 7) = unat w mod 128" by (simp only: take_bit_eq_mask)
  moreover have "unat (ucast (w AND 0x7F) :: u64) = unat (w AND 0x7F)"
    by (simp add: unsigned_ucast_eq take_bit_nat_eq_self order_less_le_trans [OF unsigned_less])
  ultimately show ?thesis by (simp only: m)
qed


lemma low_byte: "(ucast ((n :: u64) AND 0xFF) :: byte) = ucast n"
proof -
  have m: "(0xFF :: u64) = mask 8" by (simp add: mask_eq_exp_minus_1)
  have "(ucast (take_bit 8 n) :: byte) = ucast n"
    by (rule bit_word_eqI) (simp add: bit_simps)
  then show ?thesis by (simp only: m take_bit_eq_mask)
qed

lemma continuation_byte:
  "((x :: byte) OR MSB) AND 0x7F = x AND 0x7F" "((x :: byte) OR MSB) AND MSB \<noteq> 0"
proof -
  show "(x OR MSB) AND 0x7F = x AND 0x7F"
    by (simp add: MSB_def bit.conj_disj_distrib2)
  have m: "MSB = 2 ^ 7" by (simp add: MSB_def)
  show "(x OR MSB) AND MSB \<noteq> 0"
    unfolding m and_exp_eq_0_iff_not_bit by (simp only: bit_or_iff) simp
qed

lemma MSB_nonzero [simp]: "MSB \<noteq> 0"
  by (simp add: MSB_def)

lemma last_byte: "\<not> bit (n :: u64) 7 \<Longrightarrow> (ucast n :: byte) AND MSB = 0"
proof -
  assume "\<not> bit n 7"
  then have b: "\<not> bit (ucast n :: byte) 7" by (simp add: bit_simps)
  have m: "MSB = 2 ^ 7" by (simp add: MSB_def)
  show ?thesis unfolding m and_exp_eq_0_iff_not_bit by (rule b)
qed

lemma low7_of_u64: "(ucast ((ucast (n :: u64) :: byte) AND 0x7F) :: u64) = of_nat (unat n mod 128)"
proof -
  have "unat (ucast n :: byte) = unat n mod 256"
    by (simp add: unsigned_ucast_eq take_bit_eq_mod)
  then have "unat (ucast ((ucast n :: byte) AND 0x7F) :: u64) = unat n mod 128"
    by (simp add: unat_low7 mod_mod_cancel)
  then show ?thesis by (metis of_nat_unat ucast_id)
qed

lemma decode_loop_encode:
  assumes "bits < 64" "unat n * 2 ^ bits < 2 ^ 64"
  shows "varint_decode_loop (varint_encode n @ rest) bits result k =
           Inr (result + push_bit bits (of_nat (varint_value (unat n))), k + length (varint_encode n))"
  using assms
proof (induction n arbitrary: bits result k rule: varint_encode.induct)
  case (1 n)
  show ?case
  proof (cases "bit n 7")
    case False
    then show ?thesis
      using "1.prems" last_byte [OF False]
      by (simp add: varint_encode.simps [of n] varint_value.simps [of "unat n"] guard_bit7 bit7_iff
          low7_of_u64)
  next
    case True
    let ?n' = "drop_bit 7 n"
    have odd: "odd (unat n div 128)" using True bit7_iff [of n] by blast
    have "unat ?n' * 2 ^ (bits + 7) = (unat n div 128 * 128) * 2 ^ bits"
      by (simp only: unat_shift7 power_add) simp
    also have "\<dots> \<le> unat n * 2 ^ bits" by (intro mult_le_mono1) simp
    finally have lt: "unat ?n' * 2 ^ (bits + 7) < 2 ^ 64" using "1.prems"(2) by linarith
    have "1 * 2 ^ (bits + 7) \<le> unat ?n' * 2 ^ (bits + 7)"
      using odd_pos [OF odd] by (intro mult_le_mono1) (simp only: unat_shift7 One_nat_def Suc_le_eq)
    with lt have "2 ^ (bits + 7) < (2 :: nat) ^ 64" by linarith
    then have "bits + 7 < 64" by (simp only: power_strict_increasing_iff)
    from "1.IH" [OF _ this lt] True
    have IH: "varint_decode_loop (varint_encode ?n' @ rest) (bits + 7) r j =
        Inr (r + push_bit (bits + 7) (of_nat (varint_value (unat n div 128))), j + length (varint_encode ?n'))"
      for r j
      by (simp only: guard_bit7 unat_shift7)
    have "push_bit bits (of_nat (unat n mod 128)) +
        push_bit (bits + 7) (of_nat (varint_value (unat n div 128))) =
        (push_bit bits (of_nat (varint_value (unat n))) :: u64)"
      by (simp only: varint_value.simps [of "unat n"] odd if_True push_bit_eq_mult power_add)
        (simp add: algebra_simps)
    then show ?thesis
      using "1.prems"(1) True
      by (simp add: varint_encode.simps [of n] guard_bit7 low_byte continuation_byte low7_of_u64 IH
          add.assoc Let_def)
  qed
qed

lemma length_varint_encode: "unat n < 2 ^ (7 * m + 7) \<Longrightarrow> length (varint_encode n) \<le> m + 1"
proof (induction m arbitrary: n)
  case 0
  then have "\<not> bit n 7" by (simp add: bit7_iff)
  then show ?case by (simp add: varint_encode.simps [of n] guard_bit7)
next
  case (Suc m)
  have "unat (drop_bit 7 n) < 2 ^ (7 * m + 7)"
    using Suc.prems by (simp only: unat_shift7) (simp add: less_mult_imp_div_less power_add)
  with Suc.IH [of "drop_bit 7 n"] show ?case
    by (simp add: varint_encode.simps [of n])
qed

lemma unat_ucast_u32: "unat (ucast (v :: u32) :: u64) = unat v"
  by (simp add: unsigned_ucast_eq take_bit_nat_eq_self order_less_le_trans [OF unsigned_less])

lemma to_varint_Inr: "to_varint v = Inr (varint_encode (ucast v))"
  using length_varint_encode [of "ucast v" 4] unat_lt_u32 [of v]
  by (simp add: to_varint_def unat_ucast_u32)

lemma from_to_varint:
  "from_varint (varint_encode (ucast (v :: u32)) @ rest) =
     Inr (of_nat (varint_value (unat v)), length (varint_encode (ucast v)))"
proof -
  have "unat (ucast v :: u64) * 2 ^ 0 < 2 ^ 64"
    using unat_lt_u32 [of v] by (simp only: unat_ucast_u32) simp
  note dec = decode_loop_encode [OF _ this, of rest 0 0]
  have "varint_value (unat v) < 2 ^ 64"
    using varint_value_le [of "unat v"] unat_lt_u32 [of v] by simp
  then have "(ucast (of_nat (varint_value (unat v)) :: u64) :: u32) = of_nat (varint_value (unat v))"
    by (simp add: unsigned_of_nat take_bit_nat_eq_self)
  with dec show ?thesis
    by (simp add: from_varint_def varint_decode_def unat_ucast_u32)
qed

text \<open>The values that survive: in every group, the next group's lowest bit announces it.\<close>

lemma varint_value_eq_iff:
  "varint_value n = n \<longleftrightarrow> n < 128 \<or> (odd (n div 128) \<and> varint_value (n div 128) = n div 128)"
proof (cases "odd (n div 128)")
  case True
  then have "\<not> n < 128" by auto
  moreover have "varint_value n = n mod 128 + 128 * varint_value (n div 128)"
    by (simp add: varint_value.simps [of n] True)
  moreover have "n = n mod 128 + 128 * (n div 128)" by simp
  ultimately show ?thesis using True by (metis add_left_cancel mult_cancel1 zero_neq_numeral)
next
  case False
  then show ?thesis
    by (simp add: varint_value.simps [of n]) (metis mod_less mod_less_divisor zero_less_numeral)
qed

end
