(* ===== verification/Coder.thy ===== *)
theory Coder
  imports MsgWrapper Varint
begin

text \<open>
  The two classes \<open>coder\<close>, of \<open>detail/coder.hpp\<close> and \<open>detail/coder_varint.hpp\<close>; the macro
  \<open>RPC_CORE_FEATURE_CODER_VARINT\<close> chooses one for the whole build. A result \<open>None\<close> of
  \<open>deserialize\<close> is the code's \<open>ok = false\<close>. The locale \<open>message_coder\<close> says what the dispatcher
  relies on; both coders are instances, for different sets of messages.
\<close>

record coder =
  co_serialize :: "msg_wrapper \<Rightarrow> bytes res"
  co_deserialize :: "bytes \<Rightarrow> msg_wrapper option res"

section \<open>coder.hpp\<close>

definition PayloadMinLen :: nat where
  "PayloadMinLen = 4 + 2 + 1"

text \<open>The command's length is cut to 16 bits, and that many bytes of it are sent.\<close>

definition coder_serialize :: "msg_wrapper \<Rightarrow> bytes res" where
  "coder_serialize msg =
     (let payload = le_bytes 4 (unat (m_seq msg));
          cmd_len = (of_nat (length (m_cmd msg)) :: u16);
          payload = payload @ le_bytes 2 (unat cmd_len);
          payload = payload @ take (unat cmd_len) (m_cmd msg);
          payload = payload @ [m_type msg]
      in Inr (case m_request_payload msg of
          Some p \<Rightarrow> payload @ p
        | None \<Rightarrow> payload @ m_data msg))"

definition coder_deserialize :: "bytes \<Rightarrow> msg_wrapper option res" where
  "coder_deserialize payload =
     (if length payload < PayloadMinLen then Inr None
      else
        let seq = of_nat (le_nat (take 4 payload));
            p = drop 4 payload;
            cmd_len = le_nat (take 2 p);
            p = drop 2 p
        in if cmd_len + 1 > length p then Inr None
           else
             let cmd = take cmd_len p;
                 p = drop cmd_len p;
                 ty = hd p;
                 p = drop 1 p
             in Inr (Some (empty_msg\<lparr>m_seq := seq, m_cmd := cmd, m_type := ty, m_data := p\<rparr>)))"

definition coder_default :: coder where
  "coder_default = \<lparr>co_serialize = coder_serialize, co_deserialize = coder_deserialize\<rparr>"

section \<open>coder_varint.hpp\<close>

definition varint_coder_serialize :: "msg_wrapper \<Rightarrow> bytes res" where
  "varint_coder_serialize msg =
     bindr (to_varint (m_seq msg)) (\<lambda>v_seq.
     bindr (to_varint (of_nat (length (m_cmd msg)))) (\<lambda>v_cmd_len.
       let payload = v_seq;
           payload = payload @ v_cmd_len;
           payload = payload @ m_cmd msg;
           payload = payload @ [m_type msg]
       in Inr (case m_request_payload msg of
           Some p \<Rightarrow> payload @ p
         | None \<Rightarrow> payload @ m_data msg)))"

text \<open>
  The two varints are read before any check of the length; the memory behind the payload is the
  string's terminating zero. The check then compares the end of the command and type with the end of
  the payload, whose position relative to \<open>p\<close> may be negative.
\<close>

definition varint_coder_deserialize :: "bytes \<Rightarrow> msg_wrapper option res" where
  "varint_coder_deserialize payload =
     (let p = payload @ [0] in
      bindr (from_varint p) (\<lambda>(seq, n).
      bindr (advance n p) (\<lambda>p.
      bindr (from_varint p) (\<lambda>(len, n').
        let cmd_len = unat (ucast len :: u16) in
        if n + n' + cmd_len + 1 > length payload then Inr None
        else bindr (advance n' p) (\<lambda>p.
          let p = take (length payload - (n + n')) p;
              cmd = take cmd_len p;
              p = drop cmd_len p;
              ty = hd p;
              p = drop 1 p
          in Inr (Some (empty_msg\<lparr>m_seq := seq, m_cmd := cmd, m_type := ty, m_data := p\<rparr>)))))))"

definition coder_varint :: coder where
  "coder_varint =
     \<lparr>co_serialize = varint_coder_serialize, co_deserialize = varint_coder_deserialize\<rparr>"

section \<open>What the dispatcher relies on\<close>

definition m_body :: "msg_wrapper \<Rightarrow> bytes" where
  "m_body m = (case m_request_payload m of Some p \<Rightarrow> p | None \<Rightarrow> m_data m)"

lemma m_body_simps [simp]:
  "m_body (m\<lparr>m_cmd := c\<rparr>) = m_body m" "m_body (m\<lparr>m_seq := s\<rparr>) = m_body m"
  "m_body (m\<lparr>m_type := t\<rparr>) = m_body m" "m_body (m\<lparr>m_request_payload := Some p\<rparr>) = p"
  "m_request_payload m = None \<Longrightarrow> m_body m = m_data m"
  by (simp_all add: m_body_def cong: option.case_cong)

text \<open>What arrives of a message: sequence number, command, type, and payload or data.\<close>

definition received :: "msg_wrapper \<Rightarrow> msg_wrapper" where
  "received m =
     empty_msg\<lparr>m_seq := m_seq m, m_cmd := m_cmd m, m_type := m_type m,
       m_data := m_body m\<rparr>"

locale message_coder =
  fixes co :: coder and wire :: "msg_wrapper \<Rightarrow> bool"
  assumes deserialize_serialize:
    "wire m \<Longrightarrow> \<exists>b. co_serialize co m = Inr b \<and> co_deserialize co b = Inr (Some (received m))"
begin

lemma serialize_total: "wire m \<Longrightarrow> \<exists>b. co_serialize co m = Inr b"
  using deserialize_serialize by blast

lemma deserialize_of_serialize:
  "wire m \<Longrightarrow> co_serialize co m = Inr b \<Longrightarrow> co_deserialize co b = Inr (Some (received m))"
  using deserialize_serialize [of m] by auto

end

section \<open>Laws of the two coders\<close>

lemma unat_cmd_len: "unat (of_nat n :: u16) = n mod 65536"
  by (simp add: unat_of_nat)

text \<open>Without any condition: the default coder cuts the command to its length modulo 65536.\<close>

lemma coder_deserialize_serialize:
  assumes "coder_serialize m = Inr b"
  shows "coder_deserialize b =
           Inr (Some (received (m\<lparr>m_cmd := take (length (m_cmd m) mod 65536) (m_cmd m)\<rparr>)))"
proof -
  let ?n = "unat (of_nat (length (m_cmd m)) :: u16)"
  have n: "?n \<le> length (m_cmd m)" by (simp add: unat_cmd_len)
  from assms have b: "b = le_bytes 4 (unat (m_seq m)) @ le_bytes 2 ?n @ take ?n (m_cmd m) @ [m_type m] @ m_body m"
    by (cases "m_request_payload m") (auto simp: coder_serialize_def m_body_def Let_def)
  show ?thesis
    using n unfolding b coder_deserialize_def PayloadMinLen_def
    by (simp add: Let_def received_def min_absorb2 unat_cmd_len [symmetric])
qed

lemma coder_serialize_total: "\<exists>b. coder_serialize m = Inr b"
  by (simp add: coder_serialize_def Let_def)

definition coder_wire :: "msg_wrapper \<Rightarrow> bool" where
  "coder_wire m = (length (m_cmd m) < 65536)"

interpretation default_coder: message_coder coder_default coder_wire
proof
  fix m
  assume w: "coder_wire m"
  obtain b where b: "coder_serialize m = Inr b" using coder_serialize_total by blast
  with coder_deserialize_serialize [OF b] w
  show "\<exists>b. co_serialize coder_default m = Inr b \<and> co_deserialize coder_default b = Inr (Some (received m))"
    by (simp add: coder_default_def coder_wire_def received_def)
qed

text \<open>The varint coder carries the messages whose two numbers survive the varint functions.\<close>

definition varint_coder_wire :: "msg_wrapper \<Rightarrow> bool" where
  "varint_coder_wire m =
     (length (m_cmd m) < 65536 \<and>
      varint_value (unat (m_seq m)) = unat (m_seq m) \<and>
      varint_value (length (m_cmd m)) = length (m_cmd m))"


lemma varint_coder_deserialize_serialize:
  assumes w: "varint_coder_wire m" and s: "varint_coder_serialize m = Inr b"
  shows "varint_coder_deserialize b = Inr (Some (received m))"
proof -
  let ?cl = "of_nat (length (m_cmd m)) :: u32"
  let ?e1 = "varint_encode (ucast (m_seq m))" and ?e2 = "varint_encode (ucast ?cl)"
  have ucl: "unat ?cl = length (m_cmd m)"
    using w by (simp add: varint_coder_wire_def unat_of_nat)
  from s have b: "b = ?e1 @ ?e2 @ m_cmd m @ [m_type m] @ m_body m"
    by (cases "m_request_payload m")
      (auto simp: varint_coder_serialize_def to_varint_Inr m_body_def Let_def)
  have d1: "from_varint (?e1 @ r) = Inr (m_seq m, length ?e1)" for r
    using from_to_varint [of "m_seq m" r] w by (simp add: varint_coder_wire_def)
  have d2: "from_varint (?e2 @ r) = Inr (?cl, length ?e2)" for r
    using from_to_varint [of ?cl r] w by (simp add: varint_coder_wire_def ucl)
  have c16: "unat (ucast ?cl :: u16) = length (m_cmd m)"
    using w ucl by (simp add: varint_coder_wire_def unsigned_ucast_eq take_bit_nat_eq_self)
  show ?thesis
    by (simp add: varint_coder_deserialize_def b d1 d2 c16 advance_def received_def Let_def)
qed

interpretation varint_coder: message_coder coder_varint varint_coder_wire
proof
  fix m
  assume w: "varint_coder_wire m"
  have "\<exists>b. varint_coder_serialize m = Inr b"
    by (simp add: varint_coder_serialize_def to_varint_Inr Let_def)
  with varint_coder_deserialize_serialize [OF w]
  show "\<exists>b. co_serialize coder_varint m = Inr b \<and> co_deserialize coder_varint b = Inr (Some (received m))"
    by (auto simp: coder_varint_def)
qed

text \<open>Serializing never fails.\<close>

definition total_coder :: "coder \<Rightarrow> bool" where
  "total_coder co \<longleftrightarrow> (\<forall>m. \<exists>b. co_serialize co m = Inr b)"

lemma total_coder_default: "total_coder coder_default"
  using coder_serialize_total by (simp add: total_coder_def coder_default_def)

lemma total_coder_varint: "total_coder coder_varint"
  by (simp add: total_coder_def coder_varint_def varint_coder_serialize_def to_varint_Inr Let_def)

end
