(* ===== verification/World.thy ===== *)
theory World
  imports Result Coder
begin

text \<open>
  The objects of a running program that uses the library: connections, rpc objects with their
  dispatchers, requests, the objects behind asynchronous responses, and the closures that the
  library stores in \<open>std::function\<close>s. A closure is a value of a type with one constructor per
  lambda expression of the code, holding what the lambda captures; a captured raw pointer or weak
  pointer is the number of the object. Objects live in maps from numbers; an object that has been
  destroyed is not in its map any more, and using it is the fault \<open>UseAfterFree\<close>.

  User callbacks are functions on a state \<open>'u\<close> of the user; \<open>events\<close> is a ghost list that records
  the calls the user makes and the ends the library reports, in order.
\<close>

section \<open>connection.hpp: connection, default_connection\<close>

text \<open>
  \<open>send_package_impl\<close> is empty, or the function of \<open>default_connection\<close> that only logs, or one
  that the user has set, which transmits its argument: \<open>outbox\<close> is what was transmitted. And
  \<open>on_recv_package\<close> is empty, or only logs, or is the lambda of a dispatcher's \<open>init\<close>.
\<close>

datatype send_impl = NoSend | DefaultSend | UserSend

datatype recv_impl = NoRecv | DefaultRecv | DispatcherRecv nat

record connection =
  send_package_impl :: send_impl
  on_recv_package :: recv_impl
  outbox :: "bytes list"

definition plain_connection :: connection where
  "plain_connection = \<lparr>send_package_impl = NoSend, on_recv_package = NoRecv, outbox = []\<rparr>"

definition default_connection :: connection where
  "default_connection =
     plain_connection\<lparr>send_package_impl := DefaultSend, on_recv_package := DefaultRecv\<rparr>"

section \<open>request.hpp: the closures and the object\<close>

text \<open>
  The three lambdas of \<open>rsp\<close>, by the number of the callback's parameters. The callback with its
  type \<open>T\<close> is represented by what unpacking the data as a \<open>T\<close> and calling it amounts to: the flag
  of \<open>unpack_as\<close> and the call on the value. The two-parameter form also holds the call on \<open>T{}\<close>.
\<close>

datatype 'u rsp_cb =
    Rsp2 "bytes \<Rightarrow> (bool \<times> (finally_t \<Rightarrow> 'u \<Rightarrow> 'u)) res" "finally_t \<Rightarrow> 'u \<Rightarrow> 'u"
  | Rsp1 "bytes \<Rightarrow> (bool \<times> ('u \<Rightarrow> 'u)) res"
  | Rsp0 "'u \<Rightarrow> 'u"

record 'u rsp_handle =
  rh_this :: nat
  rh_cb :: "'u rsp_cb"

record 'u timeout_closure =
  tc_this :: nat
  tc_cb :: "('u \<Rightarrow> 'u) option"

text \<open>
  A request's fields; \<open>refs\<close> counts the shared pointers to it outside the object, and
  \<open>self_keeper\<close> says whether the object's own one is set.
\<close>

record 'u request =
  req_rpc :: "nat option"
  self_keeper :: bool
  req_seq :: seq_type
  req_cmd :: cmd_type
  payload :: bytes
  need_rsp_flag :: bool
  canceled_flag :: bool
  rsp_handle :: "'u rsp_handle option"
  timeout_ms :: u32
  timeout_cb :: "'u timeout_closure option"
  finally_type :: finally_t
  finally_fn :: "(finally_t \<Rightarrow> 'u \<Rightarrow> 'u) option"
  retry_count :: int
  waiting_rsp :: bool
  is_ping :: bool
  refs :: nat

section \<open>msg_dispatcher.hpp and rpc.hpp\<close>

text \<open>
  A timer that the dispatcher has armed: the lambda given to the user's \<open>timer_impl\<close>, which holds
  the dispatcher weakly. Only whether \<open>timer_impl_\<close> is set matters of it.
\<close>

record 'u timer =
  t_dispatcher :: nat
  t_ms :: u32
  t_seq :: seq_type
  t_cb :: "'u timeout_closure option"

text \<open>
  A handler for an asynchronous command, given the object \<open>rr\<close>, may call \<open>rr->rsp\<close> before it
  returns (its argument serialized is the first component) and may keep the pointer (the second).
\<close>

record 'u handler_result =
  h_rsp :: "bytes res option"
  h_keeps :: bool
  h_user :: 'u

text \<open>
  The lambdas given to \<open>subscribe_cmd\<close>: those of \<open>subscribe_helper\<close> use only the message and the
  user's handler. The one for \<open>request_response\<close> is represented by whether there is a scheduler,
  and by unpacking the request and calling the handler.
\<close>

datatype 'u cmd_handle =
    SyncHandle "msg_wrapper \<Rightarrow> 'u \<Rightarrow> ((bool \<times> msg_wrapper) \<times> 'u) res"
  | AsyncHandle bool "bytes \<Rightarrow> (bool \<times> ('u \<Rightarrow> 'u handler_result)) res"

record 'u msg_dispatcher =
  dispatcher_conn :: nat
  cmd_handle_map :: "cmd_type \<rightharpoonup> 'u cmd_handle"
  rsp_handle_map :: "seq_type \<rightharpoonup> 'u rsp_handle option"
  timer_impl :: bool

record 'u rpc =
  rpc_conn :: nat
  dispatcher :: "'u msg_dispatcher"
  rpc_seq :: seq_type
  rpc_is_ready :: bool

text \<open>
  \<open>request_response_impl\<close> with the \<open>async_helper\<close> of its command: one of each is created per
  command. \<open>is_ready_set\<close> and \<open>get_data_set\<close> say whether the helper's functions are set; the first
  one holds the object, and \<open>rsp\<close>, set when the request was unpacked, holds the helper. The function
  \<open>send_async_response\<close> captures a connection, weakly, and the message.
\<close>

record request_response =
  rsp_ready :: bool
  rsp_data :: bytes
  rsp_set :: bool
  is_ready_set :: bool
  get_data_set :: bool
  send_async_response :: "(nat \<times> msg_wrapper) option"
  rr_refs :: nat

datatype event = Call nat | Finish nat finally_t | TimeoutCb nat

record 'u world =
  conns :: "nat \<rightharpoonup> connection"
  rpcs :: "nat \<rightharpoonup> 'u rpc"
  reqs :: "nat \<rightharpoonup> 'u request"
  next_req :: nat
  rrs :: "nat \<rightharpoonup> request_response"
  next_rr :: nat
  timers :: "'u timer list"
  jobs :: "(nat \<times> ('u \<Rightarrow> 'u handler_result)) list"
  user :: 'u
  events :: "event list"

section \<open>Access to the objects\<close>

definition with_conn :: "nat \<Rightarrow> 'u world \<Rightarrow> (connection \<Rightarrow> 'a res) \<Rightarrow> 'a res" where
  "with_conn c w f = (case conns w c of None \<Rightarrow> Inl UseAfterFree | Some x \<Rightarrow> f x)"

definition with_rpc :: "nat \<Rightarrow> 'u world \<Rightarrow> ('u rpc \<Rightarrow> 'a res) \<Rightarrow> 'a res" where
  "with_rpc r w f = (case rpcs w r of None \<Rightarrow> Inl UseAfterFree | Some x \<Rightarrow> f x)"

definition with_req :: "nat \<Rightarrow> 'u world \<Rightarrow> ('u request \<Rightarrow> 'a res) \<Rightarrow> 'a res" where
  "with_req i w f = (case reqs w i of None \<Rightarrow> Inl UseAfterFree | Some x \<Rightarrow> f x)"

definition put_conn :: "nat \<Rightarrow> connection \<Rightarrow> 'u world \<Rightarrow> 'u world" where
  "put_conn c x w = w\<lparr>conns := (conns w)(c \<mapsto> x)\<rparr>"

definition put_rpc :: "nat \<Rightarrow> 'u rpc \<Rightarrow> 'u world \<Rightarrow> 'u world" where
  "put_rpc r x w = w\<lparr>rpcs := (rpcs w)(r \<mapsto> x)\<rparr>"

definition put_req :: "nat \<Rightarrow> 'u request \<Rightarrow> 'u world \<Rightarrow> 'u world" where
  "put_req i x w = w\<lparr>reqs := (reqs w)(i \<mapsto> x)\<rparr>"

definition put_rr :: "nat \<Rightarrow> request_response \<Rightarrow> 'u world \<Rightarrow> 'u world" where
  "put_rr k x w = w\<lparr>rrs := (rrs w)(k \<mapsto> x)\<rparr>"

definition run_user :: "('u \<Rightarrow> 'u) \<Rightarrow> 'u world \<Rightarrow> 'u world" where
  "run_user f w = w\<lparr>user := f (user w)\<rparr>"

definition log_event :: "event \<Rightarrow> 'u world \<Rightarrow> 'u world" where
  "log_event e w = w\<lparr>events := events w @ [e]\<rparr>"

lemmas put_defs = put_conn_def put_rpc_def put_req_def put_rr_def run_user_def log_event_def

lemma with_Inr [simp]:
  "conns w c = Some x \<Longrightarrow> with_conn c w f = f x"
  "rpcs w r = Some y \<Longrightarrow> with_rpc r w g = g y"
  "reqs w i = Some z \<Longrightarrow> with_req i w h = h z"
  by (simp_all add: with_conn_def with_rpc_def with_req_def)

lemma with_Inr_iff [res_simps]:
  "with_conn c w f = Inr a \<longleftrightarrow> (\<exists>x. conns w c = Some x \<and> f x = Inr a)"
  "with_rpc r w g = Inr b \<longleftrightarrow> (\<exists>y. rpcs w r = Some y \<and> g y = Inr b)"
  "with_req i w h = Inr d \<longleftrightarrow> (\<exists>z. reqs w i = Some z \<and> h z = Inr d)"
  by (auto simp: with_conn_def with_rpc_def with_req_def split: option.splits)

text \<open>The world a program starts in.\<close>

definition empty_world :: "'u \<Rightarrow> 'u world" where
  "empty_world u =
     \<lparr>conns = Map.empty, rpcs = Map.empty, reqs = Map.empty, next_req = 0, rrs = Map.empty,
      next_rr = 0, timers = [], jobs = [], user = u, events = []\<rparr>"

end
