(* ===== verification/Dispatcher.thy ===== *)
theory Dispatcher
  imports World
begin

text \<open>
  The operations of \<open>detail/msg_dispatcher.hpp\<close> on the two tables of a dispatcher, and sending
  through its connection. The first table is a \<open>handler_table\<close>: what was subscribed last under a
  name is what is found, and the names are independent.
\<close>

section \<open>The tables\<close>

definition subscribe_cmd :: "cmd_type \<Rightarrow> 'u cmd_handle \<Rightarrow> 'u msg_dispatcher \<Rightarrow> 'u msg_dispatcher" where
  "subscribe_cmd cmd handle d = d\<lparr>cmd_handle_map := (cmd_handle_map d)(cmd \<mapsto> handle)\<rparr>"

definition unsubscribe_cmd :: "cmd_type \<Rightarrow> 'u msg_dispatcher \<Rightarrow> 'u msg_dispatcher" where
  "unsubscribe_cmd cmd d =
     (case cmd_handle_map d cmd of
        Some _ \<Rightarrow> d\<lparr>cmd_handle_map := (cmd_handle_map d)(cmd := None)\<rparr>
      | None \<Rightarrow> d)"

definition set_timer_impl :: "bool \<Rightarrow> 'u msg_dispatcher \<Rightarrow> 'u msg_dispatcher" where
  "set_timer_impl t d = d\<lparr>timer_impl := t\<rparr>"

definition erase_rsp :: "seq_type \<Rightarrow> 'u msg_dispatcher \<Rightarrow> 'u msg_dispatcher" where
  "erase_rsp seq d = d\<lparr>rsp_handle_map := (rsp_handle_map d)(seq := None)\<rparr>"

text \<open>The dispatcher \<open>self\<close> after registering a response handler, and the timers this arms.\<close>

definition subscribe_rsp ::
  "nat \<Rightarrow> seq_type \<Rightarrow> 'u rsp_handle option \<Rightarrow> 'u timeout_closure option \<Rightarrow> u32 \<Rightarrow>
   'u msg_dispatcher \<Rightarrow> 'u msg_dispatcher \<times> 'u timer list" where
  "subscribe_rsp self seq handle cb ms d =
     (if handle = None then (d, [])
      else if \<not> timer_impl d then (d, [])
      else
        (d\<lparr>rsp_handle_map := (rsp_handle_map d)(seq \<mapsto> handle)\<rparr>,
         [\<lparr>t_dispatcher = self, t_ms = ms, t_seq = seq, t_cb = cb\<rparr>]))"

section \<open>The interface of the command table\<close>

locale handler_table =
  fixes lookup :: "'t \<Rightarrow> 'k \<Rightarrow> 'h option"
    and insert :: "'k \<Rightarrow> 'h \<Rightarrow> 't \<Rightarrow> 't"
    and remove :: "'k \<Rightarrow> 't \<Rightarrow> 't"
  assumes lookup_insert: "lookup (insert k h t) = (lookup t)(k \<mapsto> h)"
    and lookup_remove: "lookup (remove k t) = (lookup t)(k := None)"
begin

lemma lookup_insert_same [simp]: "lookup (insert k h t) k = Some h"
  by (simp add: lookup_insert)

lemma lookup_remove_same [simp]: "lookup (remove k t) k = None"
  by (simp add: lookup_remove)

lemma lookup_other [simp]:
  "k \<noteq> k' \<Longrightarrow> lookup (insert k h t) k' = lookup t k'"
  "k \<noteq> k' \<Longrightarrow> lookup (remove k t) k' = lookup t k'"
  by (simp_all add: lookup_insert lookup_remove)

lemma lookup_insert_insert: "lookup (insert k h (insert k h' t)) = lookup (insert k h t)"
  by (simp add: lookup_insert)

lemma lookup_remove_insert: "lookup (remove k (insert k h t)) = lookup (remove k t)"
  by (simp add: lookup_insert lookup_remove)

lemma lookup_fold_insert:
  "lookup (fold (\<lambda>(k, h). insert k h) kvs t) k =
     (case map_of (rev kvs) k of Some h \<Rightarrow> Some h | None \<Rightarrow> lookup t k)"
  by (induction kvs arbitrary: t)
    (auto simp: lookup_insert map_add_def split: option.splits)

end

interpretation cmd_table: handler_table cmd_handle_map subscribe_cmd unsubscribe_cmd
  by unfold_locales (auto simp: subscribe_cmd_def unsubscribe_cmd_def split: option.splits)

section \<open>Sending\<close>

definition send_package :: "nat \<Rightarrow> bytes \<Rightarrow> 'u world \<Rightarrow> 'u world res" where
  "send_package c package w =
     with_conn c w (\<lambda>x.
       case send_package_impl x of
         NoSend \<Rightarrow> Inl NullCall
       | DefaultSend \<Rightarrow> Inr w
       | UserSend \<Rightarrow> Inr (put_conn c (x\<lparr>outbox := outbox x @ [package]\<rparr>) w))"

text \<open>The dispatcher of the rpc object \<open>r\<close>, replaced.\<close>

definition put_dispatcher :: "nat \<Rightarrow> 'u rpc \<Rightarrow> 'u msg_dispatcher \<Rightarrow> 'u world \<Rightarrow> 'u world" where
  "put_dispatcher r x d w = put_rpc r (x\<lparr>dispatcher := d\<rparr>) w"

lemma send_package_frame:
  assumes "send_package c p w = Inr w'"
  shows "rpcs w' = rpcs w" "reqs w' = reqs w" "next_req w' = next_req w" "rrs w' = rrs w"
    "next_rr w' = next_rr w" "timers w' = timers w" "jobs w' = jobs w" "user w' = user w"
    "events w' = events w" "c' \<noteq> c \<Longrightarrow> conns w' c' = conns w c'" "dom (conns w') = dom (conns w)"
proof -
  from assms obtain x where x: "conns w c = Some x"
      "w' = w \<or> w' = put_conn c (x\<lparr>outbox := outbox x @ [p]\<rparr>) w"
    by (auto simp: send_package_def with_conn_def split: option.splits send_impl.split_asm)
  then show "rpcs w' = rpcs w" "reqs w' = reqs w" "next_req w' = next_req w" "rrs w' = rrs w"
    "next_rr w' = next_rr w" "timers w' = timers w" "jobs w' = jobs w" "user w' = user w"
    "events w' = events w" "c' \<noteq> c \<Longrightarrow> conns w' c' = conns w c'" "dom (conns w') = dom (conns w)"
    by (auto simp: put_conn_def dom_def split: if_splits)
qed

lemma send_package_user:
  "conns w c = Some x \<Longrightarrow> send_package_impl x = UserSend \<Longrightarrow>
     send_package c p w = Inr (put_conn c (x\<lparr>outbox := outbox x @ [p]\<rparr>) w)"
  by (simp add: send_package_def)

lemma subscribe_rsp_simps [simp]:
  "cmd_handle_map (fst (subscribe_rsp r s h cb ms d)) = cmd_handle_map d"
  "dispatcher_conn (fst (subscribe_rsp r s h cb ms d)) = dispatcher_conn d"
  "timer_impl (fst (subscribe_rsp r s h cb ms d)) = timer_impl d"
  by (simp_all add: subscribe_rsp_def)

lemma erase_rsp_simps [simp]:
  "rsp_handle_map (erase_rsp s d) = (rsp_handle_map d)(s := None)"
  "cmd_handle_map (erase_rsp s d) = cmd_handle_map d"
  "dispatcher_conn (erase_rsp s d) = dispatcher_conn d"
  "timer_impl (erase_rsp s d) = timer_impl d"
  by (simp_all add: erase_rsp_def)

end
