(* ===== verification/Request.thy ===== *)
theory Request
  imports Dispatcher
begin

text \<open>
  The class \<open>request\<close> of \<open>request.hpp\<close> and \<open>request.ipp\<close>, with \<open>rpc::make_seq\<close> and
  \<open>rpc::send_request\<close> of \<open>rpc.hpp\<close> and \<open>rpc.ipp\<close>, which \<open>request::call\<close> calls. The setters are
  functions on the object; the operations that reach other objects are functions on the world.
  The coder is a parameter.
\<close>

section \<open>Creating and setting up\<close>

text \<open>The constructor and the fields' initial values.\<close>

definition new_request :: "nat option \<Rightarrow> 'u request" where
  "new_request r =
     \<lparr>req_rpc = r, self_keeper = False, req_seq = 0, req_cmd = [], payload = [],
      need_rsp_flag = False, canceled_flag = False, rsp_handle = None, timeout_ms = 3000,
      timeout_cb = None, finally_type = no_need_rsp, finally_fn = None, retry_count = 0,
      waiting_rsp = False, is_ping = False, refs = 1\<rparr>"

text \<open>\<open>timeout\<close>: the closure captures \<open>this\<close> and the user's callback.\<close>

definition req_timeout :: "nat \<Rightarrow> ('u \<Rightarrow> 'u) option \<Rightarrow> 'u request \<Rightarrow> 'u request" where
  "req_timeout i cb q = q\<lparr>timeout_cb := Some \<lparr>tc_this = i, tc_cb = cb\<rparr>\<rparr>"

text \<open>\<open>create\<close>; the caller gets the only shared pointer.\<close>

definition create_request :: "nat option \<Rightarrow> 'u world \<Rightarrow> nat \<times> 'u world" where
  "create_request r w =
     (let i = next_req w
      in (i, put_req i (req_timeout i None (new_request r)) (w\<lparr>next_req := i + 1\<rparr>)))"

definition req_set_cmd :: "cmd_type \<Rightarrow> 'u request \<Rightarrow> 'u request" where
  "req_set_cmd c q = q\<lparr>req_cmd := c\<rparr>"

definition req_msg :: "'a codec \<Rightarrow> 'a \<Rightarrow> 'u request \<Rightarrow> 'u request res" where
  "req_msg c v q = mapr (\<lambda>d. q\<lparr>payload := d\<rparr>) (serialize c v)"

definition req_rsp :: "nat \<Rightarrow> 'u rsp_cb \<Rightarrow> 'u request \<Rightarrow> 'u request" where
  "req_rsp i cb q = q\<lparr>need_rsp_flag := True, rsp_handle := Some \<lparr>rh_this = i, rh_cb = cb\<rparr>\<rparr>"

text \<open>The callbacks of two, one and no parameters as the closures hold them.\<close>

definition rsp_cb2 :: "'a codec \<Rightarrow> ('a \<Rightarrow> finally_t \<Rightarrow> 'u \<Rightarrow> 'u) \<Rightarrow> 'u rsp_cb" where
  "rsp_cb2 c f = Rsp2 (\<lambda>d. mapr (\<lambda>(ok, v). (ok, f v)) (deserialize c d)) (f (dflt c))"

definition rsp_cb1 :: "'a codec \<Rightarrow> ('a \<Rightarrow> 'u \<Rightarrow> 'u) \<Rightarrow> 'u rsp_cb" where
  "rsp_cb1 c f = Rsp1 (\<lambda>d. mapr (\<lambda>(ok, v). (ok, f v)) (deserialize c d))"

definition rsp_cb0 :: "('u \<Rightarrow> 'u) \<Rightarrow> 'u rsp_cb" where
  "rsp_cb0 f = Rsp0 f"

definition req_mark_need_rsp :: "nat \<Rightarrow> 'u request \<Rightarrow> 'u request" where
  "req_mark_need_rsp i q = req_rsp i (rsp_cb0 (\<lambda>u. u)) q"

definition req_finally :: "(finally_t \<Rightarrow> 'u \<Rightarrow> 'u) \<Rightarrow> 'u request \<Rightarrow> 'u request" where
  "req_finally f q = q\<lparr>finally_fn := Some f\<rparr>"

definition req_finally0 :: "('u \<Rightarrow> 'u) \<Rightarrow> 'u request \<Rightarrow> 'u request" where
  "req_finally0 f q = q\<lparr>finally_fn := Some (\<lambda>t. f)\<rparr>"

definition req_ping :: "'u request \<Rightarrow> 'u request" where
  "req_ping q = q\<lparr>is_ping := True\<rparr>"

definition req_timeout_ms :: "u32 \<Rightarrow> 'u request \<Rightarrow> 'u request" where
  "req_timeout_ms ms q = q\<lparr>timeout_ms := ms\<rparr>"

definition req_retry :: "int \<Rightarrow> 'u request \<Rightarrow> 'u request" where
  "req_retry count q = q\<lparr>retry_count := count\<rparr>"

definition req_disable_rsp :: "'u request \<Rightarrow> 'u request" where
  "req_disable_rsp q = q\<lparr>need_rsp_flag := False\<rparr>"

definition req_enable_rsp :: "'u request \<Rightarrow> 'u request" where
  "req_enable_rsp q = q\<lparr>need_rsp_flag := True\<rparr>"

definition req_set_rpc :: "nat option \<Rightarrow> 'u request \<Rightarrow> 'u request" where
  "req_set_rpc r q = q\<lparr>req_rpc := r\<rparr>"

definition req_get_rpc :: "'u request \<Rightarrow> nat option" where
  "req_get_rpc q = req_rpc q"

definition req_is_canceled :: "'u request \<Rightarrow> bool" where
  "req_is_canceled q = canceled_flag q"

definition req_canceled :: "bool \<Rightarrow> 'u request \<Rightarrow> 'u request" where
  "req_canceled b q = q\<lparr>canceled_flag := b\<rparr>"

definition req_reset_cancel :: "'u request \<Rightarrow> 'u request" where
  "req_reset_cancel q = req_canceled False q"

text \<open>A setter called through a shared pointer.\<close>

definition on_req :: "nat \<Rightarrow> ('u request \<Rightarrow> 'u request) \<Rightarrow> 'u world \<Rightarrow> 'u world res" where
  "on_req i f w = with_req i w (\<lambda>q. Inr (put_req i (f q) w))"

section \<open>The life of the object\<close>

text \<open>Setting \<open>self_keeper_\<close> to null may destroy the object, and so may dropping a pointer.\<close>

definition release_keeper :: "nat \<Rightarrow> 'u world \<Rightarrow> 'u world res" where
  "release_keeper i w =
     with_req i w (\<lambda>q.
       if refs q = 0 then Inr (w\<lparr>reqs := (reqs w)(i := None)\<rparr>)
       else Inr (put_req i (q\<lparr>self_keeper := False\<rparr>) w))"

definition drop_ref :: "nat \<Rightarrow> 'u world \<Rightarrow> 'u world res" where
  "drop_ref i w =
     with_req i w (\<lambda>q.
       if refs q \<le> 1 \<and> \<not> self_keeper q then Inr (w\<lparr>reqs := (reqs w)(i := None)\<rparr>)
       else Inr (put_req i (q\<lparr>refs := refs q - 1\<rparr>) w))"

definition on_finish :: "nat \<Rightarrow> finally_t \<Rightarrow> 'u world \<Rightarrow> 'u world res" where
  "on_finish i ty w =
     with_req i w (\<lambda>q.
       if \<not> waiting_rsp q then Inr w
       else
         let w = put_req i (q\<lparr>waiting_rsp := False, finally_type := ty\<rparr>) w;
             w = log_event (Finish i ty) w;
             w = (case finally_fn q of None \<Rightarrow> w | Some f \<Rightarrow> run_user (f ty) w)
         in release_keeper i w)"

section \<open>rpc::make_seq, rpc::send_request, request::call\<close>

definition make_seq :: "nat \<Rightarrow> 'u world \<Rightarrow> (seq_type \<times> 'u world) res" where
  "make_seq r w =
     with_rpc r w (\<lambda>x. Inr (rpc_seq x, put_rpc r (x\<lparr>rpc_seq := rpc_seq x + 1\<rparr>) w))"

definition request_msg :: "'u request \<Rightarrow> msg_wrapper" where
  "request_msg q =
     empty_msg\<lparr>m_type := request_type (is_ping q) (need_rsp_flag q), m_cmd := req_cmd q,
       m_seq := req_seq q, m_request_payload := Some (payload q)\<rparr>"

definition send_request :: "coder \<Rightarrow> nat \<Rightarrow> nat \<Rightarrow> 'u world \<Rightarrow> 'u world res" where
  "send_request co r i w =
     with_rpc r w (\<lambda>x.
     with_req i w (\<lambda>q.
       let (d, ts) =
             (if need_rsp_flag q
              then subscribe_rsp r (req_seq q) (rsp_handle q) (timeout_cb q) (timeout_ms q) (dispatcher x)
              else (dispatcher x, []));
           w = put_dispatcher r x d w;
           w = w\<lparr>timers := timers w @ ts\<rparr>
       in bindr (co_serialize co (request_msg q)) (\<lambda>p.
          send_package (rpc_conn x) p w)))"

text \<open>\<open>rpc_.lock()\<close>: nothing if the object is gone.\<close>

definition rpc_lock :: "'u request \<Rightarrow> 'u world \<Rightarrow> nat option" where
  "rpc_lock q w =
     (case req_rpc q of
        None \<Rightarrow> None
      | Some r \<Rightarrow> if rpcs w r = None then None else Some r)"

text \<open>The end of \<open>call\<close>, with a live and ready rpc object.\<close>

definition call_through :: "coder \<Rightarrow> nat \<Rightarrow> nat \<Rightarrow> 'u world \<Rightarrow> 'u world res" where
  "call_through co i r w =
     bindr (make_seq r w) (\<lambda>(s, w).
     bindr (on_req i (\<lambda>q. q\<lparr>req_seq := s\<rparr>) w) (\<lambda>w.
     bindr (send_request co r i w) (\<lambda>w.
     with_req i w (\<lambda>q.
       if \<not> need_rsp_flag q then on_finish i no_need_rsp w else Inr w))))"

definition request_call :: "coder \<Rightarrow> nat \<Rightarrow> nat option \<Rightarrow> 'u world \<Rightarrow> 'u world res" where
  "request_call co i rpc w =
     bindr (on_req i (\<lambda>q. q\<lparr>waiting_rsp := True\<rparr>) w) (\<lambda>w.
     with_req i w (\<lambda>q.
       if canceled_flag q then on_finish i canceled w
       else
         let q = q\<lparr>self_keeper := True\<rparr>;
             q = (case rpc of Some r \<Rightarrow> q\<lparr>req_rpc := Some r\<rparr> | None \<Rightarrow> q);
             w = put_req i q w
         in case rpc_lock q w of
              None \<Rightarrow> on_finish i rpc_expired w
            | Some r \<Rightarrow>
                with_rpc r w (\<lambda>x.
                  if \<not> rpc_is_ready x then on_finish i rpc_not_ready w
                  else call_through co i r w)))"

text \<open>A call made by the user is an event.\<close>

definition user_call :: "coder \<Rightarrow> nat \<Rightarrow> nat option \<Rightarrow> 'u world \<Rightarrow> 'u world res" where
  "user_call co i rpc w = request_call co i rpc (log_event (event.Call i) w)"

definition request_cancel :: "nat \<Rightarrow> 'u world \<Rightarrow> 'u world res" where
  "request_cancel i w = bindr (on_req i (req_canceled True) w) (on_finish i canceled)"

section \<open>The closures run\<close>

text \<open>The lambdas of \<open>rsp\<close>; the result is the lambda's.\<close>

definition run_rsp_handle :: "'u rsp_handle \<Rightarrow> msg_wrapper \<Rightarrow> 'u world \<Rightarrow> (bool \<times> 'u world) res" where
  "run_rsp_handle h msg w =
     (let i = rh_this h in
      with_req i w (\<lambda>q.
        if canceled_flag q then mapr (Pair True) (on_finish i canceled w)
        else if has_flag (m_type msg) no_such_cmd
        then mapr (Pair True) (on_finish i finally_no_such_cmd w)
        else
          case rh_cb h of
            Rsp2 unpack dflt_call \<Rightarrow>
              bindr (unpack (m_data msg)) (\<lambda>(ok, cb).
                if ok then mapr (Pair True) (on_finish i normal (run_user (cb normal) w))
                else mapr (Pair False)
                       (on_finish i rsp_serialize_error (run_user (dflt_call rsp_serialize_error) w)))
          | Rsp1 unpack \<Rightarrow>
              bindr (unpack (m_data msg)) (\<lambda>(ok, cb).
                if ok then mapr (Pair True) (on_finish i normal (run_user cb w))
                else mapr (Pair False) (on_finish i rsp_serialize_error w))
          | Rsp0 cb \<Rightarrow> mapr (Pair True) (on_finish i normal (run_user cb w))))"

text \<open>The lambda of \<open>timeout\<close>. The user's callback runs before \<open>this\<close> is used.\<close>

definition run_timeout_closure :: "coder \<Rightarrow> 'u timeout_closure \<Rightarrow> 'u world \<Rightarrow> 'u world res" where
  "run_timeout_closure co t w =
     (let i = tc_this t;
          w = (case tc_cb t of None \<Rightarrow> w | Some f \<Rightarrow> log_event (TimeoutCb i) (run_user f w))
      in with_req i w (\<lambda>q.
           if retry_count q = -1 then request_call co i None w
           else if retry_count q > 0
           then bindr (on_req i (\<lambda>q. q\<lparr>retry_count := retry_count q - 1\<rparr>) w) (request_call co i None)
           else on_finish i timeout w))"

section \<open>The end of a call as one equation\<close>

definition finished :: "nat \<Rightarrow> 'u request \<Rightarrow> finally_t \<Rightarrow> 'u world \<Rightarrow> 'u world" where
  "finished i q ty w =
     w\<lparr>reqs := (reqs w)(i := (if refs q = 0 then None
         else Some (q\<lparr>waiting_rsp := False, finally_type := ty, self_keeper := False\<rparr>))),
       user := (case finally_fn q of None \<Rightarrow> user w | Some f \<Rightarrow> f ty (user w)),
       events := events w @ [Finish i ty]\<rparr>"

lemma on_finish_finished:
  "reqs w i = Some q \<Longrightarrow> waiting_rsp q \<Longrightarrow> on_finish i ty w = Inr (finished i q ty w)"
  by (auto simp: on_finish_def release_keeper_def Let_def put_defs finished_def split: option.splits)

lemma on_finish_ignored: "reqs w i = Some q \<Longrightarrow> \<not> waiting_rsp q \<Longrightarrow> on_finish i ty w = Inr w"
  by (simp add: on_finish_def)

lemma finished_simps [simp]:
  "conns (finished i q ty w) = conns w" "rpcs (finished i q ty w) = rpcs w"
  "timers (finished i q ty w) = timers w" "events (finished i q ty w) = events w @ [Finish i ty]"
  "rrs (finished i q ty w) = rrs w" "jobs (finished i q ty w) = jobs w"
  "next_req (finished i q ty w) = next_req w" "next_rr (finished i q ty w) = next_rr w"
  "user (finished i q ty w) = (case finally_fn q of None \<Rightarrow> user w | Some f \<Rightarrow> f ty (user w))"
  "j \<noteq> i \<Longrightarrow> reqs (finished i q ty w) j = reqs w j"
  by (simp_all add: finished_def)

end
