(* ===== verification/Dispatch.thy ===== *)
theory Dispatch
  imports Request
begin

text \<open>
  \<open>msg_dispatcher::dispatch\<close>, the lambda of \<open>init\<close> that receives packages, and the timer's lambda
  of \<open>subscribe_rsp\<close>; with the lambda that \<open>rpc::subscribe\<close> registers for \<open>request_response\<close>
  handlers (\<open>rpc.hpp\<close>) and the response function it makes.
\<close>

section \<open>Asynchronous responses\<close>

text \<open>
  A \<open>request_response_impl\<close> is destroyed with its last pointer: \<open>rr_refs\<close> counts those of the
  handler and the scheduler, and \<open>async_helper->is_ready\<close> holds one.
\<close>

definition rr_release :: "nat \<Rightarrow> request_response \<Rightarrow> 'u world \<Rightarrow> 'u world" where
  "rr_release k x w =
     (if rr_refs x = 0 \<and> \<not> is_ready_set x then w\<lparr>rrs := (rrs w)(k := None)\<rparr> else put_rr k x w)"

definition rr_drop :: "nat \<Rightarrow> 'u world \<Rightarrow> 'u world res" where
  "rr_drop k w =
     (case rrs w k of
        None \<Rightarrow> Inl UseAfterFree
      | Some x \<Rightarrow> Inr (rr_release k (x\<lparr>rr_refs := rr_refs x - 1\<rparr>) w))"

text \<open>\<open>send_async_response\<close>, the lambda made by \<open>dispatch\<close>.\<close>

definition run_send_async :: "coder \<Rightarrow> nat \<times> msg_wrapper \<Rightarrow> bytes \<Rightarrow> 'u world \<Rightarrow> 'u world res" where
  "run_send_async co f data w =
     (case f of
        (c, mw) \<Rightarrow>
          let mw = mw\<lparr>m_data := data\<rparr>
          in if conns w c = None then Inr w
             else bindr (co_serialize co mw) (\<lambda>p. send_package c p w))"

text \<open>\<open>rr->rsp(v)\<close>, where \<open>d\<close> is what serializing \<open>v\<close> gives.\<close>

definition rr_rsp :: "coder \<Rightarrow> nat \<Rightarrow> bytes res \<Rightarrow> 'u world \<Rightarrow> 'u world res" where
  "rr_rsp co k d w =
     (case rrs w k of
        None \<Rightarrow> Inl UseAfterFree
      | Some x \<Rightarrow>
          if \<not> rsp_set x then Inl NullCall
          else if rsp_ready x then Inr w
          else
            bindr d (\<lambda>d.
              let x = x\<lparr>rsp_ready := True, rsp_data := d\<rparr>
              in case send_async_response x of
                   None \<Rightarrow> Inr (put_rr k x w)
                 | Some f \<Rightarrow> run_send_async co f d (put_rr k (x\<lparr>rsp_data := []\<rparr>) w)))"

text \<open>The handler runs, at once or from the scheduler.\<close>

definition run_handler ::
  "coder \<Rightarrow> nat \<Rightarrow> ('u \<Rightarrow> 'u handler_result) \<Rightarrow> 'u world \<Rightarrow> 'u world res" where
  "run_handler co k handle w =
     (let hr = handle (user w);
          w = w\<lparr>user := h_user hr\<rparr>
      in bindr (case h_rsp hr of None \<Rightarrow> Inr w | Some d \<Rightarrow> rr_rsp co k d w) (\<lambda>w.
         if h_keeps hr then Inr w else rr_drop k w))"

text \<open>
  The registered lambda. If the request does not unpack, the object is gone once the response has
  been dealt with, and nothing refers to it until then.
\<close>

definition new_rr :: request_response where
  "new_rr =
     \<lparr>rsp_ready = False, rsp_data = [], rsp_set = False, is_ready_set = True, get_data_set = True,
      send_async_response = None, rr_refs = 1\<rparr>"

definition run_async_handle ::
  "coder \<Rightarrow> bool \<Rightarrow> (bytes \<Rightarrow> (bool \<times> ('u \<Rightarrow> 'u handler_result)) res) \<Rightarrow> msg_wrapper \<Rightarrow>
   'u world \<Rightarrow> ((bool \<times> msg_wrapper) \<times> 'u world) res" where
  "run_async_handle co scheduler f msg w =
     (let k = next_rr w;
          w = w\<lparr>next_rr := k + 1\<rparr>
      in bindr (f (m_data msg)) (\<lambda>(ok, handle).
         bindr (if ok
                then
                  let w = put_rr k (new_rr\<lparr>rsp_set := True\<rparr>) w
                  in if scheduler then Inr (w\<lparr>jobs := jobs w @ [(k, handle)]\<rparr>)
                     else run_handler co k handle w
                else Inr w) (\<lambda>w.
           Inr (make_rsp_async (m_seq msg) k ok, w))))"

definition run_cmd_handle ::
  "coder \<Rightarrow> 'u cmd_handle \<Rightarrow> msg_wrapper \<Rightarrow> 'u world \<Rightarrow> ((bool \<times> msg_wrapper) \<times> 'u world) res" where
  "run_cmd_handle co fn msg w =
     (case fn of
        SyncHandle f \<Rightarrow> bindr (f msg (user w)) (\<lambda>(resp, u). Inr (resp, w\<lparr>user := u\<rparr>))
      | AsyncHandle scheduler f \<Rightarrow> run_async_handle co scheduler f msg w)"

section \<open>dispatch\<close>

definition send_msg :: "coder \<Rightarrow> nat \<Rightarrow> msg_wrapper \<Rightarrow> 'u world \<Rightarrow> 'u world res" where
  "send_msg co c msg w = bindr (co_serialize co msg) (\<lambda>p. send_package c p w)"

text \<open>The switch on the response state.\<close>

definition respond :: "coder \<Rightarrow> nat \<Rightarrow> msg_wrapper \<Rightarrow> 'u world \<Rightarrow> 'u world res" where
  "respond co c resp w =
     (case m_response_state resp of
        serialize_error \<Rightarrow> Inr w
      | response_sync \<Rightarrow> send_msg co c resp w
      | response_async \<Rightarrow>
          (case m_async_helper resp of
             None \<Rightarrow> Inl UseAfterFree
           | Some k \<Rightarrow>
               (case rrs w k of
                  None \<Rightarrow> Inl UseAfterFree
                | Some x \<Rightarrow>
                    if \<not> is_ready_set x then Inl NullCall
                    else if rsp_ready x then
                      if \<not> get_data_set x then Inl NullCall
                      else
                        let resp = resp\<lparr>m_data := rsp_data x\<rparr>;
                            x = x\<lparr>rsp_data := [], is_ready_set := False, get_data_set := False\<rparr>
                        in send_msg co c resp (rr_release k x w)
                    else Inr (put_rr k (x\<lparr>send_async_response := Some (c, resp)\<rparr>) w))))"

definition dispatch_command :: "coder \<Rightarrow> 'u msg_dispatcher \<Rightarrow> msg_wrapper \<Rightarrow> 'u world \<Rightarrow> 'u world res" where
  "dispatch_command co d msg w =
     (let c = dispatcher_conn d in
      if has_flag (m_type msg) ping
      then send_msg co c (msg\<lparr>m_type := response OR pong\<rparr>) w
      else
        case cmd_handle_map d (m_cmd msg) of
          None \<Rightarrow>
            if has_flag (m_type msg) need_rsp
            then send_msg co c (empty_msg\<lparr>m_seq := m_seq msg, m_type := response OR no_such_cmd\<rparr>) w
            else Inr w
        | Some fn \<Rightarrow>
            bindr (run_cmd_handle co fn msg w) (\<lambda>(resp, w).
              if has_flag (m_type msg) need_rsp then respond co c (snd resp) w else Inr w))"

definition dispatch_response :: "nat \<Rightarrow> 'u msg_dispatcher \<Rightarrow> msg_wrapper \<Rightarrow> 'u world \<Rightarrow> 'u world res" where
  "dispatch_response r d msg w =
     (case rsp_handle_map d (m_seq msg) of
        None \<Rightarrow> Inr w
      | Some None \<Rightarrow> Inr w
      | Some (Some cb) \<Rightarrow>
          bindr (run_rsp_handle cb msg w) (\<lambda>(ok, w).
          with_rpc r w (\<lambda>x. Inr (put_dispatcher r x (erase_rsp (m_seq msg) (dispatcher x)) w))))"

definition dispatch :: "coder \<Rightarrow> nat \<Rightarrow> msg_wrapper \<Rightarrow> 'u world \<Rightarrow> 'u world res" where
  "dispatch co r msg w =
     with_rpc r w (\<lambda>x.
       let kind = dispatch_kind (m_type msg) in
       if kind = command then dispatch_command co (dispatcher x) msg w
       else if kind = response then dispatch_response r (dispatcher x) msg w
       else Inr w)"

section \<open>Packages and timers\<close>

text \<open>A package arrives: \<open>on_recv_package\<close> of the connection is called.\<close>

definition recv_package :: "coder \<Rightarrow> nat \<Rightarrow> bytes \<Rightarrow> 'u world \<Rightarrow> 'u world res" where
  "recv_package co c package w =
     with_conn c w (\<lambda>x.
       case on_recv_package x of
         NoRecv \<Rightarrow> Inl NullCall
       | DefaultRecv \<Rightarrow> Inr w
       | DispatcherRecv r \<Rightarrow>
           if rpcs w r = None then Inr w
           else
             bindr (co_deserialize co package) (\<lambda>m.
               case m of
                 None \<Rightarrow> Inr w
               | Some msg \<Rightarrow> dispatch co r msg w))"

definition fire_timer :: "coder \<Rightarrow> 'u timer \<Rightarrow> 'u world \<Rightarrow> 'u world res" where
  "fire_timer co t w =
     (case rpcs w (t_dispatcher t) of
        None \<Rightarrow> Inr w
      | Some x \<Rightarrow>
          if rsp_handle_map (dispatcher x) (t_seq t) = None then Inr w
          else
            bindr (case t_cb t of None \<Rightarrow> Inr w | Some f \<Rightarrow> run_timeout_closure co f w) (\<lambda>w.
            with_rpc (t_dispatcher t) w (\<lambda>x.
              Inr (put_dispatcher (t_dispatcher t) x (erase_rsp (t_seq t) (dispatcher x)) w))))"

text \<open>The \<open>n\<close>-th armed timer elapses; the scheduler runs its \<open>n\<close>-th job.\<close>

definition elapse :: "coder \<Rightarrow> nat \<Rightarrow> 'u world \<Rightarrow> 'u world res" where
  "elapse co n w =
     (if n < length (timers w)
      then fire_timer co (timers w ! n) (w\<lparr>timers := take n (timers w) @ drop (Suc n) (timers w)\<rparr>)
      else Inr w)"

definition run_job :: "coder \<Rightarrow> nat \<Rightarrow> 'u world \<Rightarrow> 'u world res" where
  "run_job co n w =
     (if n < length (jobs w)
      then case jobs w ! n of
             (k, handle) \<Rightarrow>
               run_handler co k handle (w\<lparr>jobs := take n (jobs w) @ drop (Suc n) (jobs w)\<rparr>)
      else Inr w)"

end
