(* ===== verification/Rpc.thy ===== *)
theory Rpc
  imports Dispatch
begin

text \<open>
  The class \<open>rpc\<close> of \<open>rpc.hpp\<close> and \<open>rpc.ipp\<close>: construction, the settings, the four synchronous
  forms of \<open>subscribe\<close>, the asynchronous one, and the short forms of a call.
\<close>

section \<open>Construction and settings\<close>

definition new_dispatcher :: "nat \<Rightarrow> 'u msg_dispatcher" where
  "new_dispatcher c =
     \<lparr>dispatcher_conn = c, cmd_handle_map = Map.empty, rsp_handle_map = Map.empty, timer_impl = False\<rparr>"

definition new_rpc :: "nat \<Rightarrow> 'u rpc" where
  "new_rpc c = \<lparr>rpc_conn = c, dispatcher = new_dispatcher c, rpc_seq = 0, rpc_is_ready = False\<rparr>"

text \<open>A connection the user makes, with number \<open>c\<close>; an rpc object on it, with number \<open>r\<close>.\<close>

definition open_connection :: "nat \<Rightarrow> connection \<Rightarrow> 'u world \<Rightarrow> 'u world" where
  "open_connection c x w = put_conn c x w"

definition rpc_create :: "nat \<Rightarrow> nat \<Rightarrow> 'u world \<Rightarrow> 'u world res" where
  "rpc_create r c w =
     with_conn c w (\<lambda>x.
       Inr (put_rpc r (new_rpc c) (put_conn c (x\<lparr>on_recv_package := DispatcherRecv r\<rparr>) w)))"

definition rpc_destroy :: "nat \<Rightarrow> 'u world \<Rightarrow> 'u world" where
  "rpc_destroy r w = w\<lparr>rpcs := (rpcs w)(r := None)\<rparr>"

definition on_rpc :: "nat \<Rightarrow> ('u rpc \<Rightarrow> 'u rpc) \<Rightarrow> 'u world \<Rightarrow> 'u world res" where
  "on_rpc r f w = with_rpc r w (\<lambda>x. Inr (put_rpc r (f x) w))"

definition rpc_get_connection :: "'u rpc \<Rightarrow> nat" where
  "rpc_get_connection x = rpc_conn x"

definition rpc_get_ready :: "'u rpc \<Rightarrow> bool" where
  "rpc_get_ready x = rpc_is_ready x"

definition rpc_set_timer :: "bool \<Rightarrow> 'u rpc \<Rightarrow> 'u rpc" where
  "rpc_set_timer t x = x\<lparr>dispatcher := set_timer_impl t (dispatcher x)\<rparr>"

definition rpc_set_ready :: "bool \<Rightarrow> 'u rpc \<Rightarrow> 'u rpc" where
  "rpc_set_ready b x = x\<lparr>rpc_is_ready := b\<rparr>"

section \<open>subscribe\<close>

text \<open>The four instances of \<open>subscribe_helper\<close>: return value or none, parameter or none.\<close>

definition handle_ret_param :: "'a codec \<Rightarrow> 'b codec \<Rightarrow> ('a \<Rightarrow> 'u \<Rightarrow> 'b \<times> 'u) \<Rightarrow> 'u cmd_handle" where
  "handle_ret_param p r handle =
     SyncHandle (\<lambda>msg u.
       bindr (unpack_as p msg) (\<lambda>(ok, v).
         let (ret, u) = (if ok then handle v u else (dflt r, u))
         in mapr (\<lambda>m. (m, u)) (make_rsp r (m_seq msg) (Some ret) ok)))"

definition handle_void_param :: "'a codec \<Rightarrow> ('a \<Rightarrow> 'u \<Rightarrow> 'u) \<Rightarrow> 'u cmd_handle" where
  "handle_void_param p handle =
     SyncHandle (\<lambda>msg u.
       bindr (unpack_as p msg) (\<lambda>(ok, v).
         let u = (if ok then handle v u else u)
         in mapr (\<lambda>m. (m, u)) (make_rsp (raw_codec 1 1) (m_seq msg) None ok)))"

definition handle_ret_void :: "'b codec \<Rightarrow> ('u \<Rightarrow> 'b \<times> 'u) \<Rightarrow> 'u cmd_handle" where
  "handle_ret_void r handle =
     SyncHandle (\<lambda>msg u.
       let (ret, u) = handle u
       in mapr (\<lambda>m. (m, u)) (make_rsp r (m_seq msg) (Some ret) True))"

definition handle_void_void :: "('u \<Rightarrow> 'u) \<Rightarrow> 'u cmd_handle" where
  "handle_void_void handle =
     SyncHandle (\<lambda>msg u.
       let u = handle u
       in mapr (\<lambda>m. (m, u)) (make_rsp (raw_codec 1 1) (m_seq msg) None True))"

text \<open>
  A handler of \<open>request_response\<close>: from the request and the user's state, the response it gives
  before returning, if it does, whether it keeps the pointer, and the new state.
\<close>

definition handle_async ::
  "'a codec \<Rightarrow> 'b codec \<Rightarrow> bool \<Rightarrow> ('a \<Rightarrow> 'u \<Rightarrow> 'b option \<times> bool \<times> 'u) \<Rightarrow> 'u cmd_handle" where
  "handle_async p r scheduler handle =
     AsyncHandle scheduler (\<lambda>data.
       mapr (\<lambda>(ok, v). (ok, \<lambda>u.
         case handle v u of
           (rsp, keeps, u) \<Rightarrow>
             \<lparr>h_rsp = map_option (serialize r) rsp, h_keeps = keeps, h_user = u\<rparr>))
         (deserialize p data))"

definition rpc_subscribe :: "cmd_type \<Rightarrow> 'u cmd_handle \<Rightarrow> 'u rpc \<Rightarrow> 'u rpc" where
  "rpc_subscribe cmd h x = x\<lparr>dispatcher := subscribe_cmd cmd h (dispatcher x)\<rparr>"

definition rpc_unsubscribe :: "cmd_type \<Rightarrow> 'u rpc \<Rightarrow> 'u rpc" where
  "rpc_unsubscribe cmd x = x\<lparr>dispatcher := unsubscribe_cmd cmd (dispatcher x)\<rparr>"

section \<open>Short forms\<close>

definition rpc_cmd :: "nat \<Rightarrow> cmd_type \<Rightarrow> 'u world \<Rightarrow> (nat \<times> 'u world) res" where
  "rpc_cmd r cmd w =
     (let (i, w) = create_request (Some r) w
      in mapr (Pair i) (on_req i (req_set_cmd cmd) w))"

definition rpc_ping :: "nat \<Rightarrow> bytes \<Rightarrow> 'u world \<Rightarrow> (nat \<times> 'u world) res" where
  "rpc_ping r data w =
     (let (i, w) = create_request (Some r) w
      in bindr (on_req i req_ping w) (\<lambda>w.
         with_req i w (\<lambda>q.
         bindr (req_msg (string_codec 1) data q) (\<lambda>q.
           Inr (i, put_req i q w)))))"

text \<open>
  \<open>rpc->call(cmd, message)\<close> and \<open>rpc->call(cmd, message, rsp)\<close>: the temporary pointer is dropped
  at the end of the full expression.
\<close>

definition rpc_call ::
  "coder \<Rightarrow> nat \<Rightarrow> cmd_type \<Rightarrow> 'a codec \<Rightarrow> 'a \<Rightarrow> 'u rsp_cb option \<Rightarrow> 'u world \<Rightarrow> (nat \<times> 'u world) res" where
  "rpc_call co r cmd c message rsp w =
     bindr (rpc_cmd r cmd w) (\<lambda>(i, w).
     with_req i w (\<lambda>q.
     bindr (req_msg c message q) (\<lambda>q.
       let q = (case rsp of None \<Rightarrow> q | Some cb \<Rightarrow> req_rsp i cb q)
       in bindr (user_call co i None (put_req i q w)) (\<lambda>w.
          mapr (Pair i) (drop_ref i w)))))"

end
