(* ===== verification/Lifecycle.thy ===== *)
theory Lifecycle
  imports Rpc
begin

text \<open>
  The life of requests: which objects the closures in a dispatcher's table and in the armed timers
  refer to, and an invariant of all programs that start a request's next call only when the last
  one has finished. There are two disciplines: under the strict one a waiting request is not canceled
  with \<open>cancel\<close>; under the other it may be, if the program keeps a pointer to it. Under the invariant
  no closure refers to a destroyed request. While a closure runs, its own table entry is about to be erased: the
  invariant takes a set \<open>X\<close> of such entries, which it does not constrain.
\<close>

section \<open>The invariant\<close>

definition entry :: "'u world \<Rightarrow> nat \<Rightarrow> seq_type \<Rightarrow> 'u rsp_handle option option" where
  "entry w r s = (case rpcs w r of None \<Rightarrow> None | Some x \<Rightarrow> rsp_handle_map (dispatcher x) s)"

definition handles_ok :: "nat \<Rightarrow> 'u request \<Rightarrow> bool" where
  "handles_ok i q \<longleftrightarrow>
     (\<exists>tc. timeout_cb q = Some tc \<and> tc_this tc = i) \<and> (\<forall>h. rsp_handle q = Some h \<longrightarrow> rh_this h = i)"

text \<open>
  What keeps a request with a table entry alive: while it waits, itself. A request that was canceled
  while it waited is at rest although the entry is still there; programs of the \<open>strict\<close> discipline
  never get there, the others keep a pointer to it.
\<close>

definition held :: "bool \<Rightarrow> 'u request \<Rightarrow> bool" where
  "held strict q \<longleftrightarrow> (if waiting_rsp q then self_keeper q else \<not> strict \<and> 0 < refs q)"

definition inv_req :: "'u world \<Rightarrow> bool" where
  "inv_req w \<longleftrightarrow> (\<forall>i q. reqs w i = Some q \<longrightarrow> i < next_req w \<and> handles_ok i q)"

definition inv_entry :: "bool \<Rightarrow> (nat \<times> seq_type) set \<Rightarrow> 'u world \<Rightarrow> bool" where
  "inv_entry strict X w \<longleftrightarrow>
     (\<forall>r s e. entry w r s = Some e \<longrightarrow> (r, s) \<notin> X \<longrightarrow>
        (\<exists>h q. e = Some h \<and> reqs w (rh_this h) = Some q \<and> held strict q))"

definition inv_unique :: "(nat \<times> seq_type) set \<Rightarrow> 'u world \<Rightarrow> bool" where
  "inv_unique X w \<longleftrightarrow>
     (\<forall>r s h r' s' h'. entry w r s = Some (Some h) \<longrightarrow> entry w r' s' = Some (Some h') \<longrightarrow>
        (r, s) \<notin> X \<longrightarrow> (r', s') \<notin> X \<longrightarrow> rh_this h = rh_this h' \<longrightarrow> r = r' \<and> s = s')"

definition inv_timer :: "(nat \<times> seq_type) set \<Rightarrow> 'u world \<Rightarrow> bool" where
  "inv_timer X w \<longleftrightarrow>
     (\<forall>t\<in>set (timers w). \<forall>h. entry w (t_dispatcher t) (t_seq t) = Some (Some h) \<longrightarrow>
        (t_dispatcher t, t_seq t) \<notin> X \<longrightarrow> (\<exists>tc. t_cb t = Some tc \<and> tc_this tc = rh_this h))"

definition inv_seq :: "'u world \<Rightarrow> bool" where
  "inv_seq w \<longleftrightarrow>
     (\<forall>r x. rpcs w r = Some x \<longrightarrow>
        (\<forall>s. entry w r s \<noteq> None \<longrightarrow> s < rpc_seq x) \<and>
        (\<forall>t\<in>set (timers w). t_dispatcher t = r \<longrightarrow> t_seq t < rpc_seq x))"

definition inv :: "bool \<Rightarrow> (nat \<times> seq_type) set \<Rightarrow> 'u world \<Rightarrow> bool" where
  "inv strict X w \<longleftrightarrow> inv_req w \<and> inv_entry strict X w \<and> inv_unique X w \<and> inv_timer X w \<and> inv_seq w"

lemmas inv_defs = inv_req_def inv_entry_def inv_unique_def inv_timer_def inv_seq_def

text \<open>No entry outside \<open>X\<close> belongs to the request.\<close>

definition idle :: "(nat \<times> seq_type) set \<Rightarrow> 'u world \<Rightarrow> nat \<Rightarrow> bool" where
  "idle X w i \<longleftrightarrow>
     (\<forall>r s h. entry w r s = Some (Some h) \<longrightarrow> (r, s) \<notin> X \<longrightarrow> rh_this h \<noteq> i)"

definition counters_ok :: "'u world \<Rightarrow> bool" where
  "counters_ok w \<longleftrightarrow> (\<forall>r x. rpcs w r = Some x \<longrightarrow> rpc_seq x \<noteq> - 1)"

text \<open>
  What the invariant depends on, and the events that begin and end calls: what arrives for others
  than requests does not touch them.
\<close>

definition moves :: "'u world \<Rightarrow> event list" where
  "moves w = filter (\<lambda>e. case e of TimeoutCb i \<Rightarrow> False | _ \<Rightarrow> True) (events w)"

definition same_calls :: "'u world \<Rightarrow> 'u world \<Rightarrow> bool" where
  "same_calls w w' \<longleftrightarrow>
     rpcs w' = rpcs w \<and> reqs w' = reqs w \<and> timers w' = timers w \<and> next_req w' = next_req w \<and>
     moves w' = moves w"

lemma same_calls_refl [simp]: "same_calls w w"
  by (simp add: same_calls_def)

lemma same_calls_trans: "same_calls a b \<Longrightarrow> same_calls b c \<Longrightarrow> same_calls a c"
  by (simp add: same_calls_def)

lemma inv_same_calls: "same_calls w w' \<Longrightarrow> inv strict X w' = inv strict X w"
  by (simp add: inv_def inv_defs entry_def same_calls_def)

lemma idle_same_calls: "same_calls w w' \<Longrightarrow> idle X w' i = idle X w i"
  by (simp add: idle_def entry_def same_calls_def)

lemma same_calls_user [simp]:
  "same_calls w (run_user f w)" "same_calls w (log_event (TimeoutCb i) w)" "same_calls w (put_conn c x w)"
  "same_calls w (put_rr k y w)"
  by (simp_all add: same_calls_def moves_def put_defs)

lemma inv_log_event [simp]: "inv strict X (log_event e w) = inv strict X w" "idle X (log_event e w) i = idle X w i"
  by (simp_all add: inv_def inv_defs idle_def entry_def log_event_def)

lemma send_package_same: "send_package c p w = Inr w' \<Longrightarrow> same_calls w w'"
  using send_package_frame [of c p w w'] by (simp add: same_calls_def moves_def)

lemma inv_entryD:
  "inv strict X w \<Longrightarrow> entry w r s = Some e \<Longrightarrow> (r, s) \<notin> X \<Longrightarrow>
     \<exists>h q. e = Some h \<and> reqs w (rh_this h) = Some q \<and> held strict q"
  unfolding inv_def inv_entry_def by blast

lemma inv_uniqueD:
  "inv strict X w \<Longrightarrow> entry w r s = Some (Some h) \<Longrightarrow> entry w r' s' = Some (Some h') \<Longrightarrow>
     (r, s) \<notin> X \<Longrightarrow> (r', s') \<notin> X \<Longrightarrow> rh_this h = rh_this h' \<Longrightarrow> r = r' \<and> s = s'"
  unfolding inv_def inv_unique_def by blast

lemma inv_timerD:
  "inv strict X w \<Longrightarrow> t \<in> set (timers w) \<Longrightarrow> entry w (t_dispatcher t) (t_seq t) = Some (Some h) \<Longrightarrow>
     (t_dispatcher t, t_seq t) \<notin> X \<Longrightarrow> \<exists>tc. t_cb t = Some tc \<and> tc_this tc = rh_this h"
  unfolding inv_def inv_timer_def by blast

lemma idleD: "idle X w i \<Longrightarrow> entry w r s = Some (Some h) \<Longrightarrow> (r, s) \<notin> X \<Longrightarrow> rh_this h \<noteq> i"
  unfolding idle_def by blast

section \<open>Changing one request\<close>

definition same_but_req :: "nat \<Rightarrow> 'u world \<Rightarrow> 'u world \<Rightarrow> bool" where
  "same_but_req i w w' \<longleftrightarrow>
     rpcs w' = rpcs w \<and> timers w' = timers w \<and> next_req w' = next_req w \<and>
     (\<forall>j. j \<noteq> i \<longrightarrow> reqs w' j = reqs w j)"

lemma idle_same_but: "same_but_req i w w' \<Longrightarrow> idle X w' j = idle X w j"
  by (simp add: idle_def entry_def same_but_req_def)

lemma inv_change_req:
  assumes "inv strict X w" "same_but_req i w w'"
    and ok: "\<And>q'. reqs w' i = Some q' \<Longrightarrow> handles_ok i q' \<and> i < next_req w"
    and keep: "idle X w i \<or> (\<forall>q. reqs w i = Some q \<longrightarrow> held strict q \<longrightarrow> (\<exists>q'. reqs w' i = Some q' \<and> held strict q'))"
  shows "inv strict X w'"
proof -
  have e: "entry w' = entry w" using assms(2) by (simp add: fun_eq_iff entry_def same_but_req_def)
  have "inv_req w'"
    unfolding inv_req_def
  proof (intro allI impI)
    fix j q'
    assume "reqs w' j = Some q'"
    with assms(1,2) ok show "j < next_req w' \<and> handles_ok j q'"
      by (cases "j = i") (auto simp: inv_def inv_req_def same_but_req_def)
  qed
  moreover have "inv_entry strict X w'"
    unfolding inv_entry_def
  proof (intro allI impI)
    fix r s e'
    assume "entry w' r s = Some e'" "(r, s) \<notin> X"
    then obtain h q where h: "e' = Some h" "reqs w (rh_this h) = Some q" "held strict q"
      using inv_entryD [OF assms(1)] e by metis
    have h0: "entry w r s = Some (Some h)" using \<open>entry w' r s = Some e'\<close> h e by simp
    show "\<exists>h q. e' = Some h \<and> reqs w' (rh_this h) = Some q \<and> held strict q"
    proof (cases "rh_this h = i")
      case True
      then have "\<not> idle X w i" using h0 \<open>(r, s) \<notin> X\<close> unfolding idle_def by blast
      then show ?thesis using keep h True by auto
    next
      case False
      then show ?thesis using h assms(2) by (auto simp: same_but_req_def)
    qed
  qed
  ultimately show ?thesis
    using assms(1,2) by (simp add: inv_def inv_unique_def inv_timer_def inv_seq_def e same_but_req_def)
qed

lemma inv_reqD: "inv strict X w \<Longrightarrow> reqs w i = Some q \<Longrightarrow> handles_ok i q \<and> i < next_req w"
  by (auto simp: inv_def inv_req_def)

text \<open>A setter that keeps the closures, and what it does to a waiting request.\<close>

lemma on_req_inv:
  assumes "on_req i f w = Inr w'" "inv strict X w"
    and "\<And>q. handles_ok i q \<Longrightarrow> handles_ok i (f q)"
    and "idle X w i \<or> (\<forall>q. held strict q \<longrightarrow> held strict (f q))"
  shows "inv strict X w' \<and> same_but_req i w w' \<and> (\<exists>q. reqs w i = Some q \<and> reqs w' i = Some (f q))"
proof -
  from assms(1) obtain q where q: "reqs w i = Some q" "w' = put_req i (f q) w"
    by (auto simp: on_req_def res_simps)
  then have sb: "same_but_req i w w'" by (simp add: same_but_req_def put_req_def)
  have "inv strict X w'"
    using assms(2) sb
    by (rule inv_change_req) (use q assms inv_reqD [OF assms(2) q(1)] in \<open>auto simp: put_req_def\<close>)
  with sb q show ?thesis by (simp add: put_req_def)
qed

lemma on_finish_frame:
  assumes "on_finish i ty w = Inr w'"
  shows "same_but_req i w w'"
    "reqs w' i = Some q' \<Longrightarrow> \<exists>q. reqs w i = Some q \<and> (handles_ok i q \<longrightarrow> handles_ok i q')"
    "\<exists>q. reqs w i = Some q"
  using assms
  by (auto simp: on_finish_def release_keeper_def res_simps Let_def same_but_req_def put_defs
      handles_ok_def split: if_splits option.splits)

lemma on_finish_inv:
  assumes "on_finish i ty w = Inr w'" "inv strict X w" "idle X w i"
  shows "inv strict X w' \<and> idle X w' i"
proof -
  note f = on_finish_frame [OF assms(1)]
  have "inv strict X w'"
    using assms(2) f(1) by (rule inv_change_req) (use f assms inv_reqD [OF assms(2)] in auto)
  then show ?thesis using assms(3) f(1) by (simp add: idle_same_but)
qed

section \<open>Calls\<close>

lemma word_less_succ:
  assumes "(s :: 'a :: len word) \<noteq> - 1"
  shows "s < s + 1"
proof -
  have "unat s + 1 \<noteq> 2 ^ LENGTH('a)"
  proof
    assume "unat s + 1 = 2 ^ LENGTH('a)"
    then have "(of_nat (unat s + 1) :: 'a word) = of_nat (2 ^ LENGTH('a))" by simp
    then have "s + 1 = 0" by (simp add: add.commute)
    then have "s = - 1" by (rule eq_neg_iff_add_eq_0 [THEN iffD2])
    then show False using assms by simp
  qed
  moreover have "unat s < 2 ^ LENGTH('a)" by (rule unsigned_less)
  ultimately have "unat s + 1 < 2 ^ LENGTH('a)" by linarith
  then show ?thesis by (simp add: word_less_nat_alt unat_word_ariths)
qed

lemma inv_seqD:
  assumes "inv strict X w" "rpcs w r = Some x"
  shows "entry w r s \<noteq> None \<Longrightarrow> s < rpc_seq x"
    "t \<in> set (timers w) \<Longrightarrow> t_dispatcher t = r \<Longrightarrow> t_seq t < rpc_seq x"
  using assms unfolding inv_def inv_seq_def by blast+

lemma on_finish_rpcs: "on_finish i ty w = Inr w' \<Longrightarrow> rpcs w' = rpcs w"
  by (auto dest: on_finish_frame(1) simp: same_but_req_def)

text \<open>The counter of an rpc object moves on; its table and the timers stay.\<close>

lemma make_seq_inv:
  assumes "make_seq r w = Inr (s, w')" "inv strict X w" "counters_ok w"
  shows "inv strict X w'" "entry w' = entry w" "reqs w' = reqs w" "timers w' = timers w" "next_req w' = next_req w"
    "\<exists>x. rpcs w r = Some x \<and> s = rpc_seq x \<and> rpcs w' = (rpcs w)(r \<mapsto> x\<lparr>rpc_seq := s + 1\<rparr>) \<and> s < s + 1"
proof -
  from assms(1) obtain x where x: "rpcs w r = Some x" "s = rpc_seq x"
      "w' = put_rpc r (x\<lparr>rpc_seq := s + 1\<rparr>) w"
    by (auto simp: make_seq_def res_simps)
  have lt: "s < s + 1"
    using assms(3) x by (auto simp: counters_ok_def word_less_succ)
  show e: "entry w' = entry w" and f: "reqs w' = reqs w" "timers w' = timers w" "next_req w' = next_req w"
    using x by (auto simp: fun_eq_iff entry_def put_rpc_def)
  show "\<exists>x. rpcs w r = Some x \<and> s = rpc_seq x \<and> rpcs w' = (rpcs w)(r \<mapsto> x\<lparr>rpc_seq := s + 1\<rparr>) \<and> s < s + 1"
    using x lt by (auto simp: put_rpc_def)
  have "inv_seq w'"
    unfolding inv_seq_def e f
  proof (intro allI impI)
    fix r' x'
    assume "rpcs w' r' = Some x'"
    then obtain y where y: "rpcs w r' = Some y" "rpc_seq y \<le> rpc_seq x'"
      using x lt by (cases "r' = r") (auto simp: put_rpc_def)
    show "(\<forall>s. entry w r' s \<noteq> None \<longrightarrow> s < rpc_seq x') \<and>
        (\<forall>t\<in>set (timers w). t_dispatcher t = r' \<longrightarrow> t_seq t < rpc_seq x')"
      using inv_seqD [OF assms(2) y(1)] less_le_trans [OF _ y(2)] by blast
  qed
  then show "inv strict X w'"
    using assms(2) by (simp add: inv_def inv_req_def inv_entry_def inv_unique_def inv_timer_def e f)
qed

text \<open>Registering a response handler under a number that nothing uses yet.\<close>

lemma subscribe_rsp_inv:
  assumes "inv strict X w" and x: "rpcs w r = Some x" and q: "reqs w i = Some q" "held strict q"
    and id: "idle X w i" and h: "handles_ok i q"
    and fresh: "entry w r s = None" "\<forall>t\<in>set (timers w). t_dispatcher t = r \<longrightarrow> t_seq t \<noteq> s"
    and lt: "s < rpc_seq x"
    and sub: "subscribe_rsp r s (rsp_handle q) (timeout_cb q) ms (dispatcher x) = (d, ts)"
    and w': "w' = (put_dispatcher r x d w)\<lparr>timers := timers w @ ts\<rparr>"
  shows "inv strict X w'"
proof (cases "rsp_handle q = None \<or> \<not> timer_impl (dispatcher x)")
  case True
  with sub have "d = dispatcher x" "ts = []" by (auto simp: subscribe_rsp_def split: if_splits)
  with w' x have "rpcs w' = rpcs w" "timers w' = timers w" "reqs w' = reqs w" "next_req w' = next_req w"
      "moves w' = moves w"
    by (auto simp: put_dispatcher_def put_rpc_def moves_def)
  then show ?thesis using assms(1) inv_same_calls [of w w'] by (simp add: same_calls_def)
next
  case False
  then obtain h where hd: "rsp_handle q = Some h" by auto
  with h have hi: "rh_this h = i" by (simp add: handles_ok_def)
  let ?t = "\<lparr>t_dispatcher = r, t_ms = ms, t_seq = s, t_cb = timeout_cb q\<rparr>"
  have e: "entry w' = (\<lambda>r' s'. if r' = r \<and> s' = s then Some (Some h) else entry w r' s')"
    and f: "reqs w' = reqs w" "next_req w' = next_req w" "timers w' = timers w @ [?t]"
    using sub False hd w' x
    by (auto simp: fun_eq_iff entry_def put_dispatcher_def put_rpc_def subscribe_rsp_def split: if_splits)
  have "inv_req w'" using assms(1) by (simp add: inv_def inv_req_def f)
  moreover have "inv_entry strict X w'"
    using inv_entryD [OF assms(1)] q hi unfolding inv_entry_def e f by (auto split: if_splits)
  moreover have "inv_unique X w'"
    unfolding inv_unique_def e
  proof (intro allI impI)
    fix r1 s1 h1 r2 s2 h2
    assume a: "(if r1 = r \<and> s1 = s then Some (Some h) else entry w r1 s1) = Some (Some h1)"
      "(if r2 = r \<and> s2 = s then Some (Some h) else entry w r2 s2) = Some (Some h2)"
      "(r1, s1) \<notin> X" "(r2, s2) \<notin> X" "rh_this h1 = rh_this h2"
    show "r1 = r2 \<and> s1 = s2"
      using inv_uniqueD [OF assms(1), of r1 s1 h1 r2 s2 h2] idleD [OF id, of r1 s1 h1]
        idleD [OF id, of r2 s2 h2] a hi by (auto split: if_splits)
  qed
  moreover have "inv_timer X w'"
    using assms(1) h hi fresh unfolding inv_timer_def e f inv_def handles_ok_def by auto
  moreover have "inv_seq w'"
    unfolding inv_seq_def
  proof (intro allI impI)
    fix r' x'
    assume "rpcs w' r' = Some x'"
    then obtain y where y: "rpcs w r' = Some y" "rpc_seq y = rpc_seq x'"
      using x w' by (cases "r' = r") (auto simp: put_rpc_def put_dispatcher_def)
    show "(\<forall>s. entry w' r' s \<noteq> None \<longrightarrow> s < rpc_seq x') \<and>
        (\<forall>t\<in>set (timers w'). t_dispatcher t = r' \<longrightarrow> t_seq t < rpc_seq x')"
      using inv_seqD [OF assms(1) y(1)] lt x y unfolding e f by auto
  qed
  ultimately show ?thesis by (simp add: inv_def)
qed

lemma send_request_inv:
  assumes "send_request co r i w = Inr w'" "inv strict X w" "idle X w i"
    and x: "rpcs w r = Some x" and q: "reqs w i = Some q" "held strict q"
    and fresh: "entry w r (req_seq q) = None"
      "\<forall>t\<in>set (timers w). t_dispatcher t = r \<longrightarrow> t_seq t \<noteq> req_seq q"
    and lt: "req_seq q < rpc_seq x"
  shows "inv strict X w'" "reqs w' = reqs w" "\<not> need_rsp_flag q \<Longrightarrow> idle X w' i"
proof -
  define dts where "dts = (if need_rsp_flag q
      then subscribe_rsp r (req_seq q) (rsp_handle q) (timeout_cb q) (timeout_ms q) (dispatcher x)
      else (dispatcher x, []))"
  define w1 where "w1 = (put_dispatcher r x (fst dts) w)\<lparr>timers := timers w @ snd dts\<rparr>"
  from assms(1) x q(1) have s: "same_calls w1 w'"
    by (auto simp: send_request_def Let_def dts_def [symmetric] res_simps w1_def put_dispatcher_def put_rpc_def
        dest!: send_package_same split: prod.splits)
  have h: "handles_ok i q" using inv_reqD [OF assms(2) q(1)] by simp
  have no: "same_calls w w1" if "\<not> need_rsp_flag q"
    using that x by (simp add: w1_def dts_def same_calls_def moves_def put_dispatcher_def put_rpc_def map_upd_triv)
  have "inv strict X w1"
  proof (cases "need_rsp_flag q")
    case True
    then have "subscribe_rsp r (req_seq q) (rsp_handle q) (timeout_cb q) (timeout_ms q) (dispatcher x)
        = (fst dts, snd dts)" by (simp add: dts_def)
    then show ?thesis
      using subscribe_rsp_inv [OF assms(2) x q assms(3) h fresh lt _ w1_def] by simp
  next
    case False
    with no assms(2) show ?thesis by (simp add: inv_same_calls)
  qed
  with s show "inv strict X w'" by (simp add: inv_same_calls)
  show "reqs w' = reqs w" using s by (simp add: same_calls_def w1_def put_dispatcher_def put_rpc_def)
  show "idle X w' i" if "\<not> need_rsp_flag q"
    using no [OF that] s assms(3) by (simp add: idle_same_calls)
qed

text \<open>Sending keeps the entries; a new one belongs to the request.\<close>

lemma send_request_entry:
  assumes "send_request co r i w = Inr w'" "reqs w i = Some q" "handles_ok i q" "entry w r (req_seq q) = None"
  shows "entry w r' s' = Some e \<Longrightarrow> entry w' r' s' = Some e"
    "entry w' r' s' = Some (Some h) \<Longrightarrow> entry w r' s' = Some (Some h) \<or> rh_this h = i"
proof -
  obtain x where x: "rpcs w r = Some x" using assms(1) by (auto simp: send_request_def res_simps)
  define dts where "dts = (if need_rsp_flag q
      then subscribe_rsp r (req_seq q) (rsp_handle q) (timeout_cb q) (timeout_ms q) (dispatcher x)
      else (dispatcher x, []))"
  define w1 where "w1 = (put_dispatcher r x (fst dts) w)\<lparr>timers := timers w @ snd dts\<rparr>"
  from assms(1,2) x have s: "same_calls w1 w'"
    by (auto simp: send_request_def Let_def dts_def [symmetric] res_simps w1_def put_dispatcher_def put_rpc_def
        dest!: send_package_same split: prod.splits)
  then have e: "entry w' = entry w1" by (simp add: fun_eq_iff entry_def same_calls_def)
  have "entry w1 = entry w \<or>
      (\<exists>h. rsp_handle q = Some h \<and>
        entry w1 = (\<lambda>r' s'. if r' = r \<and> s' = req_seq q then Some (Some h) else entry w r' s'))"
    using x by (cases "rsp_handle q")
      (auto simp: fun_eq_iff entry_def w1_def dts_def subscribe_rsp_def put_dispatcher_def put_rpc_def)
  then show "entry w r' s' = Some e \<Longrightarrow> entry w' r' s' = Some e"
    "entry w' r' s' = Some (Some h) \<Longrightarrow> entry w r' s' = Some (Some h) \<or> rh_this h = i"
    using assms(3,4) unfolding e by (auto simp: handles_ok_def split: if_splits)
qed

lemma call_sent:
  assumes "make_seq r w = Inr (s, w1)" "on_req i (\<lambda>q. q\<lparr>req_seq := s\<rparr>) w1 = Inr w2"
    and "send_request co r i w2 = Inr w3"
    and "inv strict X w" "idle X w i" "counters_ok w"
    and q: "reqs w i = Some q" "held strict q"
  shows "inv strict X w3" "reqs w3 = (reqs w)(i \<mapsto> q\<lparr>req_seq := s\<rparr>)" "\<not> need_rsp_flag q \<Longrightarrow> idle X w3 i"
    "entry w r' s' = Some e \<Longrightarrow> entry w3 r' s' = Some e"
    "entry w3 r' s' = Some (Some h) \<Longrightarrow> entry w r' s' = Some (Some h) \<or> rh_this h = i"
proof -
  note m = make_seq_inv [OF assms(1,4,6)]
  let ?q = "q\<lparr>req_seq := s\<rparr>"
  have hq: "handles_ok i ?q" using inv_reqD [OF assms(4) q(1)] by (simp add: handles_ok_def)
  have w2: "w2 = put_req i ?q w1" using assms(2) q(1) m(3) by (simp add: on_req_def)
  have sb: "same_but_req i w1 w2" and r2: "reqs w2 i = Some ?q"
    by (simp_all add: same_but_req_def w2 put_req_def)
  have id1: "idle X w1 i" using assms(5) m(2) by (simp add: idle_def)
  then have id2: "idle X w2 i" using sb by (simp add: idle_same_but)
  have i2: "inv strict X w2"
    using m(1) sb by (rule inv_change_req) (use id1 hq r2 inv_reqD [OF assms(4) q(1)] m in auto)
  from m(6) obtain x where x: "rpcs w r = Some x" "s = rpc_seq x" "rpcs w1 r = Some (x\<lparr>rpc_seq := s + 1\<rparr>)"
      "s < s + 1" by auto
  have x2: "rpcs w2 r = Some (x\<lparr>rpc_seq := s + 1\<rparr>)" using x(3) by (simp add: w2 put_req_def)
  have e2: "entry w2 = entry w" "timers w2 = timers w"
    using m(2,4) by (auto simp: fun_eq_iff entry_def w2 put_req_def)
  have fresh: "entry w2 r (req_seq ?q) = None"
      "\<forall>t\<in>set (timers w2). t_dispatcher t = r \<longrightarrow> t_seq t \<noteq> req_seq ?q"
    using inv_seqD [OF assms(4) x(1)] x(2) e2 by fastforce+
  have h2: "held strict ?q" using q(2) by (simp add: held_def)
  have lt: "req_seq ?q < rpc_seq (x\<lparr>rpc_seq := s + 1\<rparr>)" using x(4) by simp
  note s = send_request_inv [OF assms(3) i2 id2 x2 r2 h2 fresh lt]
  show "inv strict X w3" by (rule s(1))
  show "reqs w3 = (reqs w)(i \<mapsto> ?q)" using s(2) m(3) by (simp add: w2 put_req_def)
  show "\<not> need_rsp_flag q \<Longrightarrow> idle X w3 i" using s(3) by simp
  note e = send_request_entry [OF assms(3) r2 hq fresh(1), unfolded e2(1)]
  show "entry w r' s' = Some e \<Longrightarrow> entry w3 r' s' = Some e" by (rule e(1))
  show "entry w3 r' s' = Some (Some h) \<Longrightarrow> entry w r' s' = Some (Some h) \<or> rh_this h = i" by (rule e(2))
qed

lemma call_through_inv:
  assumes "call_through co i r w = Inr w'" "inv strict X w" "idle X w i" "counters_ok w"
    and q: "reqs w i = Some q" "held strict q"
  shows "inv strict X w'"
proof -
  from assms(1) obtain s w1 w2 w3 where c: "make_seq r w = Inr (s, w1)"
      "on_req i (\<lambda>q. q\<lparr>req_seq := s\<rparr>) w1 = Inr w2" "send_request co r i w2 = Inr w3"
      "with_req i w3 (\<lambda>q. if \<not> need_rsp_flag q then on_finish i no_need_rsp w3 else Inr w3) = Inr w'"
    unfolding call_through_def by (auto elim!: bindr_InrE)
  note s = call_sent [OF c(1-3) assms(2-6)]
  from c(4) s(2) have "if \<not> need_rsp_flag q then on_finish i no_need_rsp w3 = Inr w' else w' = w3"
    by (simp add: with_req_def split: if_splits)
  with s(1,3) on_finish_inv [of i no_need_rsp w3 w' strict X] show ?thesis
    by (auto split: if_splits)
qed

text \<open>A call, by a request that no entry outside \<open>X\<close> belongs to.\<close>

lemma request_call_inv:
  assumes "request_call co i rpc w = Inr w'" "inv strict X w" "idle X w i" "counters_ok w"
  shows "inv strict X w'"
proof -
  from assms(1) obtain w1 where w1: "on_req i (\<lambda>q. q\<lparr>waiting_rsp := True\<rparr>) w = Inr w1"
    by (auto simp: request_call_def)
  have i1: "inv strict X w1" "same_but_req i w w1" and "\<exists>q. reqs w i = Some q \<and> reqs w1 i = Some (q\<lparr>waiting_rsp := True\<rparr>)"
    using on_req_inv [OF w1 assms(2)] assms(3) by (auto simp: handles_ok_def)
  then obtain q where q: "reqs w1 i = Some q" "waiting_rsp q" by auto
  have id1: "idle X w1 i" using assms(3) i1(2) by (simp add: idle_same_but)
  show ?thesis
  proof (cases "canceled_flag q")
    case True
    with assms(1) w1 q on_finish_inv [OF _ i1(1) id1] show ?thesis
      by (auto simp: request_call_def)
  next
    case False
    define q2 where "q2 = (case rpc of Some r \<Rightarrow> q\<lparr>self_keeper := True, req_rpc := Some r\<rparr>
        | None \<Rightarrow> q\<lparr>self_keeper := True\<rparr>)"
    define w2 where "w2 = put_req i q2 w1"
    have q2: "handles_ok i q2" "held strict q2"
      using inv_reqD [OF i1(1) q(1)] q(2)
      by (auto simp: q2_def handles_ok_def held_def split: option.splits)
    have sb2: "same_but_req i w1 w2" and r2: "reqs w2 i = Some q2"
      by (simp_all add: same_but_req_def w2_def put_req_def)
    have i2: "inv strict X w2"
      using i1(1) sb2 by (rule inv_change_req) (use q2 r2 id1 inv_reqD [OF i1(1) q(1)] in auto)
    have id2: "idle X w2 i" using id1 sb2 by (simp add: idle_same_but)
    have c2: "counters_ok w2" using assms(4) i1(2) sb2 by (simp add: counters_ok_def same_but_req_def)
    note fin = on_finish_inv [OF _ i2 id2]
    have "(case rpc_lock q2 w2 of
              None \<Rightarrow> on_finish i rpc_expired w2
            | Some r \<Rightarrow>
                with_rpc r w2 (\<lambda>x.
                  if \<not> rpc_is_ready x then on_finish i rpc_not_ready w2
                  else call_through co i r w2)) = Inr w'"
      using assms(1) w1 q(1) False
      unfolding w2_def
      by (cases rpc) (simp_all add: request_call_def q2_def Let_def cong: option.case_cong if_cong)
    with fin call_through_inv [OF _ i2 id2 c2 r2 q2(2)] show ?thesis
      by (auto simp: res_simps split: option.splits if_splits)
  qed
qed

section \<open>Packages and timers\<close>

lemma run_rsp_handle_cases:
  assumes "run_rsp_handle h msg w = Inr (b, w')"
  shows "\<exists>w1 ty. same_calls w w1 \<and> on_finish (rh_this h) ty w1 = Inr w'"
  using assms
  by (auto simp: run_rsp_handle_def Let_def res_simps split: if_splits rsp_cb.splits)
    (blast intro: same_calls_refl same_calls_user)+

lemma run_rsp_handle_inv:
  assumes "run_rsp_handle h msg w = Inr (b, w')" "inv strict X w" "idle X w (rh_this h)"
  shows "inv strict X w' \<and> idle X w' (rh_this h)"
proof -
  from assms(1) obtain w1 ty where w1: "same_calls w w1" "on_finish (rh_this h) ty w1 = Inr w'"
    using run_rsp_handle_cases by blast
  with assms(2,3) on_finish_inv [OF w1(2)] show ?thesis
    by (simp add: inv_same_calls idle_same_calls)
qed

lemma run_timeout_closure_inv:
  assumes "run_timeout_closure co t w = Inr w'" "inv strict X w" "idle X w (tc_this t)" "counters_ok w"
  shows "inv strict X w'"
proof -
  define w1 where "w1 = (case tc_cb t of None \<Rightarrow> w | Some f \<Rightarrow> log_event (TimeoutCb (tc_this t)) (run_user f w))"
  have s: "same_calls w w1"
    by (simp add: w1_def same_calls_def moves_def put_defs split: option.splits)
  then have i: "inv strict X w1" "idle X w1 (tc_this t)" "counters_ok w1"
    using assms by (simp_all add: inv_same_calls idle_same_calls) (simp add: counters_ok_def same_calls_def)
  have d: "request_call co (tc_this t) None w2 = Inr w' \<Longrightarrow> inv strict X w'"
    if r: "on_req (tc_this t) (\<lambda>q. q\<lparr>retry_count := retry_count q - 1\<rparr>) w1 = Inr w2" for w2
  proof -
    have "inv strict X w2 \<and> same_but_req (tc_this t) w1 w2"
      using on_req_inv [OF r i(1)] i(2) by (auto simp: handles_ok_def)
    moreover from this have "idle X w2 (tc_this t)"
      using i idle_same_but [of "tc_this t" w1 w2 X "tc_this t"] by simp
    moreover have "counters_ok w2" using calculation(1) i by (simp add: counters_ok_def same_but_req_def)
    ultimately show "request_call co (tc_this t) None w2 = Inr w' \<Longrightarrow> inv strict X w'"
      using request_call_inv by blast
  qed
  from assms(1) [unfolded run_timeout_closure_def Let_def, folded w1_def]
  consider "request_call co (tc_this t) None w1 = Inr w'"
    | w2 where "on_req (tc_this t) (\<lambda>q. q\<lparr>retry_count := retry_count q - 1\<rparr>) w1 = Inr w2"
        "request_call co (tc_this t) None w2 = Inr w'"
    | "on_finish (tc_this t) timeout w1 = Inr w'"
    by (auto simp: with_req_def split: option.splits if_splits)
  then show ?thesis
    using request_call_inv [OF _ i] d on_finish_inv [OF _ i(1,2)] by cases auto
qed

text \<open>Erasing an entry restores the invariant for it.\<close>

lemma erase_inv:
  assumes "inv strict (insert (r, s) X) w" "rpcs w r = Some x" "w' = put_dispatcher r x (erase_rsp s (dispatcher x)) w"
  shows "inv strict X w'"
proof -
  have e: "entry w' = (\<lambda>r' s'. if r' = r \<and> s' = s then None else entry w r' s')"
    and f: "reqs w' = reqs w" "timers w' = timers w" "next_req w' = next_req w"
    using assms(2,3) by (auto simp: fun_eq_iff entry_def put_dispatcher_def put_rpc_def)
  have "inv_req w'" using assms(1) by (simp add: inv_def inv_req_def f)
  moreover have "inv_entry strict X w'"
    using inv_entryD [OF assms(1)] unfolding inv_entry_def e f by (auto split: if_splits)
  moreover have "inv_unique X w'"
    unfolding inv_unique_def e
  proof (intro allI impI)
    fix r1 s1 h1 r2 s2 h2
    assume a: "(if r1 = r \<and> s1 = s then None else entry w r1 s1) = Some (Some h1)"
      "(if r2 = r \<and> s2 = s then None else entry w r2 s2) = Some (Some h2)"
      "(r1, s1) \<notin> X" "(r2, s2) \<notin> X" "rh_this h1 = rh_this h2"
    show "r1 = r2 \<and> s1 = s2"
      using inv_uniqueD [OF assms(1), of r1 s1 h1 r2 s2 h2] a by (auto split: if_splits)
  qed
  moreover have "inv_timer X w'"
    using inv_timerD [OF assms(1)] unfolding inv_timer_def e f by (auto split: if_splits)
  moreover have "inv_seq w'"
    unfolding inv_seq_def
  proof (intro allI impI)
    fix r' x'
    assume "rpcs w' r' = Some x'"
    then obtain y where y: "rpcs w r' = Some y" "rpc_seq y = rpc_seq x'"
      using assms(2,3) by (cases "r' = r") (auto simp: put_rpc_def put_dispatcher_def)
    show "(\<forall>s. entry w' r' s \<noteq> None \<longrightarrow> s < rpc_seq x') \<and>
        (\<forall>t\<in>set (timers w'). t_dispatcher t = r' \<longrightarrow> t_seq t < rpc_seq x')"
      using inv_seqD [OF assms(1) y(1)] y(2) unfolding e f by auto
  qed
  ultimately show ?thesis by (simp add: inv_def)
qed

lemma inv_mono: "inv strict X w \<Longrightarrow> X \<subseteq> Y \<Longrightarrow> inv strict Y w"
  unfolding inv_def inv_entry_def inv_unique_def inv_timer_def by blast

lemma idle_mono: "idle X w i \<Longrightarrow> X \<subseteq> Y \<Longrightarrow> idle Y w i"
  unfolding idle_def by blast

text \<open>The owner of an entry has no other.\<close>

lemma idle_owner:
  assumes "inv strict X w" "entry w r s = Some (Some h)" "(r, s) \<notin> X"
  shows "idle (insert (r, s) X) w (rh_this h)"
  using inv_uniqueD [OF assms(1) _ assms(2) _ assms(3)] unfolding idle_def by auto

lemma dispatch_response_inv:
  assumes "dispatch_response r (dispatcher x) msg w = Inr w'" "inv strict {} w" "rpcs w r = Some x"
  shows "inv strict {} w'"
proof (cases "rsp_handle_map (dispatcher x) (m_seq msg)")
  case None
  with assms show ?thesis by (simp add: dispatch_response_def)
next
  case (Some e)
  with assms(3) have e: "entry w r (m_seq msg) = Some e" by (simp add: entry_def)
  with inv_entryD [OF assms(2)] obtain h where h: "e = Some h" by blast
  with Some assms(1) obtain b w1 y where w1: "run_rsp_handle h msg w = Inr (b, w1)"
      "rpcs w1 r = Some y" "w' = put_dispatcher r y (erase_rsp (m_seq msg) (dispatcher y)) w1"
    by (auto simp: dispatch_response_def res_simps)
  with run_rsp_handle_inv [OF w1(1) inv_mono [OF assms(2) empty_subsetI] idle_owner [OF assms(2)]] e h
  show ?thesis by (blast intro: erase_inv)
qed

lemma fire_timer_inv:
  assumes "fire_timer co t w = Inr w'" "inv strict {} w" "counters_ok w"
    and t: "\<And>h. entry w (t_dispatcher t) (t_seq t) = Some (Some h) \<Longrightarrow>
      \<exists>tc. t_cb t = Some tc \<and> tc_this tc = rh_this h"
  shows "inv strict {} w'"
proof (cases "entry w (t_dispatcher t) (t_seq t)")
  case None
  with assms(1,2) show ?thesis by (auto simp: fire_timer_def entry_def split: option.splits)
next
  case (Some e)
  with inv_entryD [OF assms(2)] obtain h where h: "e = Some h" by blast
  with t Some obtain tc where tc: "t_cb t = Some tc" "tc_this tc = rh_this h" by auto
  from Some assms(1) tc obtain w1 y where w1: "run_timeout_closure co tc w = Inr w1"
      "rpcs w1 (t_dispatcher t) = Some y"
      "w' = put_dispatcher (t_dispatcher t) y (erase_rsp (t_seq t) (dispatcher y)) w1"
    by (auto simp: fire_timer_def entry_def res_simps split: option.splits)
  have "idle {(t_dispatcher t, t_seq t)} w (tc_this tc)"
    using idle_owner [OF assms(2)] Some h tc by simp
  from run_timeout_closure_inv [OF w1(1) inv_mono [OF assms(2) empty_subsetI] this assms(3)] w1(2,3)
  show ?thesis by (blast intro: erase_inv)
qed

section \<open>Commands leave the calls alone\<close>

lemma rr_release_same [simp]: "same_calls w (rr_release k x w)"
  by (simp add: rr_release_def same_calls_def moves_def put_defs)

lemma send_msg_same: "send_msg co c m w = Inr w' \<Longrightarrow> same_calls w w'"
  by (auto simp: send_msg_def res_simps dest: send_package_same)

lemma run_send_async_same: "run_send_async co f d w = Inr w' \<Longrightarrow> same_calls w w'"
  by (cases f) (auto simp: run_send_async_def res_simps Let_def split: if_splits dest: send_package_same)

lemma rr_rsp_same: "rr_rsp co k d w = Inr w' \<Longrightarrow> same_calls w w'"
  by (auto simp: rr_rsp_def res_simps Let_def split: option.splits if_splits
      dest!: run_send_async_same intro: same_calls_trans [OF same_calls_user(4)])

lemma rr_drop_same: "rr_drop k w = Inr w' \<Longrightarrow> same_calls w w'"
  by (auto simp: rr_drop_def split: option.splits)

lemma run_handler_same:
  assumes "run_handler co k f w = Inr w'"
  shows "same_calls w w'"
proof -
  let ?w = "w\<lparr>user := h_user (f (user w))\<rparr>"
  from assms obtain w1 where w1: "(case h_rsp (f (user w)) of None \<Rightarrow> Inr ?w | Some d \<Rightarrow> rr_rsp co k d ?w) = Inr w1"
      "w' = w1 \<or> rr_drop k w1 = Inr w'"
    by (auto simp: run_handler_def Let_def res_simps split: if_splits)
  have "same_calls w ?w" by (simp add: same_calls_def moves_def)
  moreover have "same_calls ?w w1" using w1(1) rr_rsp_same by (auto split: option.splits)
  moreover have "same_calls w1 w'" using w1(2) rr_drop_same by auto
  ultimately show ?thesis by (blast intro: same_calls_trans)
qed

lemma run_cmd_handle_same:
  assumes "run_cmd_handle co fn msg w = Inr (resp, w')"
  shows "same_calls w w'"
proof (cases fn)
  case (SyncHandle f)
  with assms show ?thesis by (auto simp: run_cmd_handle_def res_simps same_calls_def moves_def)
next
  case (AsyncHandle sch f)
  let ?w = "put_rr (next_rr w) (new_rr\<lparr>rsp_set := True\<rparr>) (w\<lparr>next_rr := next_rr w + 1\<rparr>)"
  have a: "same_calls w ?w" by (simp add: same_calls_def moves_def put_defs)
  from assms AsyncHandle obtain ok h where f: "f (m_data msg) = Inr (ok, h)"
      and w': "(if ok then if sch then Inr (?w\<lparr>jobs := jobs ?w @ [(next_rr w, h)]\<rparr>) else run_handler co (next_rr w) h ?w
         else Inr (w\<lparr>next_rr := next_rr w + 1\<rparr>)) = Inr w'"
    unfolding run_cmd_handle_def run_async_handle_def Let_def by (auto simp: res_simps)
  show ?thesis
  proof (cases "ok \<and> \<not> sch")
    case True
    with w' have "run_handler co (next_rr w) h ?w = Inr w'" by simp
    from run_handler_same [OF this] a show ?thesis by (rule same_calls_trans [rotated])
  next
    case False
    with w' show ?thesis by (auto simp: same_calls_def moves_def put_defs split: if_splits)
  qed
qed

lemma respond_same: "respond co c resp w = Inr w' \<Longrightarrow> same_calls w w'"
  by (auto simp: respond_def Let_def split: response_state.splits option.splits if_splits
      dest!: send_msg_same intro: same_calls_trans [OF rr_release_same])

lemma dispatch_command_same:
  assumes "dispatch_command co d msg w = Inr w'"
  shows "same_calls w w'"
proof (cases "has_flag (m_type msg) ping \<or> cmd_handle_map d (m_cmd msg) = None")
  case True
  with assms show ?thesis
    by (auto simp: dispatch_command_def Let_def split: if_splits dest: send_msg_same)
next
  case False
  then obtain fn where fn: "cmd_handle_map d (m_cmd msg) = Some fn" by auto
  with False assms obtain resp w1 where w1: "run_cmd_handle co fn msg w = Inr (resp, w1)"
      "w' = w1 \<or> respond co (dispatcher_conn d) (snd resp) w1 = Inr w'"
    by (auto simp: dispatch_command_def Let_def res_simps split: if_splits)
  from run_cmd_handle_same [OF w1(1)] w1(2) respond_same show ?thesis
    by (blast intro: same_calls_trans)
qed

lemma recv_package_inv:
  assumes "recv_package co c p w = Inr w'" "inv strict {} w"
  shows "inv strict {} w'"
proof -
  from assms(1) obtain x where x: "conns w c = Some x" by (auto simp: recv_package_def res_simps)
  have "w' = w \<or> (\<exists>r m. dispatch co r m w = Inr w')"
    using assms(1) x
    by (cases "on_recv_package x")
      (auto simp: recv_package_def res_simps split: option.split_asm if_split_asm)
  then consider "w' = w" | r m where "dispatch co r m w = Inr w'" by blast
  then show ?thesis
  proof cases
    case 1
    then show ?thesis using assms(2) by simp
  next
    case 2
    then obtain x where x: "rpcs w r = Some x" and "w' = w \<or> dispatch_command co (dispatcher x) m w = Inr w' \<or>
        dispatch_response r (dispatcher x) m w = Inr w'"
      by (auto simp: dispatch_def res_simps Let_def split: if_splits)
    then consider "same_calls w w'" | "dispatch_response r (dispatcher x) m w = Inr w'"
      using dispatch_command_same [of co "dispatcher x" m w w'] by auto
    then show ?thesis
      using dispatch_response_inv [OF _ assms(2) x] inv_same_calls [of w w' strict "{}"] assms(2) by cases auto
  qed
qed

lemma elapse_inv:
  assumes "elapse co n w = Inr w'" "inv strict {} w" "counters_ok w"
  shows "inv strict {} w'"
proof (cases "n < length (timers w)")
  case False
  with assms show ?thesis by (simp add: elapse_def)
next
  case True
  define w1 where "w1 = w\<lparr>timers := take n (timers w) @ drop (Suc n) (timers w)\<rparr>"
  have sub: "set (timers w1) \<subseteq> set (timers w)"
    by (auto simp: w1_def dest: in_set_takeD in_set_dropD)
  have e: "entry w1 = entry w" "reqs w1 = reqs w" "rpcs w1 = rpcs w" "next_req w1 = next_req w"
    by (auto simp: w1_def fun_eq_iff entry_def)
  have "inv strict {} w1"
    using assms(2) sub unfolding inv_def inv_defs e by blast
  moreover have "fire_timer co (timers w ! n) w1 = Inr w'"
    using assms(1) True by (simp add: elapse_def w1_def)
  moreover have "counters_ok w1" using assms(3) by (simp add: counters_ok_def e)
  ultimately show ?thesis
    using inv_timerD [OF assms(2) nth_mem [OF True]] e(1) fire_timer_inv [of co "timers w ! n" w1 w'] by simp
qed

section \<open>Programs\<close>

text \<open>The setters a user can call on a request.\<close>

datatype 'u setting =
    SetCmd cmd_type
  | SetPayload bytes
  | SetRsp "'u rsp_cb"
  | MarkNeedRsp
  | SetFinally "finally_t \<Rightarrow> 'u \<Rightarrow> 'u"
  | SetFinally0 "'u \<Rightarrow> 'u"
  | SetPing
  | SetTimeoutMs u32
  | SetTimeout "('u \<Rightarrow> 'u) option"
  | SetRetry int
  | DisableRsp
  | EnableRsp
  | SetRpc "nat option"
  | SetCanceled bool

fun apply_setting :: "nat \<Rightarrow> 'u setting \<Rightarrow> 'u request \<Rightarrow> 'u request" where
  "apply_setting i (SetCmd c) q = req_set_cmd c q"
| "apply_setting i (SetPayload b) q = q\<lparr>payload := b\<rparr>"
| "apply_setting i (SetRsp cb) q = req_rsp i cb q"
| "apply_setting i MarkNeedRsp q = req_mark_need_rsp i q"
| "apply_setting i (SetFinally f) q = req_finally f q"
| "apply_setting i (SetFinally0 f) q = req_finally0 f q"
| "apply_setting i SetPing q = req_ping q"
| "apply_setting i (SetTimeoutMs ms) q = req_timeout_ms ms q"
| "apply_setting i (SetTimeout cb) q = req_timeout i cb q"
| "apply_setting i (SetRetry n) q = req_retry n q"
| "apply_setting i DisableRsp q = req_disable_rsp q"
| "apply_setting i EnableRsp q = req_enable_rsp q"
| "apply_setting i (SetRpc r) q = req_set_rpc r q"
| "apply_setting i (SetCanceled b) q = req_canceled b q"

lemmas setter_defs =
  req_set_cmd_def req_rsp_def req_mark_need_rsp_def req_finally_def req_finally0_def req_ping_def
  req_timeout_ms_def req_timeout_def req_retry_def req_disable_rsp_def req_enable_rsp_def
  req_set_rpc_def req_canceled_def

lemma apply_setting_ok:
  "handles_ok i q \<Longrightarrow> handles_ok i (apply_setting i s q)" "held strict (apply_setting i s q) = held strict q"
  by (cases s; simp add: setter_defs handles_ok_def held_def)+

text \<open>
  One step of a program or of its environment: packages arrive, with any bytes, and timers elapse, in
  any order; a new call of a request waits for the end of the last one, and no counter of an rpc
  object wraps around. Under the \<open>strict\<close> discipline \<open>cancel\<close> is not called on a waiting request (the
  flag may be set at any time). The other one allows it: then the program keeps a pointer to the
  request, and does not call it again, while a table has an entry for it.
\<close>

inductive step :: "bool \<Rightarrow> coder \<Rightarrow> 'u world \<Rightarrow> 'u world \<Rightarrow> bool" for strict co where
  create: "step strict co w (snd (create_request r w))"
| copy: "on_req i (\<lambda>q. q\<lparr>refs := refs q + 1\<rparr>) w = Inr w' \<Longrightarrow> step strict co w w'"
| drop: "reqs w i = Some q \<Longrightarrow> 0 < refs q \<Longrightarrow> strict \<or> waiting_rsp q \<or> 1 < refs q \<or> idle {} w i \<Longrightarrow>
    drop_ref i w = Inr w' \<Longrightarrow> step strict co w w'"
| setting: "on_req i (apply_setting i s) w = Inr w' \<Longrightarrow> step strict co w w'"
| user_call: "reqs w i = Some q \<Longrightarrow> \<not> waiting_rsp q \<Longrightarrow> strict \<or> idle {} w i \<Longrightarrow> counters_ok w \<Longrightarrow>
    user_call co i rpc w = Inr w' \<Longrightarrow> step strict co w w'"
| cancel: "reqs w i = Some q \<Longrightarrow> \<not> waiting_rsp q \<or> \<not> strict \<and> 0 < refs q \<Longrightarrow>
    request_cancel i w = Inr w' \<Longrightarrow> step strict co w w'"
| connection: "step strict co w (open_connection c x w)"
| rpc_create: "rpcs w r = None \<Longrightarrow> \<forall>t\<in>set (timers w). t_dispatcher t \<noteq> r \<Longrightarrow>
    rpc_create r c w = Inr w' \<Longrightarrow> step strict co w w'"
| rpc_destroy: "step strict co w (rpc_destroy r w)"
| set_timer: "on_rpc r (rpc_set_timer t) w = Inr w' \<Longrightarrow> step strict co w w'"
| set_ready: "on_rpc r (rpc_set_ready b) w = Inr w' \<Longrightarrow> step strict co w w'"
| subscribe: "on_rpc r (rpc_subscribe cmd h) w = Inr w' \<Longrightarrow> step strict co w w'"
| unsubscribe: "on_rpc r (rpc_unsubscribe cmd) w = Inr w' \<Longrightarrow> step strict co w w'"
| package: "recv_package co c p w = Inr w' \<Longrightarrow> step strict co w w'"
| elapse: "counters_ok w \<Longrightarrow> elapse co n w = Inr w' \<Longrightarrow> step strict co w w'"
| job: "run_job co n w = Inr w' \<Longrightarrow> step strict co w w'"
| response: "rr_rsp co k d w = Inr w' \<Longrightarrow> step strict co w w'"
| drop_rr: "rr_drop k w = Inr w' \<Longrightarrow> step strict co w w'"
| user: "step strict co w (w\<lparr>user := u\<rparr>)"

inductive reachable :: "bool \<Rightarrow> coder \<Rightarrow> 'u world \<Rightarrow> bool" for strict co where
  init: "reachable strict co (empty_world u)"
| step: "reachable strict co w \<Longrightarrow> step strict co w w' \<Longrightarrow> reachable strict co w'"

lemma inv_empty: "inv strict {} (empty_world u)"
  by (simp add: inv_def inv_defs entry_def empty_world_def)

text \<open>An rpc object changed without touching its counter and its response table.\<close>

lemma on_rpc_inv:
  assumes "on_rpc r f w = Inr w'" "inv strict X w"
    and "\<And>x. rpc_seq (f x) = rpc_seq x \<and> rsp_handle_map (dispatcher (f x)) = rsp_handle_map (dispatcher x)"
  shows "inv strict X w'"
proof -
  from assms(1) obtain x where x: "rpcs w r = Some x" "w' = put_rpc r (f x) w"
    by (auto simp: on_rpc_def res_simps)
  have e: "entry w' = entry w" and f: "reqs w' = reqs w" "timers w' = timers w" "next_req w' = next_req w"
    using x assms(3) by (auto simp: fun_eq_iff entry_def put_rpc_def)
  have "inv_seq w'"
    unfolding inv_seq_def e f
  proof (intro allI impI)
    fix r' x'
    assume "rpcs w' r' = Some x'"
    then obtain y where y: "rpcs w r' = Some y" "rpc_seq y = rpc_seq x'"
      using x assms(3) by (cases "r' = r") (auto simp: put_rpc_def)
    then show "(\<forall>s. entry w r' s \<noteq> None \<longrightarrow> s < rpc_seq x') \<and>
        (\<forall>t\<in>set (timers w). t_dispatcher t = r' \<longrightarrow> t_seq t < rpc_seq x')"
      using inv_seqD [OF assms(2) y(1)] by auto
  qed
  with assms(2) show ?thesis
    by (simp add: inv_def inv_req_def inv_entry_def inv_unique_def inv_timer_def e f)
qed

lemma rpc_create_inv:
  assumes "rpc_create r c w = Inr w'" "inv strict X w" "rpcs w r = None"
    and "\<forall>t\<in>set (timers w). t_dispatcher t \<noteq> r"
  shows "inv strict X w'"
proof -
  from assms(1) have w': "rpcs w' = (rpcs w)(r \<mapsto> new_rpc c)" "reqs w' = reqs w" "timers w' = timers w"
      "next_req w' = next_req w"
    by (auto simp: rpc_create_def res_simps put_defs)
  then have e: "entry w' = entry w"
    using assms(3) by (auto simp: fun_eq_iff entry_def new_rpc_def new_dispatcher_def)
  have "inv_seq w'"
    using assms(2-4) w' unfolding inv_def inv_seq_def e by (auto simp: entry_def)
  with assms(2) show ?thesis
    by (simp add: inv_def inv_req_def inv_entry_def inv_unique_def inv_timer_def e w')
qed

lemma rpc_destroy_inv:
  assumes "inv strict X w"
  shows "inv strict X (rpc_destroy r w)"
proof -
  let ?w = "rpc_destroy r w"
  have f: "reqs ?w = reqs w" "timers ?w = timers w" "next_req ?w = next_req w"
    "rpcs ?w = (rpcs w)(r := None)" by (simp_all add: rpc_destroy_def)
  have e: "entry ?w = (\<lambda>r' s. if r' = r then None else entry w r' s)"
    by (auto simp: fun_eq_iff entry_def rpc_destroy_def)
  have "inv_unique X ?w"
    using inv_uniqueD [OF assms] unfolding inv_unique_def e by (auto split: if_splits)
  moreover have "inv_req ?w \<and> inv_entry strict X ?w \<and> inv_timer X ?w \<and> inv_seq ?w"
    using assms unfolding inv_def inv_req_def inv_entry_def inv_timer_def inv_seq_def e f by auto
  ultimately show ?thesis by (simp add: inv_def)
qed

lemma create_request_inv:
  assumes "inv strict X w"
  shows "inv strict X (snd (create_request r w))"
proof -
  let ?w = "snd (create_request r w)"
  have f: "rpcs ?w = rpcs w" "timers ?w = timers w" "next_req ?w = next_req w + 1"
    "reqs ?w = (reqs w)(next_req w \<mapsto> req_timeout (next_req w) None (new_request r))"
    by (simp_all add: create_request_def Let_def put_req_def)
  have e: "entry ?w = entry w" by (simp add: fun_eq_iff entry_def f)
  have n: "reqs w (next_req w) = None"
    using assms unfolding inv_def inv_req_def by (metis not_None_eq order_less_irrefl)
  have "handles_ok (next_req w) (req_timeout (next_req w) None (new_request r))"
    by (simp add: handles_ok_def req_timeout_def new_request_def)
  then have "inv_req ?w"
    using assms unfolding inv_def inv_req_def f by (auto intro: less_SucI)
  moreover have "inv_entry strict X ?w"
    using assms n unfolding inv_def inv_entry_def e f by fastforce
  ultimately show ?thesis
    using assms by (simp add: inv_def inv_unique_def inv_timer_def inv_seq_def e f)
qed

lemma drop_ref_inv:
  assumes "drop_ref i w = Inr w'" "inv strict X w" "reqs w i = Some q"
    and "strict \<or> waiting_rsp q \<or> 1 < refs q \<or> idle X w i"
  shows "inv strict X w'"
proof -
  from assms(1,3) have q: "w' = (if refs q \<le> 1 \<and> \<not> self_keeper q then w\<lparr>reqs := (reqs w)(i := None)\<rparr>
      else put_req i (q\<lparr>refs := refs q - 1\<rparr>) w)"
    by (auto simp: drop_ref_def split: if_splits)
  have sb: "same_but_req i w w'" using q by (simp add: same_but_req_def put_req_def)
  show ?thesis
    using assms(2) sb
    by (rule inv_change_req)
      (use q inv_reqD [OF assms(2,3)] assms(3,4)
        in \<open>auto simp: put_req_def handles_ok_def held_def split: if_splits\<close>)
qed

text \<open>Under the strict discipline a request with an entry waits.\<close>

lemma not_waiting_idle: "inv strict {} w \<Longrightarrow> strict \<Longrightarrow> reqs w i = Some q \<Longrightarrow> \<not> waiting_rsp q \<Longrightarrow> idle {} w i"
  unfolding idle_def
proof (intro allI impI notI)
  fix r s h
  assume a: "inv strict {} w" "strict" "reqs w i = Some q" "\<not> waiting_rsp q" "entry w r s = Some (Some h)" "rh_this h = i"
  from inv_entryD [OF a(1,5)] a(2-4,6) show False by (auto simp: held_def)
qed

lemma user_call_inv:
  assumes "user_call co i rpc w = Inr w'" "inv strict {} w" "idle {} w i" "counters_ok w"
  shows "inv strict {} w'"
proof -
  have "counters_ok (log_event (event.Call i) w)"
    using assms(4) by (simp add: counters_ok_def log_event_def)
  with assms(1-3) request_call_inv [of co i rpc "log_event (event.Call i) w" w' strict "{}"] show ?thesis
    by (simp add: user_call_def)
qed

lemma on_finish_keeps:
  assumes "on_finish i ty w = Inr w'" "inv False X w" "reqs w i = Some q" "0 < refs q"
  shows "inv False X w'"
proof -
  note f = on_finish_frame [OF assms(1)]
  have "\<exists>q'. reqs w' i = Some q' \<and> (held False q \<longrightarrow> held False q')"
    using assms(1,3,4)
    by (auto simp: on_finish_def release_keeper_def Let_def put_defs held_def split: if_splits option.splits)
  with assms(2) f(1) show ?thesis
    by (rule_tac inv_change_req) (use f assms(3) inv_reqD [OF assms(2)] in auto)
qed

lemma request_cancel_inv:
  assumes "request_cancel i w = Inr w'" "inv strict {} w" "reqs w i = Some q"
    and "\<not> waiting_rsp q \<or> \<not> strict \<and> 0 < refs q"
  shows "inv strict {} w'"
proof -
  from assms(1) obtain w1 where w1: "on_req i (req_canceled True) w = Inr w1" "on_finish i canceled w1 = Inr w'"
    by (auto simp: request_cancel_def)
  from on_req_inv [OF w1(1) assms(2)] assms(3)
  have i: "inv strict {} w1" and q: "reqs w1 i = Some (req_canceled True q)"
    by (auto simp: req_canceled_def handles_ok_def held_def)
  show ?thesis
  proof (cases "waiting_rsp q")
    case False
    with w1(2) q on_finish_ignored [OF q] i show ?thesis by (simp add: req_canceled_def)
  next
    case True
    with assms(4) i q on_finish_keeps [OF w1(2) _ q] show ?thesis by (simp add: req_canceled_def)
  qed
qed

theorem step_inv: "step strict co w w' \<Longrightarrow> inv strict {} w \<Longrightarrow> inv strict {} w'"
proof (induction rule: step.induct)
  case (user_call w i q rpc w')
  then show ?case using user_call_inv not_waiting_idle by blast
next
  case (cancel w i q w')
  then show ?case using request_cancel_inv by blast
next
  case (drop w i q w')
  then show ?case using drop_ref_inv by blast
next
  case (copy i w w')
  then show ?case using on_req_inv [OF copy.hyps] by (auto simp: handles_ok_def held_def)
next
  case (setting i s w w')
  then show ?case using on_req_inv [OF setting.hyps] by (auto simp: apply_setting_ok)
next
  case (job n w w')
  have "same_calls w w'"
  proof (cases "n < length (jobs w)")
    case True
    with job.hyps obtain k h where "run_handler co k h (w\<lparr>jobs := take n (jobs w) @ drop (Suc n) (jobs w)\<rparr>) = Inr w'"
      by (cases "jobs w ! n") (auto simp: run_job_def)
    from run_handler_same [OF this] show ?thesis by (simp add: same_calls_def moves_def)
  qed (use job.hyps in \<open>simp add: run_job_def\<close>)
  with job.prems show ?case by (simp add: inv_same_calls)
next
  case (connection w c x)
  then show ?case by (simp add: open_connection_def inv_same_calls [OF same_calls_user(3)])
next
  case (response k d w w')
  then show ?case using rr_rsp_same inv_same_calls by blast
next
  case (drop_rr k w w')
  then show ?case using rr_drop_same inv_same_calls by blast
next
  case (user w u)
  then show ?case using inv_same_calls [of w "w\<lparr>user := u\<rparr>"] by (simp add: same_calls_def moves_def)
qed (auto intro: create_request_inv rpc_create_inv rpc_destroy_inv recv_package_inv elapse_inv
    on_rpc_inv simp: rpc_set_timer_def set_timer_impl_def rpc_set_ready_def rpc_subscribe_def subscribe_cmd_def
    rpc_unsubscribe_def unsubscribe_cmd_def split: option.splits)

lemma reachable_inv: "reachable strict co w \<Longrightarrow> inv strict {} w"
  by (induction rule: reachable.induct) (auto intro: inv_empty step_inv)

text \<open>A program that keeps the strict discipline keeps the other one.\<close>

lemma strict_step: "step True co w w' \<Longrightarrow> inv True {} w \<Longrightarrow> step False co w w'"
proof (induction rule: step.induct)
  case (drop w i q w')
  then show ?case using not_waiting_idle step.drop [where strict = False] by blast
next
  case (user_call w i q rpc w')
  then show ?case using not_waiting_idle step.user_call [where strict = False] by blast
qed (auto intro: step.intros)

lemma strict_reachable: "reachable True co w \<Longrightarrow> reachable strict co w"
proof (cases strict)
  case False
  assume "reachable True co w"
  then have "reachable False co w"
  proof (induction rule: reachable.induct)
    case (init u)
    show ?case by (rule reachable.init)
  next
    case (step w w')
    then show ?case using strict_step reachable_inv reachable.step by blast
  qed
  with False show ?thesis by simp
qed simp

section \<open>Nothing is used after its destruction\<close>

text \<open>The connections of the rpc objects are there and can send.\<close>

definition conns_ok :: "'u world \<Rightarrow> bool" where
  "conns_ok w \<longleftrightarrow>
     (\<forall>r x. rpcs w r = Some x \<longrightarrow>
        (\<exists>c. conns w (rpc_conn x) = Some c \<and> send_package_impl c \<noteq> NoSend))"

lemma on_finish_total: "reqs w i = Some q \<Longrightarrow> \<exists>w'. on_finish i ty w = Inr w'"
  by (auto simp: on_finish_def release_keeper_def Let_def put_defs split: option.splits)

lemma send_package_total:
  "conns w c = Some x \<Longrightarrow> send_package_impl x \<noteq> NoSend \<Longrightarrow> \<exists>w'. send_package c p w = Inr w'"
  by (cases "send_package_impl x") (auto simp: send_package_def)

lemma call_through_total:
  assumes co: "total_coder co" and x: "rpcs w r = Some x" and q: "reqs w i = Some q"
    and c: "conns w (rpc_conn x) = Some c" "send_package_impl c \<noteq> NoSend"
  shows "\<exists>w'. call_through co i r w = Inr w'"
proof -
  define q1 where "q1 = q\<lparr>req_seq := rpc_seq x\<rparr>"
  define x1 where "x1 = x\<lparr>rpc_seq := rpc_seq x + 1\<rparr>"
  define w1 where "w1 = put_req i q1 (put_rpc r x1 w)"
  define dts where "dts = (if need_rsp_flag q1
      then subscribe_rsp r (req_seq q1) (rsp_handle q1) (timeout_cb q1) (timeout_ms q1) (dispatcher x1)
      else (dispatcher x1, []))"
  define w2 where "w2 = (put_dispatcher r x1 (fst dts) w1)\<lparr>timers := timers w1 @ snd dts\<rparr>"
  obtain b where b: "co_serialize co (request_msg q1) = Inr b" using co by (auto simp: total_coder_def)
  have "conns w2 (rpc_conn x1) = Some c"
    using c(1) by (simp add: w2_def w1_def x1_def put_defs put_dispatcher_def)
  then obtain w3 where w3: "send_package (rpc_conn x1) b w2 = Inr w3" using send_package_total c(2) by blast
  have s: "send_request co r i w1 = Inr w3"
    using b w3
    by (simp add: send_request_def w1_def put_defs put_dispatcher_def dts_def [symmetric] case_prod_beta
        w2_def Let_def)
  have "reqs w3 i = Some q1"
    using send_package_frame(2) [OF w3] by (simp add: w2_def w1_def put_defs put_dispatcher_def)
  with on_finish_total s x q show ?thesis
    by (auto simp: call_through_def make_seq_def on_req_def put_defs w1_def q1_def x1_def)
qed

lemma request_call_total:
  assumes co: "total_coder co" and ok: "conns_ok w" and q: "reqs w i = Some q"
  shows "\<exists>w'. request_call co i None w = Inr w'"
proof -
  define q2 where "q2 = q\<lparr>waiting_rsp := True, self_keeper := True\<rparr>"
  define w1 where "w1 = put_req i (q\<lparr>waiting_rsp := True\<rparr>) w"
  define w2 where "w2 = put_req i q2 w1"
  have r: "reqs w1 i = Some (q\<lparr>waiting_rsp := True\<rparr>)" "reqs w2 i = Some q2"
      "rpcs w2 = rpcs w" "conns w2 = conns w"
    by (simp_all add: w1_def w2_def put_defs)
  have e: "request_call co i None w =
      (if canceled_flag q then on_finish i canceled w1
       else case rpc_lock q2 w2 of
              None \<Rightarrow> on_finish i rpc_expired w2
            | Some r \<Rightarrow>
                with_rpc r w2 (\<lambda>x.
                  if \<not> rpc_is_ready x then on_finish i rpc_not_ready w2
                  else call_through co i r w2))"
    using q by (simp add: request_call_def on_req_def w1_def w2_def q2_def put_defs Let_def
        cong: option.case_cong if_cong)
  show ?thesis
  proof (cases "canceled_flag q \<or> rpc_lock q2 w2 = None")
    case True
    with e on_finish_total r show ?thesis by auto
  next
    case False
    then obtain r' where l: "rpc_lock q2 w2 = Some r'" by auto
    then obtain x where x: "rpcs w2 r' = Some x"
      by (auto simp: rpc_lock_def split: option.splits if_splits)
    then obtain c where c: "conns w2 (rpc_conn x) = Some c" "send_package_impl c \<noteq> NoSend"
      using ok r by (auto simp: conns_ok_def)
    from call_through_total [OF co x r(2) c] on_finish_total [OF r(2)] False l x e show ?thesis by simp
  qed
qed

lemma run_timeout_closure_total:
  assumes "total_coder co" "conns_ok w" "reqs w (tc_this t) = Some q"
  shows "\<exists>w'. run_timeout_closure co t w = Inr w'"
proof -
  define w1 where "w1 = (case tc_cb t of None \<Rightarrow> w | Some f \<Rightarrow> log_event (TimeoutCb (tc_this t)) (run_user f w))"
  define w2 where "w2 = put_req (tc_this t) (q\<lparr>retry_count := retry_count q - 1\<rparr>) w1"
  have r: "reqs w1 = reqs w" "rpcs w1 = rpcs w" "conns w1 = conns w"
    by (simp_all add: w1_def put_defs split: option.splits)
  then have c: "conns_ok w1" "conns_ok w2"
    using assms(2) by (simp_all add: conns_ok_def w2_def put_defs)
  have q2: "reqs w2 (tc_this t) = Some (q\<lparr>retry_count := retry_count q - 1\<rparr>)"
    by (simp add: w2_def put_defs)
  have q1: "reqs w1 (tc_this t) = Some q" using r assms(3) by simp
  from request_call_total [OF assms(1) c(1) q1] request_call_total [OF assms(1) c(2) q2]
    on_finish_total [OF q1]
  show ?thesis
    unfolding run_timeout_closure_def Let_def w1_def [symmetric]
    by (simp add: q1 on_req_def w2_def)
qed

text \<open>Neither running a timeout closure nor a call makes an rpc object vanish.\<close>

definition live_rpcs :: "'u world \<Rightarrow> nat set" where
  "live_rpcs w = dom (rpcs w)"

lemma live_rpcs_eq: "rpcs w' = rpcs w \<Longrightarrow> live_rpcs w' = live_rpcs w"
  by (simp add: live_rpcs_def)

lemma live_put_rpc [simp]: "rpcs w r = Some x \<Longrightarrow> live_rpcs (put_rpc r y w) = live_rpcs w"
  by (auto simp: live_rpcs_def put_rpc_def)

lemma live_put_req [simp]: "live_rpcs (put_req i q w) = live_rpcs w"
  by (simp add: live_rpcs_def put_req_def)

lemma live_timers [simp]: "live_rpcs (w\<lparr>timers := ts\<rparr>) = live_rpcs w"
  by (simp add: live_rpcs_def)

lemma on_req_rpcs: "on_req i f w = Inr w' \<Longrightarrow> live_rpcs w' = live_rpcs w"
  by (auto simp: on_req_def res_simps)

lemma on_finish_live: "on_finish i ty w = Inr w' \<Longrightarrow> live_rpcs w' = live_rpcs w"
  by (intro live_rpcs_eq on_finish_rpcs)

lemma make_seq_rpcs: "make_seq r w = Inr (s, w') \<Longrightarrow> live_rpcs w' = live_rpcs w"
  by (auto simp: make_seq_def res_simps)

lemma send_request_rpcs: 
  assumes "send_request co r i w = Inr w'"
  shows "live_rpcs w' = live_rpcs w"
proof -
  from assms obtain x d ts b where "rpcs w r = Some x"
      "send_package (rpc_conn x) b ((put_dispatcher r x d w)\<lparr>timers := ts\<rparr>) = Inr w'"
    by (auto simp: send_request_def res_simps Let_def case_prod_beta put_dispatcher_def)
  from this(1) live_rpcs_eq [OF send_package_frame(1) [OF this(2)]] show ?thesis
    by (simp add: put_dispatcher_def)
qed

lemma call_through_rpcs: "call_through co i r w = Inr w' \<Longrightarrow> live_rpcs w' = live_rpcs w"
  by (auto simp: call_through_def res_simps
      dest!: make_seq_rpcs on_req_rpcs send_request_rpcs on_finish_live split: if_splits)

lemma request_call_rpcs: "request_call co i rpc w = Inr w' \<Longrightarrow> live_rpcs w' = live_rpcs w"
  by (auto simp: request_call_def res_simps Let_def
      dest!: on_req_rpcs call_through_rpcs on_finish_live split: if_splits option.splits)

lemma run_timeout_closure_rpcs:
  assumes "run_timeout_closure co t w = Inr w'"
  shows "live_rpcs w' = live_rpcs w"
proof -
  define w1 where "w1 = (case tc_cb t of None \<Rightarrow> w | Some f \<Rightarrow> log_event (TimeoutCb (tc_this t)) (run_user f w))"
  have "live_rpcs w1 = live_rpcs w"
    by (rule live_rpcs_eq) (simp add: w1_def put_defs split: option.splits)
  with assms [unfolded run_timeout_closure_def Let_def, folded w1_def] show ?thesis
    by (auto simp: res_simps dest!: on_req_rpcs request_call_rpcs on_finish_live split: if_splits)
qed

lemma fire_timer_total:
  assumes "total_coder co" "conns_ok w" "inv strict {} w"
    and t: "\<And>h. entry w (t_dispatcher t) (t_seq t) = Some (Some h) \<Longrightarrow>
      \<exists>tc. t_cb t = Some tc \<and> tc_this tc = rh_this h"
  shows "\<exists>w'. fire_timer co t w = Inr w'"
proof (cases "entry w (t_dispatcher t) (t_seq t)")
  case None
  then show ?thesis by (auto simp: fire_timer_def entry_def split: option.splits)
next
  case (Some e)
  with inv_entryD [OF assms(3)] obtain h q where h: "e = Some h" "reqs w (rh_this h) = Some q" by blast
  with t Some obtain tc where tc: "t_cb t = Some tc" "tc_this tc = rh_this h" by auto
  then obtain w1 where w1: "run_timeout_closure co tc w = Inr w1"
    using run_timeout_closure_total [OF assms(1,2)] h(2) by metis
  from Some obtain x where x: "rpcs w (t_dispatcher t) = Some x" "rsp_handle_map (dispatcher x) (t_seq t) = Some e"
    by (auto simp: entry_def split: option.splits)
  then obtain y where "rpcs w1 (t_dispatcher t) = Some y"
    using run_timeout_closure_rpcs [OF w1] unfolding live_rpcs_def by (metis domD domI)
  with x w1 tc show ?thesis by (simp add: fire_timer_def)
qed

lemma elapse_total:
  assumes "total_coder co" "conns_ok w" "inv strict {} w"
  shows "\<exists>w'. elapse co n w = Inr w'"
proof (cases "n < length (timers w)")
  case True
  define w1 where "w1 = w\<lparr>timers := take n (timers w) @ drop (Suc n) (timers w)\<rparr>"
  have sub: "set (timers w1) \<subseteq> set (timers w)"
    by (auto simp: w1_def dest: in_set_takeD in_set_dropD)
  have e: "entry w1 = entry w" "reqs w1 = reqs w" "rpcs w1 = rpcs w" "next_req w1 = next_req w"
    by (auto simp: w1_def fun_eq_iff entry_def)
  have "inv strict {} w1"
    using assms(3) sub unfolding inv_def inv_defs e by blast
  moreover have "conns_ok w1" using assms(2) by (simp add: conns_ok_def w1_def)
  ultimately have "\<exists>w'. fire_timer co (timers w ! n) w1 = Inr w'"
    using fire_timer_total [OF assms(1), of w1 strict "timers w ! n"] inv_timerD [OF assms(3) nth_mem [OF True]] e(1)
    by simp
  with True show ?thesis by (simp add: elapse_def w1_def)
qed (simp add: elapse_def)

text \<open>What unpacking the data for a callback does.\<close>

fun cb_unpacks :: "'u rsp_cb \<Rightarrow> bytes \<Rightarrow> bool" where
  "cb_unpacks (Rsp2 unpack f) d = (\<exists>x. unpack d = Inr x)"
| "cb_unpacks (Rsp1 unpack) d = (\<exists>x. unpack d = Inr x)"
| "cb_unpacks (Rsp0 f) d = True"

lemma run_rsp_handle_total:
  assumes "reqs w (rh_this h) = Some q" "cb_unpacks (rh_cb h) (m_data msg)"
  shows "\<exists>b w'. run_rsp_handle h msg w = Inr (b, w')"
proof -
  have f: "\<exists>w'. on_finish (rh_this h) ty w1 = Inr w'" if "reqs w1 = reqs w" for ty w1
    using that assms(1) on_finish_total by metis
  have m: "\<not> isl (mapr (Pair b) (on_finish (rh_this h) ty w1))" if "reqs w1 = reqs w" for b ty w1
    using f [OF that, of ty] by auto
  have "\<not> isl (run_rsp_handle h msg w)"
    using assms by (cases "rh_cb h") (auto simp: run_rsp_handle_def Let_def m put_defs split: if_splits)
  then show ?thesis by (cases "run_rsp_handle h msg w") auto
qed

lemma run_rsp_handle_rpcs: "run_rsp_handle h msg w = Inr (b, w') \<Longrightarrow> rpcs w' = rpcs w"
  using run_rsp_handle_cases [of h msg w b w'] by (auto simp: same_calls_def dest: on_finish_rpcs)

lemma dispatch_response_total:
  assumes "inv strict {} w" "rpcs w r = Some x"
    and cb: "\<And>h. rsp_handle_map (dispatcher x) (m_seq msg) = Some (Some h) \<Longrightarrow> cb_unpacks (rh_cb h) (m_data msg)"
  shows "\<exists>w'. dispatch_response r (dispatcher x) msg w = Inr w'"
proof (cases "entry w r (m_seq msg)")
  case None
  with assms(2) show ?thesis by (simp add: dispatch_response_def entry_def)
next
  case (Some e)
  with inv_entryD [OF assms(1)] obtain h q where h: "e = Some h" "reqs w (rh_this h) = Some q" by blast
  with cb Some assms(2) obtain b w1 where "run_rsp_handle h msg w = Inr (b, w1)"
    using run_rsp_handle_total [of w h q msg] by (auto simp: entry_def)
  with Some h assms(2) run_rsp_handle_rpcs [of h msg w b w1] show ?thesis
    by (simp add: dispatch_response_def entry_def)
qed

end
