(* ===== verification/Programs.thy ===== *)
theory Programs
  imports Lifecycle
begin

text \<open>
  Programs as lists of actions, run on a world; what they reach is \<open>reachable\<close> under the strict
  discipline, so that concrete programs are evaluated. And the properties that no captured pointer is
  used after the destruction of its request, under either discipline, with what happens without.
\<close>

section \<open>Running programs\<close>

datatype 'u action =
    Create "nat option"
  | Copy nat
  | Drop nat
  | Setting nat "'u setting"
  | UserCall nat "nat option"
  | Cancel nat
  | OpenConnection nat connection
  | RpcCreate nat nat
  | RpcDestroy nat
  | SetTimer nat bool
  | SetReady nat bool
  | Subscribe nat cmd_type "'u cmd_handle"
  | Unsubscribe nat cmd_type
  | Package nat bytes
  | Elapse nat
  | RunJob nat
  | RrRsp nat "bytes res"
  | RrDrop nat
  | UserState 'u

definition idle_req :: "'u world \<Rightarrow> nat \<Rightarrow> bool" where
  "idle_req w i = (case reqs w i of None \<Rightarrow> False | Some q \<Rightarrow> \<not> waiting_rsp q)"

definition has_ref :: "'u world \<Rightarrow> nat \<Rightarrow> bool" where
  "has_ref w i = (case reqs w i of None \<Rightarrow> False | Some q \<Rightarrow> 0 < refs q)"

definition unused_rpc :: "'u world \<Rightarrow> nat \<Rightarrow> bool" where
  "unused_rpc w r = (rpcs w r = None \<and> list_all (\<lambda>t. t_dispatcher t \<noteq> r) (timers w))"

text \<open>The actions a strict program does not take in the world leave it as it is.\<close>

fun exec :: "coder \<Rightarrow> 'u action \<Rightarrow> 'u world \<Rightarrow> 'u world res" where
  "exec co (Create r) w = Inr (snd (create_request r w))"
| "exec co (Copy i) w = on_req i (\<lambda>q. q\<lparr>refs := refs q + 1\<rparr>) w"
| "exec co (Drop i) w = (if has_ref w i then drop_ref i w else Inr w)"
| "exec co (Setting i s) w = on_req i (apply_setting i s) w"
| "exec co (UserCall i r) w = (if idle_req w i then user_call co i r w else Inr w)"
| "exec co (Cancel i) w = (if idle_req w i then request_cancel i w else Inr w)"
| "exec co (OpenConnection c x) w = Inr (open_connection c x w)"
| "exec co (RpcCreate r c) w = (if unused_rpc w r then rpc_create r c w else Inr w)"
| "exec co (RpcDestroy r) w = Inr (rpc_destroy r w)"
| "exec co (SetTimer r t) w = on_rpc r (rpc_set_timer t) w"
| "exec co (SetReady r b) w = on_rpc r (rpc_set_ready b) w"
| "exec co (Subscribe r cmd h) w = on_rpc r (rpc_subscribe cmd h) w"
| "exec co (Unsubscribe r cmd) w = on_rpc r (rpc_unsubscribe cmd) w"
| "exec co (Package c p) w = recv_package co c p w"
| "exec co (Elapse n) w = elapse co n w"
| "exec co (RunJob n) w = run_job co n w"
| "exec co (RrRsp k d) w = rr_rsp co k d w"
| "exec co (RrDrop k) w = rr_drop k w"
| "exec co (UserState u) w = Inr (w\<lparr>user := u\<rparr>)"

text \<open>Whether a counter is at its end, for the finitely many rpc objects of a program.\<close>

definition counter_ok :: "'u world \<Rightarrow> nat \<Rightarrow> bool" where
  "counter_ok w r = (case rpcs w r of None \<Rightarrow> True | Some x \<Rightarrow> rpc_seq x \<noteq> - 1)"

fun run :: "coder \<Rightarrow> nat \<Rightarrow> 'u action list \<Rightarrow> 'u world \<Rightarrow> 'u world option res" where
  "run co n [] w = Inr (Some w)"
| "run co n (a # as) w =
     (if list_all (counter_ok w) [0..<n]
      then bindr (exec co a w) (run co n as) else Inr None)"

lemma exec_step:
  assumes "exec co a w = Inr w'" "counters_ok w"
  shows "step True co w w' \<or> w' = w"
proof (cases a)
  case (UserCall i r)
  with assms show ?thesis
    by (auto simp: idle_req_def split: if_splits option.splits intro: step.user_call)
next
  case (Cancel i)
  with assms show ?thesis
    by (auto simp: idle_req_def split: if_splits option.splits intro: step.cancel)
next
  case (Drop i)
  with assms show ?thesis
    by (auto simp: has_ref_def split: if_splits option.splits intro: step.drop)
next
  case (RpcCreate r c)
  with assms show ?thesis
    by (auto simp: unused_rpc_def list_all_iff split: if_splits intro: step.rpc_create)
qed (use assms in \<open>auto intro: step.intros\<close>)

text \<open>The rpc objects of a program whose numbers are below \<open>n\<close>.\<close>

definition rpcs_below :: "nat \<Rightarrow> 'u world \<Rightarrow> bool" where
  "rpcs_below n w \<longleftrightarrow> (\<forall>r. rpcs w r \<noteq> None \<longrightarrow> r < n)"

fun action_below :: "nat \<Rightarrow> 'u action \<Rightarrow> bool" where
  "action_below n (RpcCreate r c) = (r < n)"
| "action_below n a = True"

lemma rpcs_below_live: "rpcs_below n w = (live_rpcs w \<subseteq> {r. r < n})"
  by (auto simp: rpcs_below_def live_rpcs_def)

lemma counters_ok_below: "rpcs_below n w \<Longrightarrow> list_all (counter_ok w) [0..<n] \<Longrightarrow> counters_ok w"
  by (fastforce simp: counters_ok_def rpcs_below_def counter_ok_def list_all_iff split: option.splits)

lemma same_calls_live: "same_calls w w' \<Longrightarrow> live_rpcs w' = live_rpcs w"
  by (simp add: same_calls_def live_rpcs_def)

lemma dispatch_response_live:
  assumes "dispatch_response r d msg w = Inr w'"
  shows "live_rpcs w' = live_rpcs w"
proof -
  have "w' = w \<or> (\<exists>h b w1 x. run_rsp_handle h msg w = Inr (b, w1) \<and> rpcs w1 r = Some x \<and>
      w' = put_dispatcher r x (erase_rsp (m_seq msg) (dispatcher x)) w1)"
    using assms by (auto simp: dispatch_response_def res_simps split: option.split_asm)
  then show ?thesis
  proof (elim disjE exE conjE)
    fix h b w1 x
    assume a: "run_rsp_handle h msg w = Inr (b, w1)" "rpcs w1 r = Some x"
      "w' = put_dispatcher r x (erase_rsp (m_seq msg) (dispatcher x)) w1"
    then show "live_rpcs w' = live_rpcs w"
      using live_rpcs_eq [OF run_rsp_handle_rpcs [OF a(1)]] by (simp add: put_dispatcher_def)
  qed simp
qed

lemma dispatch_live:
  assumes "dispatch co r msg w = Inr w'"
  shows "live_rpcs w' = live_rpcs w"
proof -
  from assms obtain d where "w' = w \<or> dispatch_command co d msg w = Inr w' \<or>
      dispatch_response r d msg w = Inr w'"
    by (auto simp: dispatch_def res_simps Let_def split: if_splits)
  then show ?thesis using dispatch_response_live dispatch_command_same same_calls_live by blast
qed

lemma recv_package_live:
  assumes "recv_package co c p w = Inr w'"
  shows "live_rpcs w' = live_rpcs w"
proof -
  from assms obtain x where "conns w c = Some x" by (auto simp: recv_package_def res_simps)
  with assms show ?thesis
    by (cases "on_recv_package x")
      (auto simp: recv_package_def res_simps dest: dispatch_live split: option.split_asm if_split_asm)
qed

lemma elapse_live: "elapse co n w = Inr w' \<Longrightarrow> live_rpcs w' = live_rpcs w"
  by (auto simp: elapse_def fire_timer_def res_simps put_dispatcher_def
      dest!: run_timeout_closure_rpcs split: if_splits option.splits)

lemma run_job_same:
  assumes "run_job co n w = Inr w'"
  shows "same_calls w w'"
proof (cases "n < length (jobs w)")
  case True
  with assms obtain k h where "run_handler co k h (w\<lparr>jobs := take n (jobs w) @ drop (Suc n) (jobs w)\<rparr>) = Inr w'"
    by (cases "jobs w ! n") (auto simp: run_job_def)
  from run_handler_same [OF this] show ?thesis by (simp add: same_calls_def moves_def)
qed (use assms in \<open>simp add: run_job_def\<close>)

lemma drop_ref_live: "drop_ref i w = Inr w' \<Longrightarrow> live_rpcs w' = live_rpcs w"
  by (auto simp: drop_ref_def res_simps live_rpcs_def put_req_def split: if_splits)

lemma live_simps [simp]:
  "live_rpcs (log_event e w) = live_rpcs w" "live_rpcs (put_conn c x w) = live_rpcs w"
  "live_rpcs (w\<lparr>user := u\<rparr>) = live_rpcs w" "live_rpcs (w\<lparr>next_req := n\<rparr>) = live_rpcs w"
  by (simp_all add: live_rpcs_def put_defs)

lemma on_rpc_live: "on_rpc r f w = Inr w' \<Longrightarrow> live_rpcs w' = live_rpcs w"
  by (auto simp: on_rpc_def res_simps)

lemma exec_live:
  assumes "exec co a w = Inr w'" "action_below n a" "rpcs_below n w"
  shows "rpcs_below n w'"
proof (cases a)
  case (RpcCreate r c)
  with assms show ?thesis
    by (auto simp: rpc_create_def res_simps put_defs rpcs_below_def split: if_splits)
next
  case (RpcDestroy r)
  with assms show ?thesis by (auto simp: rpc_destroy_def rpcs_below_def split: if_splits)
next
  case (Elapse n)
  with assms show ?thesis by (simp add: elapse_live rpcs_below_live)
next
  case (Package c p)
  with assms show ?thesis by (simp add: recv_package_live rpcs_below_live)
qed (use assms in \<open>auto simp: create_request_def Let_def open_connection_def rpcs_below_live
      user_call_def request_cancel_def res_simps
      dest!: on_req_rpcs drop_ref_live request_call_rpcs on_finish_live on_rpc_live
        same_calls_live [OF run_job_same] same_calls_live [OF rr_rsp_same] same_calls_live [OF rr_drop_same]
      split: if_splits\<close>)

theorem run_reachable:
  "run co n as w = Inr (Some w') \<Longrightarrow> list_all (action_below n) as \<Longrightarrow> rpcs_below n w \<Longrightarrow>
     reachable True co w \<Longrightarrow> reachable True co w'"
proof (induction as arbitrary: w)
  case Nil
  then show ?case by simp
next
  case (Cons a as)
  then obtain w1 where w1: "exec co a w = Inr w1" "run co n as w1 = Inr (Some w')" "counters_ok w"
    by (auto simp: res_simps counters_ok_below split: if_splits)
  with Cons.prems exec_step [OF w1(1,3)] have "reachable True co w1" by (auto intro: reachable.step)
  with Cons.IH [OF w1(2)] Cons.prems exec_live [OF w1(1)] show ?case by simp
qed

section \<open>A sample program\<close>

text \<open>
  One connection, one rpc object that is ready and has a timer, and one request with a callback and
  one retry, which is called; the callback and the user's state are arbitrary.
\<close>

definition sample_conn :: connection where
  "sample_conn = plain_connection\<lparr>send_package_impl := UserSend\<rparr>"

definition sample_cb :: "nat rsp_cb" where
  "sample_cb = Rsp0 (\<lambda>u. u + 1)"

definition sample_program :: "'u rsp_cb \<Rightarrow> 'u action list" where
  "sample_program cb =
     [OpenConnection 0 sample_conn, RpcCreate 0 0, SetTimer 0 True, SetReady 0 True, Create (Some 0),
      Setting 0 (SetCmd [99]), Setting 0 (SetRsp cb), Setting 0 (SetRetry 1), UserCall 0 None]"

definition sample_dispatcher :: "'u rsp_cb \<Rightarrow> 'u msg_dispatcher" where
  "sample_dispatcher cb =
     (new_dispatcher 0)\<lparr>rsp_handle_map := [0 \<mapsto> Some \<lparr>rh_this = 0, rh_cb = cb\<rparr>], timer_impl := True\<rparr>"

definition sample_request :: "'u rsp_cb \<Rightarrow> 'u request" where
  "sample_request cb =
     (new_request (Some 0))
       \<lparr>self_keeper := True, req_cmd := [99], need_rsp_flag := True,
        rsp_handle := Some \<lparr>rh_this = 0, rh_cb = cb\<rparr>,
        timeout_cb := Some \<lparr>tc_this = 0, tc_cb = None\<rparr>, retry_count := 1, waiting_rsp := True\<rparr>"

definition sample_timer :: "'u timer" where
  "sample_timer =
     \<lparr>t_dispatcher = 0, t_ms = 3000, t_seq = 0, t_cb = Some \<lparr>tc_this = 0, tc_cb = None\<rparr>\<rparr>"

definition sample_world :: "'u rsp_cb \<Rightarrow> 'u \<Rightarrow> 'u world" where
  "sample_world cb u =
     (empty_world u)
       \<lparr>conns := [0 \<mapsto> sample_conn\<lparr>on_recv_package := DispatcherRecv 0, outbox := [[0, 0, 0, 0, 1, 0, 99, 5]]\<rparr>],
        rpcs := [0 \<mapsto> \<lparr>rpc_conn = 0, dispatcher = sample_dispatcher cb, rpc_seq = 1, rpc_is_ready = True\<rparr>],
        reqs := [0 \<mapsto> sample_request cb], next_req := 1, timers := [sample_timer],
        events := [event.Call 0]\<rparr>"

lemmas call_defs =
  user_call_def request_call_def call_through_def make_seq_def send_request_def subscribe_rsp_def
  put_dispatcher_def rpc_lock_def on_req_def on_finish_def release_keeper_def

lemmas sample_defs =
  sample_conn_def sample_dispatcher_def sample_request_def sample_timer_def plain_connection_def
  empty_world_def new_request_def new_rpc_def new_dispatcher_def

lemma sample_run:
  "run coder_default 1 (sample_program cb) (empty_world u) = Inr (Some (sample_world cb u))"
  unfolding sample_program_def
  by (simp add: open_connection_def rpc_create_def put_defs on_rpc_def counter_ok_def unused_rpc_def
        create_request_def on_req_def Let_def sample_defs rpc_set_timer_def set_timer_impl_def
        rpc_set_ready_def setter_defs)
    (simp add: idle_req_def call_defs put_defs Let_def counter_ok_def,
     simp add: request_msg_def coder_default_def coder_serialize_def put_defs Let_def send_package_def
        le_bytes_numeral,
     simp add: sample_world_def sample_defs request_type_def flag_defs empty_msg_def)

lemma sample_reachable: "reachable True coder_default (sample_world cb u)"
proof (rule run_reachable [OF sample_run])
  show "list_all (action_below 1) (sample_program cb)" by (simp add: sample_program_def)
  show "rpcs_below 1 (empty_world u)" by (simp add: rpcs_below_def empty_world_def)
qed (rule reachable.init)

lemma sample_simps [simp]:
  "rpcs (sample_world cb u) 0 =
     Some \<lparr>rpc_conn = 0, dispatcher = sample_dispatcher cb, rpc_seq = 1, rpc_is_ready = True\<rparr>"
  "reqs (sample_world cb u) 0 = Some (sample_request cb)"
  "timers (sample_world cb u) = [sample_timer]"
  "user (sample_world cb u) = u"
  "events (sample_world cb u) = [event.Call 0]"
  "rsp_handle_map (sample_dispatcher cb) 0 = Some (Some \<lparr>rh_this = 0, rh_cb = cb\<rparr>)"
  by (simp_all add: sample_world_def sample_dispatcher_def empty_world_def)

text \<open>The request of the sample canceled while it waits, which the other discipline allows.\<close>

definition sample_canceled :: "'u rsp_cb \<Rightarrow> 'u \<Rightarrow> 'u world" where
  "sample_canceled cb u =
     (let q = req_canceled True (sample_request cb)
      in finished 0 q canceled (put_req 0 q (sample_world cb u)))"

lemma sample_cancel: "request_cancel 0 (sample_world cb u) = Inr (sample_canceled cb u)"
proof -
  let ?q = "req_canceled True (sample_request cb)"
  have "on_finish 0 canceled (put_req 0 ?q (sample_world cb u)) = Inr (sample_canceled cb u)"
    unfolding sample_canceled_def Let_def
    by (rule on_finish_finished) (simp_all add: put_req_def req_canceled_def sample_request_def)
  then show ?thesis by (simp add: request_cancel_def on_req_def)
qed

lemma sample_canceled_reachable: "reachable False coder_default (sample_canceled cb u)"
proof (rule reachable.step [OF strict_reachable [OF sample_reachable]])
  show "step False coder_default (sample_world cb u) (sample_canceled cb u)"
    by (rule step.cancel [OF sample_simps(2) _ sample_cancel]) (simp add: sample_request_def new_request_def)
qed

lemma sample_conns_ok: "conns_ok (sample_world cb u)"
  by (simp add: conns_ok_def sample_world_def sample_conn_def)

section \<open>Properties: no use after destruction\<close>

text \<open>
  C5: Memory safety of the captured raw pointers: in every world that a disciplined program can
  reach, a response handler registered with any dispatcher refers to a request that is alive, and so
  does the timeout closure of every armed timer for it. The request waits, and then it keeps itself
  alive although the user may have dropped all pointers to it; or, if the program may cancel waiting
  requests, it has been canceled, and it is the user's pointer that keeps it.
\<close>

theorem closures_refer_to_live_requests:
  assumes "reachable strict co w" "rpcs w r = Some x" "rsp_handle_map (dispatcher x) s = Some e"
  shows "\<exists>h q. e = Some h \<and> reqs w (rh_this h) = Some q \<and> 
    (if waiting_rsp q then self_keeper q else \<not> strict \<and> 0 < refs q) \<and>
    (\<forall>t\<in>set (timers w). t_dispatcher t = r \<and> t_seq t = s \<longrightarrow>
       (\<exists>tc. t_cb t = Some tc \<and> tc_this tc = rh_this h))"
proof -
  have i: "inv strict {} w" using assms(1) by (rule reachable_inv)
  have e: "entry w r s = Some e" using assms(2,3) by (simp add: entry_def)
  from inv_entryD [OF i e] obtain h q where h: "e = Some h" "reqs w (rh_this h) = Some q" "held strict q" by blast
  with inv_timerD [OF i] e show ?thesis by (auto simp: held_def)
qed

theorem closures_refer_to_live_requests_witness:
  "\<exists>w q. request_cancel 0 (sample_world sample_cb 0) = Inr w \<and> reqs w 0 = Some q \<and>
     \<not> waiting_rsp q \<and> 0 < refs q \<and> waiting_rsp (sample_request sample_cb) \<and>
     (\<exists>tc. t_cb (sample_timer :: nat timer) = Some tc \<and> tc_this tc = 0)"
proof -
  have e: "rsp_handle_map (dispatcher \<lparr>rpc_conn = 0, dispatcher = sample_dispatcher sample_cb,
      rpc_seq = 1, rpc_is_ready = True\<rparr>) 0 = Some (Some \<lparr>rh_this = 0, rh_cb = sample_cb\<rparr>)" by simp
  have s: "waiting_rsp (sample_request sample_cb)"
    using closures_refer_to_live_requests [OF sample_reachable sample_simps(1) e] by (auto split: if_splits)
  have c: "rpcs (sample_canceled sample_cb 0) 0 = rpcs (sample_world sample_cb 0) 0"
    "timers (sample_canceled sample_cb 0) = [sample_timer]"
    "reqs (sample_canceled sample_cb 0) 0 = Some q \<Longrightarrow> \<not> waiting_rsp q" for q :: "nat request"
    by (auto simp: sample_canceled_def finished_def put_req_def Let_def split: if_splits)
  from closures_refer_to_live_requests [OF sample_canceled_reachable [of sample_cb 0] _ e, of 0] c
  obtain q :: "nat request" where "reqs (sample_canceled sample_cb 0) 0 = Some q" "\<not> waiting_rsp q" "0 < refs q"
      "\<exists>tc. t_cb (sample_timer :: nat timer) = Some tc \<and> tc_this tc = 0"
    by (auto simp: sample_timer_def split: if_splits)
  with s sample_cancel [of sample_cb 0] show ?thesis by blast
qed

text \<open>
  C6: Timers cannot crash a disciplined program, of either discipline: whichever armed timer elapses, in whatever order,
  its lambda returns, retries and chained calls included, as long as the connections of the rpc
  objects exist and have a send function.
\<close>

theorem timers_never_fault:
  assumes "reachable strict co w" "total_coder co" "conns_ok w"
  shows "\<exists>w'. elapse co n w = Inr w'"
  using elapse_total [OF assms(2,3) reachable_inv [OF assms(1)]] .

theorem timers_never_fault_witness:
  "\<exists>w'. elapse coder_default 0 (sample_world sample_cb 0) = Inr w'"
  by (rule timers_never_fault [OF sample_reachable total_coder_default sample_conns_ok])

text \<open>
  C7: A response, late, repeated or forged, can make a disciplined program fault only in unpacking
  its data for the callback: running the handler never uses a destroyed request.
\<close>

theorem responses_never_fault:
  assumes "reachable strict co w" "rpcs w r = Some x" "dispatch_kind (m_type msg) = response"
    and "\<And>h. rsp_handle_map (dispatcher x) (m_seq msg) = Some (Some h) \<Longrightarrow> cb_unpacks (rh_cb h) (m_data msg)"
  shows "\<exists>w'. dispatch co r msg w = Inr w'"
  using dispatch_response_total [OF reachable_inv [OF assms(1)] assms(2,4)] assms(2,3)
  by (simp add: dispatch_def Let_def)

theorem responses_never_fault_witness:
  "\<exists>w'. dispatch coder_default 0 (empty_msg\<lparr>m_type := response\<rparr>)
     (sample_world sample_cb 0) = Inr w'"
proof (rule responses_never_fault [OF sample_reachable sample_simps(1)])
  show "cb_unpacks (rh_cb h) (m_data (empty_msg\<lparr>m_type := response\<rparr>))"
    if "rsp_handle_map (dispatcher \<lparr>rpc_conn = 0, dispatcher = sample_dispatcher sample_cb,
        rpc_seq = 1, rpc_is_ready = True\<rparr>) (m_seq (empty_msg\<lparr>m_type := response\<rparr>)) = Some (Some h)"
    for h :: "nat rsp_handle"
    using that by (auto simp: empty_msg_def sample_cb_def)
qed (simp add: empty_msg_def)

text \<open>
  Without the disciplines the captured pointer dangles: if a request is canceled with \<open>cancel\<close>
  while it waits, and the last pointer to it is dropped, then a response that still arrives for it,
  and its timer, use the destroyed object.
\<close>

theorem cancel_then_drop_dangles:
  assumes "rpcs w r = Some x" "rsp_handle_map (dispatcher x) (m_seq msg) = Some (Some h)"
    and "reqs w (rh_this h) = Some q" "waiting_rsp q" "refs q = 1"
    and "dispatch_kind (m_type msg) = response"
    and "t_dispatcher t = r" "t_seq t = m_seq msg" "t_cb t = Some tc" "tc_this tc = rh_this h" "tc_cb tc = None"
  shows "\<exists>w'. bindr (request_cancel (rh_this h) w) (drop_ref (rh_this h)) = Inr w' \<and>
    dispatch co r msg w' = Inl UseAfterFree \<and> fire_timer co t w' = Inl UseAfterFree"
proof -
  define i where "i = rh_this h"
  have "\<exists>w'. bindr (request_cancel i w) (drop_ref i) = Inr w' \<and> rpcs w' = rpcs w \<and> reqs w' i = None"
    using assms(3-5)
    by (simp add: i_def [symmetric] request_cancel_def on_req_def on_finish_def release_keeper_def drop_ref_def
        put_defs Let_def req_canceled_def split: option.split)
  then obtain w' where "bindr (request_cancel i w) (drop_ref i) = Inr w'" "rpcs w' = rpcs w" "reqs w' i = None"
    by blast
  with assms show ?thesis
    by (auto simp: i_def dispatch_def Let_def dispatch_response_def run_rsp_handle_def with_req_def
        fire_timer_def run_timeout_closure_def)
qed

theorem cancel_then_drop_dangles_witness:
  "\<exists>w'. bindr (request_cancel 0 (sample_world sample_cb 0)) (drop_ref 0) = Inr w' \<and>
     dispatch coder_default 0 (empty_msg\<lparr>m_type := response\<rparr>) w' = Inl UseAfterFree \<and>
     fire_timer coder_default sample_timer w' = Inl UseAfterFree"
  using cancel_then_drop_dangles [of "sample_world sample_cb 0" 0 _
      "empty_msg\<lparr>m_type := response\<rparr>" "\<lparr>rh_this = 0, rh_cb = sample_cb\<rparr>"
      "sample_request sample_cb" sample_timer "\<lparr>tc_this = 0, tc_cb = None\<rparr>" coder_default]
  by (simp add: empty_msg_def sample_request_def new_request_def sample_timer_def)

end
