(* ===== verification/Balance.thy ===== *)
theory Balance
  imports Programs
begin

text \<open>
  One call, one end: in every program of the strict discipline the calls of a request and their ends alternate,
  whatever retries, timeouts and packages come in between.
\<close>

definition waiting :: "'u world \<Rightarrow> nat \<Rightarrow> bool" where
  "waiting w i = (case reqs w i of None \<Rightarrow> False | Some q \<Rightarrow> waiting_rsp q)"

definition calls :: "event list \<Rightarrow> nat \<Rightarrow> nat" where
  "calls es i = length (filter (\<lambda>e. e = event.Call i) es)"

definition ends :: "event list \<Rightarrow> nat \<Rightarrow> nat" where
  "ends es i = length (filter (\<lambda>e. case e of Finish j t \<Rightarrow> j = i | _ \<Rightarrow> False) es)"

lemma calls_ends_append [simp]:
  "calls (es @ [event.Call j]) i = calls es i + (if j = i then 1 else 0)"
  "calls (es @ [Finish j t]) i = calls es i"
  "calls (es @ [TimeoutCb j]) i = calls es i"
  "ends (es @ [event.Call j]) i = ends es i"
  "ends (es @ [Finish j t]) i = ends es i + (if j = i then 1 else 0)"
  "ends (es @ [TimeoutCb j]) i = ends es i"
  by (simp_all add: calls_def ends_def)

lemma calls_ends_moves:
  "calls (moves w) i = calls (events w) i" "ends (moves w) i = ends (events w) i"
  unfolding calls_def ends_def moves_def filter_filter
  by (intro arg_cong [where f = length] filter_cong refl; auto split: event.splits)+

definition balanced :: "'u world \<Rightarrow> bool" where
  "balanced w \<longleftrightarrow>
     (\<forall>i. calls (events w) i = ends (events w) i + (if waiting w i then 1 else 0))"

definition kept :: "'u world \<Rightarrow> bool" where
  "kept w \<longleftrightarrow> (\<forall>i q. reqs w i = Some q \<longrightarrow> waiting_rsp q \<longrightarrow> self_keeper q)"

lemma balanced_same: "same_calls w w' \<Longrightarrow> balanced w' = balanced w"
  unfolding balanced_def calls_ends_moves [symmetric] by (simp add: same_calls_def waiting_def)

lemma kept_same: "same_calls w w' \<Longrightarrow> kept w' = kept w"
  by (simp add: kept_def same_calls_def)

lemma balanced_eq:
  "events w' = events w \<Longrightarrow> (\<And>i. waiting w' i = waiting w i) \<Longrightarrow> balanced w' = balanced w"
  by (simp add: balanced_def)

text \<open>A change of one request that keeps whether it waits.\<close>

lemma on_req_balanced:
  assumes "on_req i f w = Inr w'" "\<And>q. waiting_rsp (f q) = waiting_rsp q" "\<And>q. self_keeper (f q) = self_keeper q"
  shows "balanced w' = balanced w" "kept w' = kept w"
proof -
  from assms(1) obtain q where q: "reqs w i = Some q" "w' = put_req i (f q) w"
    by (auto simp: on_req_def res_simps)
  then have "waiting w' j = waiting w j" for j
    using assms(2) by (auto simp: waiting_def put_req_def)
  then show "balanced w' = balanced w" using q by (intro balanced_eq) (simp_all add: put_req_def)
  show "kept w' = kept w" using q assms(2,3) by (auto simp: kept_def put_req_def)
qed

text \<open>An end is reported exactly if the request waits, and it does not wait afterwards.\<close>

definition ended :: "nat \<Rightarrow> finally_t \<Rightarrow> 'u world \<Rightarrow> 'u world \<Rightarrow> bool" where
  "ended i ty w w' \<longleftrightarrow>
    (\<not> waiting w i \<and> w' = w) \<or>
    (waiting w i \<and> events w' = events w @ [Finish i ty] \<and> \<not> waiting w' i \<and> rpcs w' = rpcs w \<and>
     (\<forall>j. j \<noteq> i \<longrightarrow> reqs w' j = reqs w j) \<and> (\<forall>q. reqs w' i = Some q \<longrightarrow> \<not> waiting_rsp q))"

lemma on_finish_ended:
  assumes "on_finish i ty w = Inr w'"
  shows "ended i ty w w'"
proof -
  from on_finish_frame(3) [OF assms] obtain q where q: "reqs w i = Some q" by auto
  show ?thesis
  proof (cases "waiting_rsp q")
    case False
    with assms q show ?thesis by (simp add: ended_def on_finish_def waiting_def)
  next
    case True
    define q1 where "q1 = q\<lparr>waiting_rsp := False, finally_type := ty\<rparr>"
    define w0 where "w0 = log_event (Finish i ty) (put_req i q1 w)"
    define w1 where "w1 = (case finally_fn q of None \<Rightarrow> w0 | Some f \<Rightarrow> run_user (f ty) w0)"
    have f: "events w1 = events w @ [Finish i ty]" "rpcs w1 = rpcs w" "reqs w1 = (reqs w)(i \<mapsto> q1)"
      by (simp_all add: w1_def w0_def put_defs split: option.splits)
    have "release_keeper i w1 = Inr w'"
      using assms q True
      by (simp add: on_finish_def w1_def w0_def q1_def Let_def cong: option.case_cong)
    then have "w' = (if refs q = 0 then w1\<lparr>reqs := (reqs w1)(i := None)\<rparr>
        else put_req i (q1\<lparr>self_keeper := False\<rparr>) w1)"
      using f(3) by (simp add: release_keeper_def q1_def split: if_splits)
    then have "events w' = events w1" "rpcs w' = rpcs w1"
        "reqs w' = (reqs w1)(i := (if refs q = 0 then None else Some (q1\<lparr>self_keeper := False\<rparr>)))"
      by (simp_all add: put_req_def)
    with f q True show ?thesis by (simp add: ended_def waiting_def q1_def)
  qed
qed

lemma ended_balanced:
  assumes "ended i ty w w'" "balanced w"
  shows "balanced w'"
  using assms(1) unfolding ended_def
proof (elim disjE conjE)
  assume a: "waiting w i" "events w' = events w @ [Finish i ty]"
    "\<forall>j. j \<noteq> i \<longrightarrow> reqs w' j = reqs w j" "\<not> waiting w' i"
  then have "waiting w' j = (if j = i then False else waiting w j)" for j
    by (simp add: waiting_def)
  with assms(2) a(1) show ?thesis unfolding balanced_def a(2) by auto
qed (use assms(2) in simp)

lemma ended_kept:
  assumes "ended i ty w w'" "\<And>j q. j \<noteq> i \<Longrightarrow> reqs w j = Some q \<Longrightarrow> waiting_rsp q \<Longrightarrow> self_keeper q"
    and "waiting w i \<or> kept w"
  shows "kept w'"
  using assms(1) unfolding ended_def
proof (elim disjE conjE)
  assume "\<not> waiting w i" "w' = w"
  with assms(3) show ?thesis by simp
next
  assume a: "\<forall>j. j \<noteq> i \<longrightarrow> reqs w' j = reqs w j" "\<forall>q. reqs w' i = Some q \<longrightarrow> \<not> waiting_rsp q"
  show ?thesis
    unfolding kept_def
  proof (intro allI impI)
    fix j q
    assume "reqs w' j = Some q" "waiting_rsp q"
    with a assms(2) show "self_keeper q" by (cases "j = i") auto
  qed
qed

definition good :: "'u world \<Rightarrow> bool" where
  "good w \<longleftrightarrow> balanced w \<and> kept w"

lemma good_same: "same_calls w w' \<Longrightarrow> good w' = good w"
  by (simp add: good_def balanced_same kept_same)

lemma on_req_good:
  "on_req i f w = Inr w' \<Longrightarrow> (\<And>q. waiting_rsp (f q) = waiting_rsp q) \<Longrightarrow>
     (\<And>q. self_keeper (f q) = self_keeper q) \<Longrightarrow> good w \<Longrightarrow> good w'"
  using on_req_balanced [of i f w w'] by (simp add: good_def)

lemma ended_good: "ended i ty w w' \<Longrightarrow> good w \<Longrightarrow> good w'"
  using ended_balanced [of i ty w w'] ended_kept [of i ty w w']
  unfolding good_def kept_def by blast

lemma on_finish_good: "on_finish i ty w = Inr w' \<Longrightarrow> good w \<Longrightarrow> good w'"
  using on_finish_ended ended_good by blast

lemma good_objects:
  "events w' = events w \<Longrightarrow> reqs w' = reqs w \<Longrightarrow> good w' = good w"
  by (simp add: good_def balanced_def kept_def waiting_def)

lemma send_request_good: "send_request co r i w = Inr w' \<Longrightarrow> good w' = good w"
proof -
  assume "send_request co r i w = Inr w'"
  then obtain x d ts b where "send_package (rpc_conn x) b ((put_dispatcher r x d w)\<lparr>timers := ts\<rparr>) = Inr w'"
    by (auto simp: send_request_def res_simps Let_def case_prod_beta put_dispatcher_def)
  from send_package_frame [OF this] show "good w' = good w"
    by (intro good_objects) (simp_all add: put_dispatcher_def put_rpc_def)
qed

lemma call_through_good: "call_through co i r w = Inr w' \<Longrightarrow> good w \<Longrightarrow> good w'"
proof -
  assume a: "call_through co i r w = Inr w'" "good w"
  then obtain s w1 w2 w3 where w: "make_seq r w = Inr (s, w1)" "on_req i (\<lambda>q. q\<lparr>req_seq := s\<rparr>) w1 = Inr w2"
      "send_request co r i w2 = Inr w3" "w' = w3 \<or> on_finish i no_need_rsp w3 = Inr w'"
    by (auto simp: call_through_def res_simps split: if_splits)
  have "good w1 = good w"
    using w(1) by (intro good_objects) (auto simp: make_seq_def res_simps put_rpc_def)
  with a(2) on_req_good [OF w(2)] send_request_good [OF w(3)] w(4) on_finish_good show "good w'" by auto
qed

text \<open>A call, of a request whose waiting flag it has just set.\<close>

definition others_kept :: "nat \<Rightarrow> 'u world \<Rightarrow> bool" where
  "others_kept i w \<longleftrightarrow> (\<forall>j q. j \<noteq> i \<longrightarrow> reqs w j = Some q \<longrightarrow> waiting_rsp q \<longrightarrow> self_keeper q)"

lemma kept_others: "kept w \<Longrightarrow> others_kept i w"
  by (auto simp: kept_def others_kept_def)

lemma request_call_good:
  assumes "request_call co i rpc w = Inr w'" "on_req i (\<lambda>q. q\<lparr>waiting_rsp := True\<rparr>) w = Inr w1"
    and "balanced w1" "others_kept i w1"
  shows "good w'"
proof -
  from assms(2) obtain q where q: "reqs w1 i = Some q" "waiting_rsp q"
    by (auto simp: on_req_def res_simps put_req_def)
  show ?thesis
  proof (cases "canceled_flag q")
    case True
    then have f: "on_finish i canceled w1 = Inr w'"
      using assms(1,2) q by (simp add: request_call_def)
    have "waiting w1 i" using q by (simp add: waiting_def)
    with ended_balanced [OF on_finish_ended [OF f] assms(3)] ended_kept [OF on_finish_ended [OF f]] assms(4)
    show ?thesis by (auto simp: good_def others_kept_def)
  next
    case False
    define q2 where "q2 = (case rpc of Some r \<Rightarrow> q\<lparr>self_keeper := True, req_rpc := Some r\<rparr>
        | None \<Rightarrow> q\<lparr>self_keeper := True\<rparr>)"
    define w2 where "w2 = put_req i q2 w1"
    have q2: "waiting_rsp q2" "self_keeper q2" using q by (simp_all add: q2_def split: option.splits)
    have "waiting w2 j = waiting w1 j" for j using q q2 by (simp add: waiting_def w2_def put_req_def)
    then have "balanced w2" using assms(3) balanced_eq [of w2 w1] by (simp add: w2_def put_req_def)
    moreover have "kept w2"
      using assms(4) q2 by (auto simp: kept_def others_kept_def w2_def put_req_def)
    ultimately have g: "good w2" by (simp add: good_def)
    have "(case rpc_lock q2 w2 of
              None \<Rightarrow> on_finish i rpc_expired w2
            | Some r \<Rightarrow>
                with_rpc r w2 (\<lambda>x.
                  if \<not> rpc_is_ready x then on_finish i rpc_not_ready w2
                  else call_through co i r w2)) = Inr w'"
      using assms(1,2) q(1) False unfolding w2_def
      by (cases rpc) (simp_all add: request_call_def q2_def Let_def cong: option.case_cong if_cong)
    with g on_finish_good call_through_good show ?thesis
      by (auto simp: res_simps split: option.splits if_splits)
  qed
qed

lemma on_req_waiting:
  assumes "on_req i (\<lambda>q. q\<lparr>waiting_rsp := True\<rparr>) w = Inr w1" "kept w"
  shows "events w1 = events w" "waiting w1 j = (j = i \<or> waiting w j)" "others_kept i w1"
  using assms by (auto simp: on_req_def res_simps put_req_def waiting_def others_kept_def kept_def split: if_splits)

lemma user_call_good:
  assumes "user_call co i rpc w = Inr w'" "good w" "\<not> waiting w i"
  shows "good w'"
proof -
  let ?w = "log_event (event.Call i) w"
  from assms(1) obtain w1 where w1: "on_req i (\<lambda>q. q\<lparr>waiting_rsp := True\<rparr>) ?w = Inr w1"
    by (auto simp: user_call_def request_call_def)
  have k: "kept ?w" and w: "waiting ?w = waiting w"
    using assms(2) by (simp_all add: good_def kept_def waiting_def fun_eq_iff log_event_def)
  note o = on_req_waiting [OF w1 k]
  have "balanced w1"
    using assms(2,3) unfolding good_def balanced_def o(1,2) w by (auto simp: log_event_def)
  with request_call_good [OF _ w1 _ o(3)] assms(1) show ?thesis by (simp add: user_call_def)
qed

lemma recall_good:
  assumes "request_call co i rpc w = Inr w'" "good w" "waiting w i"
  shows "good w'"
proof -
  from assms(1) obtain w1 where w1: "on_req i (\<lambda>q. q\<lparr>waiting_rsp := True\<rparr>) w = Inr w1"
    by (auto simp: request_call_def)
  have k: "kept w" using assms(2) by (simp add: good_def)
  note o = on_req_waiting [OF w1 k]
  have "waiting w1 j = waiting w j" for j using o(2) assms(3) by auto
  then have "balanced w1" using assms(2) balanced_eq [OF o(1)] by (simp add: good_def)
  with request_call_good [OF assms(1) w1 _ o(3)] show ?thesis by simp
qed

lemma run_timeout_closure_good:
  assumes "run_timeout_closure co t w = Inr w'" "good w" "waiting w (tc_this t)"
  shows "good w'"
proof -
  define w1 where "w1 = (case tc_cb t of None \<Rightarrow> w | Some f \<Rightarrow> log_event (TimeoutCb (tc_this t)) (run_user f w))"
  have s: "same_calls w w1"
    by (simp add: w1_def same_calls_def moves_def put_defs split: option.splits)
  then have g: "good w1" "waiting w1 (tc_this t)"
    using assms(2,3) by (simp_all add: good_same) (simp add: waiting_def same_calls_def)
  from assms(1) [unfolded run_timeout_closure_def Let_def, folded w1_def]
  consider "request_call co (tc_this t) None w1 = Inr w'"
    | w2 where "on_req (tc_this t) (\<lambda>q. q\<lparr>retry_count := retry_count q - 1\<rparr>) w1 = Inr w2"
        "request_call co (tc_this t) None w2 = Inr w'"
    | "on_finish (tc_this t) timeout w1 = Inr w'"
    by (auto simp: with_req_def split: option.splits if_splits)
  then show ?thesis
  proof cases
    case 1
    then show ?thesis using recall_good g by blast
  next
    case (2 w2)
    then have "good w2" using on_req_good [OF 2(1)] g by simp
    moreover have "waiting w2 (tc_this t)"
      using 2(1) g(2) by (auto simp: on_req_def res_simps put_req_def waiting_def)
    ultimately show ?thesis using recall_good [OF 2(2)] by simp
  next
    case 3
    then show ?thesis using on_finish_good g by blast
  qed
qed

lemma put_dispatcher_good [simp]: "good (put_dispatcher r x d w) = good w"
  by (rule good_objects) (simp_all add: put_dispatcher_def put_rpc_def)

lemma fire_timer_good:
  assumes "fire_timer co t w = Inr w'" "good w" "inv True {} w"
    and t: "\<And>h. entry w (t_dispatcher t) (t_seq t) = Some (Some h) \<Longrightarrow>
      \<exists>tc. t_cb t = Some tc \<and> tc_this tc = rh_this h"
  shows "good w'"
proof (cases "entry w (t_dispatcher t) (t_seq t)")
  case None
  with assms(1,2) show ?thesis by (auto simp: fire_timer_def entry_def split: option.splits)
next
  case (Some e)
  with inv_entryD [OF assms(3)] obtain h q where h: "e = Some h" "reqs w (rh_this h) = Some q" "held True q" by blast
  with t Some obtain tc where tc: "t_cb t = Some tc" "tc_this tc = rh_this h" by auto
  from Some assms(1) tc obtain w1 y where w1: "run_timeout_closure co tc w = Inr w1"
      "w' = put_dispatcher (t_dispatcher t) y (erase_rsp (t_seq t) (dispatcher y)) w1"
    by (auto simp: fire_timer_def entry_def res_simps split: option.splits)
  have "waiting w (tc_this tc)" using h tc by (simp add: waiting_def held_def split: if_splits)
  with run_timeout_closure_good [OF w1(1) assms(2)] w1(2) show ?thesis by simp
qed

section \<open>Every step keeps the balance\<close>

lemma elapse_good:
  assumes "elapse co n w = Inr w'" "good w" "inv True {} w"
  shows "good w'"
proof (cases "n < length (timers w)")
  case True
  define w1 where "w1 = w\<lparr>timers := take n (timers w) @ drop (Suc n) (timers w)\<rparr>"
  have sub: "set (timers w1) \<subseteq> set (timers w)"
    by (auto simp: w1_def dest: in_set_takeD in_set_dropD)
  have e: "entry w1 = entry w" "reqs w1 = reqs w" "rpcs w1 = rpcs w" "next_req w1 = next_req w"
    by (auto simp: w1_def fun_eq_iff entry_def)
  have "inv True {} w1"
    using assms(3) sub unfolding inv_def inv_defs e by blast
  moreover have "good w1" using assms(2) good_objects [of w1 w] by (simp add: w1_def)
  moreover have "fire_timer co (timers w ! n) w1 = Inr w'"
    using assms(1) True by (simp add: elapse_def w1_def)
  ultimately show ?thesis
    using inv_timerD [OF assms(3) nth_mem [OF True]] e(1) fire_timer_good [of co "timers w ! n" w1 w'] by simp
qed (use assms in \<open>simp add: elapse_def\<close>)

lemma dispatch_response_good:
  assumes "dispatch_response r d msg w = Inr w'" "good w"
  shows "good w'"
proof -
  have "w' = w \<or> (\<exists>h b w1 x. run_rsp_handle h msg w = Inr (b, w1) \<and>
      w' = put_dispatcher r x (erase_rsp (m_seq msg) (dispatcher x)) w1)"
    using assms(1) by (auto simp: dispatch_response_def res_simps split: option.split_asm)
  moreover have "good w1" if "run_rsp_handle h msg w = Inr (b, w1)" for h b w1
    using run_rsp_handle_cases [OF that] assms(2) on_finish_good good_same by metis
  ultimately show ?thesis using assms(2) by auto
qed

lemma recv_package_good:
  assumes "recv_package co c p w = Inr w'" "good w"
  shows "good w'"
proof -
  from assms obtain x where "conns w c = Some x" by (auto simp: recv_package_def res_simps)
  with assms(1) have "w' = w \<or> (\<exists>r m. dispatch co r m w = Inr w')"
    by (cases "on_recv_package x")
      (auto simp: recv_package_def res_simps split: option.split_asm if_split_asm)
  moreover have "good w'" if d: "dispatch co r m w = Inr w'" for r m
  proof -
    from d obtain d where "w' = w \<or> dispatch_command co d m w = Inr w' \<or> dispatch_response r d m w = Inr w'"
      by (auto simp: dispatch_def res_simps Let_def split: if_splits)
    with assms(2) dispatch_command_same [of co d m w w'] dispatch_response_good [of r d m w w'] good_same [of w w']
    show ?thesis by auto
  qed
  ultimately show ?thesis using assms(2) by auto
qed

lemma drop_ref_good:
  assumes "drop_ref i w = Inr w'" "good w"
  shows "good w'"
proof -
  from assms(1) obtain q where q: "reqs w i = Some q"
      "w' = (if refs q \<le> 1 \<and> \<not> self_keeper q then w\<lparr>reqs := (reqs w)(i := None)\<rparr>
             else put_req i (q\<lparr>refs := refs q - 1\<rparr>) w)"
    by (auto simp: drop_ref_def res_simps split: if_splits)
  have "self_keeper q \<or> \<not> waiting_rsp q" using assms(2) q(1) by (auto simp: good_def kept_def)
  then have "waiting w' j = waiting w j" for j using q by (auto simp: waiting_def put_req_def)
  then have "balanced w'" using assms(2) q balanced_eq [of w' w] by (simp add: good_def put_req_def)
  moreover have "kept w'" using assms(2) q by (auto simp: good_def kept_def put_req_def split: if_splits)
  ultimately show ?thesis by (simp add: good_def)
qed

lemma create_request_good:
  assumes "good w" "inv True X w"
  shows "good (snd (create_request r w))"
proof -
  let ?w = "snd (create_request r w)"
  have n: "reqs w (next_req w) = None"
    using assms(2) unfolding inv_def inv_req_def by (metis not_None_eq order_less_irrefl)
  then have "waiting ?w j = waiting w j" for j
    by (simp add: create_request_def waiting_def put_req_def Let_def req_timeout_def new_request_def)
  then have "balanced ?w"
    using assms(1) balanced_eq [of ?w w] by (simp add: good_def create_request_def put_req_def Let_def)
  moreover have "kept ?w"
    using assms(1)
    by (auto simp: good_def kept_def create_request_def put_req_def Let_def req_timeout_def new_request_def)
  ultimately show ?thesis by (simp add: good_def)
qed

lemma apply_setting_flags:
  "waiting_rsp (apply_setting i s q) = waiting_rsp q" "self_keeper (apply_setting i s q) = self_keeper q"
  by (cases s; simp add: setter_defs)+

theorem step_good: "step True co w w' \<Longrightarrow> inv True {} w \<Longrightarrow> good w \<Longrightarrow> good w'"
proof (induction rule: step.induct)
  case (cancel w i q w')
  then obtain w1 where w1: "on_req i (req_canceled True) w = Inr w1" "on_finish i canceled w1 = Inr w'"
    by (auto simp: request_cancel_def)
  with cancel on_req_good [OF w1(1)] on_finish_good [OF w1(2)] show ?case by (simp add: req_canceled_def)
next
  case (user_call w i q rpc w')
  then show ?case using user_call_good [OF user_call.hyps(5)] by (auto simp: waiting_def)
next
  case (copy i w w')
  then show ?case using on_req_good [OF copy.hyps] by simp
next
  case (setting i s w w')
  then show ?case using on_req_good [OF setting.hyps] by (simp add: apply_setting_flags)
next
  case (rpc_destroy w r)
  then show ?case using good_objects [of "rpc_destroy r w" w] by (simp add: rpc_destroy_def)
next
  case (rpc_create w r c w')
  then have "good w' = good w" by (intro good_objects) (auto simp: rpc_create_def res_simps put_defs)
  with rpc_create show ?case by simp
next
  case (job n w w')
  then show ?case using run_job_same good_same by blast
next
  case (connection w c x)
  then show ?case by (simp add: open_connection_def good_same [OF same_calls_user(3)])
next
  case (response k d w w')
  then show ?case using rr_rsp_same good_same by blast
next
  case (drop_rr k w w')
  then show ?case using rr_drop_same good_same by blast
next
  case (user w u)
  then show ?case using good_same [of w "w\<lparr>user := u\<rparr>"] by (simp add: same_calls_def moves_def)
next
  case (package c p w w')
  then show ?case using recv_package_good by blast
next
  case (elapse w n w')
  then show ?case using elapse_good by blast
next
  case (drop w i q w')
  then show ?case using drop_ref_good by blast
next
  case (create w r)
  then show ?case using create_request_good by blast
qed (auto simp: on_rpc_def res_simps put_rpc_def intro: good_objects [THEN iffD2])

lemma reachable_good: "reachable True co w \<Longrightarrow> good w"
proof (induction rule: reachable.induct)
  case (init u)
  then show ?case by (simp add: good_def balanced_def kept_def empty_world_def waiting_def calls_def ends_def)
next
  case (step w w')
  then show ?case using step_good reachable_inv by blast
qed

section \<open>Properties\<close>

text \<open>
  C1: One call, one end: in every world that a program of the strict discipline can reach, each call of each
  request that the user has made has been reported as ended exactly once (by a response, a timeout
  after all retries, an expired or unready rpc object, a cancellation), or its request is waiting,
  and then exactly one end is outstanding.
\<close>

theorem one_call_one_finally:
  assumes "reachable True co w"
  shows "calls (events w) i = ends (events w) i + (if waiting w i then 1 else 0)"
  using reachable_good [OF assms] by (simp add: good_def balanced_def)

theorem one_call_one_finally_witness:
  "calls [event.Call 0] 0 =
     ends [event.Call 0] 0 + (if waiting (sample_world sample_cb 0) 0 then 1 else 0)"
  using one_call_one_finally [OF sample_reachable [of sample_cb 0], of 0] by simp

text \<open>
  The end of a call runs the \<open>finally\<close> callback with its reason, once, and clears the waiting
  flag and the request's pointer to itself; if nobody else holds the request it is destroyed. A
  request that does not wait is left alone.
\<close>

theorem on_finish_effect:
  assumes "reqs w i = Some q"
  shows "on_finish i ty w =
    (if \<not> waiting_rsp q then Inr w
     else Inr (w\<lparr>
       reqs := (reqs w)(i := (if refs q = 0 then None
         else Some (q\<lparr>waiting_rsp := False, finally_type := ty, self_keeper := False\<rparr>))),
       user := (case finally_fn q of None \<Rightarrow> user w | Some f \<Rightarrow> f ty (user w)),
       events := events w @ [Finish i ty]\<rparr>))"
  using assms
  using on_finish_finished [OF assms] on_finish_ignored [OF assms] by (simp add: finished_def)

theorem on_finish_effect_witness:
  "on_finish 0 timeout (sample_world sample_cb 0) =
     Inr ((sample_world sample_cb 0)\<lparr>
       reqs := (reqs (sample_world sample_cb 0))(0 \<mapsto>
         (sample_request sample_cb)\<lparr>waiting_rsp := False, finally_type := timeout, self_keeper := False\<rparr>),
       user := 0, events := [event.Call 0, Finish 0 timeout]\<rparr>)"
  using on_finish_effect [of "sample_world sample_cb 0" 0 "sample_request sample_cb" timeout]
  by (simp add: sample_request_def new_request_def)

text \<open>
  Canceling does not stop the retries: when the timer of a call that was canceled while it waited
  elapses, the timeout callback runs although the call has ended, and if the request was set to retry,
  the retry is a canceled call, so the end of the one call is reported a second time. With no
  retries left the end stays reported once.
\<close>

theorem canceled_retry_ends_again:
  assumes "reqs w i = Some q" "waiting_rsp q" "0 < refs q"
    and "rpcs w (t_dispatcher t) = Some x" "rsp_handle_map (dispatcher x) (t_seq t) = Some h"
    and "t_cb t = Some tc" "tc_this tc = i"
  shows "\<exists>w1 w2. request_cancel i w = Inr w1 \<and> fire_timer co t w1 = Inr w2 \<and>
    events w2 = events w @ [Finish i canceled] @
      (if tc_cb tc = None then [] else [TimeoutCb i]) @
      (if retry_count q = -1 \<or> 0 < retry_count q then [Finish i canceled] else [])"
proof -
  let ?q = "req_canceled True q"
  define w1 where "w1 = finished i ?q canceled (put_req i ?q w)"
  define q1 where "q1 = ?q\<lparr>waiting_rsp := False, finally_type := canceled, self_keeper := False\<rparr>"
  define w2 where "w2 = (case tc_cb tc of None \<Rightarrow> w1 | Some f \<Rightarrow> log_event (TimeoutCb i) (run_user f w1))"
  have "on_finish i canceled (put_req i ?q w) = Inr w1"
    unfolding w1_def by (rule on_finish_finished) (use assms(2) in \<open>simp_all add: put_req_def req_canceled_def\<close>)
  then have c: "request_cancel i w = Inr w1" using assms(1) by (simp add: request_cancel_def on_req_def)
  have f: "reqs w2 i = Some q1" "rpcs w2 = rpcs w" "rpcs w1 = rpcs w"
    "events w2 = events w @ [Finish i canceled] @ (if tc_cb tc = None then [] else [TimeoutCb i])"
    using assms(3) by (auto simp: w2_def w1_def q1_def finished_def put_defs req_canceled_def split: option.splits)
  have q1: "\<not> waiting_rsp q1" "canceled_flag q1" "retry_count q1 = retry_count q"
    by (simp_all add: q1_def req_canceled_def)
  have again: "\<exists>w4. request_call co i None w3 = Inr w4 \<and> rpcs w4 = rpcs w \<and> events w4 = events w2 @ [Finish i canceled]"
    if "reqs w3 i = Some q3" "canceled_flag q3" "rpcs w3 = rpcs w" "events w3 = events w2" for w3 q3
    using that on_finish_finished [of "put_req i (q3\<lparr>waiting_rsp := True\<rparr>) w3" i "q3\<lparr>waiting_rsp := True\<rparr>" canceled]
    by (simp add: request_call_def on_req_def put_req_def)
  have "\<exists>w3. run_timeout_closure co tc w1 = Inr w3 \<and> rpcs w3 = rpcs w \<and>
      events w3 = events w2 @ (if retry_count q = -1 \<or> 0 < retry_count q then [Finish i canceled] else [])"
    using again [of w2 q1] again [of "put_req i (q1\<lparr>retry_count := retry_count q1 - 1\<rparr>) w2"
        "q1\<lparr>retry_count := retry_count q1 - 1\<rparr>"] f q1 on_finish_ignored [OF f(1) q1(1), of timeout] assms(7)
    by (auto simp: run_timeout_closure_def Let_def w2_def [symmetric] on_req_def put_req_def)
  with c f assms(4-6) show ?thesis
    by (auto simp: fire_timer_def put_dispatcher_def put_rpc_def)
qed

theorem canceled_retry_ends_again_witness:
  "\<exists>w1 w2. request_cancel 0 (sample_world sample_cb 0) = Inr w1 \<and>
     fire_timer coder_default sample_timer w1 = Inr w2 \<and>
     events w2 = [event.Call 0, Finish 0 canceled, Finish 0 canceled]"
  using canceled_retry_ends_again [of "sample_world sample_cb 0" 0 "sample_request sample_cb" sample_timer _
      "Some \<lparr>rh_this = 0, rh_cb = sample_cb\<rparr>" "\<lparr>tc_this = 0, tc_cb = None\<rparr>" coder_default]
  by (simp add: sample_request_def new_request_def sample_timer_def)

end
