(* ===== verification/Calls.thy ===== *)
theory Calls
  imports Programs
begin

text \<open>
  What the operations of a call do, each as one equation: the call up to its package, the package at
  the peer's dispatcher, the response at the caller's, the elapsed timer; and the calls that are
  refused. Then the properties of whole calls, between two rpc objects on two connections.
\<close>

section \<open>The call up to its package\<close>

text \<open>The request while it waits for the response with number \<open>s\<close>.\<close>

definition sent_request :: "seq_type \<Rightarrow> 'u request \<Rightarrow> 'u request" where
  "sent_request s q = q\<lparr>waiting_rsp := True, self_keeper := True, req_seq := s\<rparr>"

definition call_package :: "coder \<Rightarrow> seq_type \<Rightarrow> 'u request \<Rightarrow> bytes res" where
  "call_package co s q = co_serialize co (request_msg (q\<lparr>req_seq := s\<rparr>))"

lemma request_msg_sent [simp]:
  "request_msg (q\<lparr>waiting_rsp := a, self_keeper := b, req_seq := s\<rparr>) = request_msg (q\<lparr>req_seq := s\<rparr>)"
  by (simp add: request_msg_def)

text \<open>The dispatcher and the timers once the response handler is registered.\<close>

definition await :: "'u rpc \<Rightarrow> 'u rsp_handle \<Rightarrow> 'u rpc" where
  "await x h =
     x\<lparr>rpc_seq := rpc_seq x + 1,
       dispatcher := (dispatcher x)\<lparr>rsp_handle_map := (rsp_handle_map (dispatcher x))(rpc_seq x \<mapsto> Some h)\<rparr>\<rparr>"

definition call_timer :: "nat \<Rightarrow> 'u rpc \<Rightarrow> 'u request \<Rightarrow> 'u timer" where
  "call_timer r x q =
     \<lparr>t_dispatcher = r, t_ms = timeout_ms q, t_seq = rpc_seq x, t_cb = timeout_cb q\<rparr>"

definition called :: "nat \<Rightarrow> nat \<Rightarrow> bytes \<Rightarrow> 'u world \<Rightarrow> 'u world" where
  "called r i p w =
     (case (rpcs w r, reqs w i) of
        (Some x, Some q) \<Rightarrow>
          (case (conns w (rpc_conn x), rsp_handle q) of
             (Some c, Some h) \<Rightarrow>
               w\<lparr>conns := (conns w)(rpc_conn x \<mapsto> c\<lparr>outbox := outbox c @ [p]\<rparr>),
                 rpcs := (rpcs w)(r \<mapsto> await x h),
                 reqs := (reqs w)(i \<mapsto> sent_request (rpc_seq x) q),
                 timers := timers w @ [call_timer r x q]\<rparr>
           | _ \<Rightarrow> w)
      | _ \<Rightarrow> w)"

lemma request_call_sends:
  assumes q: "reqs w i = Some q" "\<not> canceled_flag q" "need_rsp_flag q" "req_rpc q = Some r" "rsp_handle q = Some h"
    and x: "rpcs w r = Some x" "rpc_is_ready x" "timer_impl (dispatcher x)"
    and c: "conns w (rpc_conn x) = Some c" "send_package_impl c = UserSend"
    and p: "call_package co (rpc_seq x) q = Inr p"
  shows "request_call co i None w = Inr (called r i p w)"
proof -
  have s: "subscribe_rsp r s (rsp_handle q) cb ms (dispatcher x) =
      ((dispatcher x)\<lparr>rsp_handle_map := (rsp_handle_map (dispatcher x))(s \<mapsto> Some h)\<rparr>,
       [\<lparr>t_dispatcher = r, t_ms = ms, t_seq = s, t_cb = cb\<rparr>])" for s cb ms
    using q x by (simp add: subscribe_rsp_def)
  show ?thesis
    using q x c p s
    by (simp add: request_call_def on_req_def put_defs Let_def rpc_lock_def call_through_def make_seq_def
        send_request_def put_dispatcher_def call_package_def send_package_def called_def await_def
        call_timer_def sent_request_def)
qed

text \<open>The branches of a call.\<close>

lemma put_req_put_req [simp]: "put_req i q (put_req i q' w) = put_req i q w"
  by (simp add: put_req_def)

lemma request_call_branches:
  assumes "reqs w i = Some q"
  shows "request_call co i None w =
    (if canceled_flag q then on_finish i canceled (put_req i (q\<lparr>waiting_rsp := True\<rparr>) w)
     else
       let w2 = put_req i (q\<lparr>waiting_rsp := True, self_keeper := True\<rparr>) w
       in case rpc_lock q w of
            None \<Rightarrow> on_finish i rpc_expired w2
          | Some r \<Rightarrow>
              with_rpc r w (\<lambda>x.
                if \<not> rpc_is_ready x then on_finish i rpc_not_ready w2 else call_through co i r w2))"
  using assms
  by (simp add: request_call_def on_req_def Let_def)
    (simp add: put_req_def rpc_lock_def with_rpc_def Let_def cong: option.case_cong if_cong)

section \<open>The response at the caller\<close>

text \<open>What a response does to a waiting request: the user's part, and the reason of the end.\<close>

fun rsp_effect :: "'u rsp_cb \<Rightarrow> msg_wrapper \<Rightarrow> ((bool \<times> finally_t) \<times> ('u \<Rightarrow> 'u)) res" where
  "rsp_effect (Rsp2 unpack d) msg =
     mapr (\<lambda>(ok, cb). if ok then ((True, normal), cb normal)
       else ((False, rsp_serialize_error), d rsp_serialize_error)) (unpack (m_data msg))"
| "rsp_effect (Rsp1 unpack) msg =
     mapr (\<lambda>(ok, cb). if ok then ((True, normal), cb)
       else ((False, rsp_serialize_error), (\<lambda>u. u))) (unpack (m_data msg))"
| "rsp_effect (Rsp0 cb) msg = Inr ((True, normal), cb)"

definition rsp_outcome :: "'u request \<Rightarrow> 'u rsp_cb \<Rightarrow> msg_wrapper \<Rightarrow> ((bool \<times> finally_t) \<times> ('u \<Rightarrow> 'u)) res" where
  "rsp_outcome q cb msg =
     (if canceled_flag q then Inr ((True, canceled), \<lambda>u. u)
      else if has_flag (m_type msg) no_such_cmd then Inr ((True, finally_no_such_cmd), \<lambda>u. u)
      else rsp_effect cb msg)"

lemma run_user_id [simp]: "run_user (\<lambda>u. u) w = w"
  by (simp add: run_user_def)

lemma run_rsp_handle_waiting:
  assumes "reqs w (rh_this h) = Some q" "waiting_rsp q"
  shows "run_rsp_handle h msg w =
    mapr (\<lambda>((ok, ty), f). (ok, finished (rh_this h) q ty (run_user f w))) (rsp_outcome q (rh_cb h) msg)"
proof -
  have f: "on_finish (rh_this h) ty (run_user g w) = Inr (finished (rh_this h) q ty (run_user g w))" for ty g
    using assms by (intro on_finish_finished) (simp_all add: run_user_def)
  have f0: "on_finish (rh_this h) ty w = Inr (finished (rh_this h) q ty w)" for ty
    using f [of ty "\<lambda>u. u"] by simp
  have "run_rsp_handle h msg w = mapr (\<lambda>((ok, ty), f). (ok, finished (rh_this h) q ty (run_user f w)))
      (rsp_effect (rh_cb h) msg)" if "\<not> canceled_flag q" "\<not> has_flag (m_type msg) no_such_cmd"
  proof (cases "rh_cb h")
    case (Rsp2 unpack d)
    with assms(1) that f show ?thesis
      by (cases "unpack (m_data msg)") (auto simp: run_rsp_handle_def Let_def)
  next
    case (Rsp1 unpack)
    with assms(1) that f f0 show ?thesis
      by (cases "unpack (m_data msg)") (auto simp: run_rsp_handle_def Let_def)
  next
    case (Rsp0 cb)
    with assms(1) that f show ?thesis by (simp add: run_rsp_handle_def Let_def)
  qed
  then show ?thesis
    using assms(1) f0 by (auto simp: rsp_outcome_def run_rsp_handle_def Let_def)
qed

definition erased :: "nat \<Rightarrow> seq_type \<Rightarrow> 'u world \<Rightarrow> 'u world" where
  "erased r s w =
     (case rpcs w r of
        None \<Rightarrow> w
      | Some x \<Rightarrow> put_dispatcher r x (erase_rsp s (dispatcher x)) w)"

lemma dispatch_response_waiting:
  assumes "rpcs w r = Some x" "rsp_handle_map (dispatcher x) (m_seq msg) = Some (Some h)"
    and "reqs w (rh_this h) = Some q" "waiting_rsp q"
    and "rsp_outcome q (rh_cb h) msg = Inr ((ok, ty), f)"
  shows "dispatch_response r (dispatcher x) msg w =
    Inr (erased r (m_seq msg) (finished (rh_this h) q ty (run_user f w)))"
  using assms run_rsp_handle_waiting [OF assms(3,4), of msg]
  by (simp add: dispatch_response_def erased_def run_user_def)

section \<open>Timeouts and retries\<close>

text \<open>The user's timeout callback, if there is one.\<close>

definition timeout_effect :: "'u timeout_closure \<Rightarrow> 'u \<Rightarrow> 'u" where
  "timeout_effect tc u = (case tc_cb tc of None \<Rightarrow> u | Some f \<Rightarrow> f u)"

definition timed_out :: "'u timeout_closure \<Rightarrow> 'u world \<Rightarrow> 'u world" where
  "timed_out tc w =
     (case tc_cb tc of None \<Rightarrow> w | Some f \<Rightarrow> log_event (TimeoutCb (tc_this tc)) (run_user f w))"

lemma timed_out_simps [simp]:
  "conns (timed_out tc w) = conns w" "rpcs (timed_out tc w) = rpcs w" "reqs (timed_out tc w) = reqs w"
  "timers (timed_out tc w) = timers w" "user (timed_out tc w) = timeout_effect tc (user w)"
  by (simp_all add: timed_out_def timeout_effect_def put_defs split: option.split)

text \<open>
  A request that waits, with its entry in the table of \<open>r\<close> and its timer the last of \<open>m + 1\<close> armed
  ones, and everything in place for a retry; \<open>n\<close> retries are left.
\<close>

definition awaiting ::
  "nat \<Rightarrow> nat \<Rightarrow> nat \<Rightarrow> 'u rpc \<Rightarrow> connection \<Rightarrow> 'u timeout_closure \<Rightarrow> nat \<Rightarrow> 'u request \<Rightarrow> 'u world \<Rightarrow> bool" where
  "awaiting m r i x c tc n q w \<longleftrightarrow>
     rpcs w r = Some x \<and> rpc_is_ready x \<and> timer_impl (dispatcher x) \<and>
     conns w (rpc_conn x) = Some c \<and> send_package_impl c = UserSend \<and>
     reqs w i = Some q \<and> waiting_rsp q \<and> self_keeper q \<and> \<not> canceled_flag q \<and> need_rsp_flag q \<and>
     req_rpc q = Some r \<and> (\<exists>h. rsp_handle q = Some h) \<and> timeout_cb q = Some tc \<and> tc_this tc = i \<and>
     retry_count q = int n \<and> length (timers w) = Suc m \<and>
     t_dispatcher (timers w ! m) = r \<and> t_seq (timers w ! m) = rpc_seq x - 1 \<and>
     t_cb (timers w ! m) = Some tc \<and> rsp_handle_map (dispatcher x) (rpc_seq x - 1) \<noteq> None"

lemma elapse_last:
  "length (timers w) = Suc m \<Longrightarrow> elapse co m w = fire_timer co (timers w ! m) (w\<lparr>timers := take m (timers w)\<rparr>)"
  by (simp add: elapse_def)

lemma fire_timer_entry:
  assumes "rpcs w (t_dispatcher t) = Some x" "rsp_handle_map (dispatcher x) (t_seq t) = Some e"
    and "t_cb t = Some tc" "reqs w (tc_this tc) = Some q"
  shows "fire_timer co t w =
    bindr (if retry_count q = -1 then request_call co (tc_this tc) None (timed_out tc w)
           else if retry_count q > 0
           then request_call co (tc_this tc) None
                  (put_req (tc_this tc) (q\<lparr>retry_count := retry_count q - 1\<rparr>) (timed_out tc w))
           else on_finish (tc_this tc) timeout (timed_out tc w))
      (\<lambda>w. with_rpc (t_dispatcher t) w (\<lambda>x.
         Inr (put_dispatcher (t_dispatcher t) x (erase_rsp (t_seq t) (dispatcher x)) w)))"
  using assms
  by (simp add: fire_timer_def run_timeout_closure_def Let_def timed_out_def [symmetric] on_req_def)

lemma timeout_ends:
  assumes "awaiting m r i x c tc 0 q w"
  shows "elapse co m w =
    Inr (erased r (rpc_seq x - 1) (finished i q timeout (timed_out tc (w\<lparr>timers := take m (timers w)\<rparr>))))"
proof -
  obtain e where "rsp_handle_map (dispatcher x) (rpc_seq x - 1) = Some e"
    using assms by (auto simp: awaiting_def)
  then show ?thesis
    using assms by (simp add: awaiting_def elapse_last fire_timer_entry on_finish_finished erased_def)
qed

text \<open>A retry registers the handler anew, arms a new timer and sends the request again.\<close>

definition retried :: "nat \<Rightarrow> nat \<Rightarrow> 'u timeout_closure \<Rightarrow> 'u request \<Rightarrow> bytes \<Rightarrow> 'u world \<Rightarrow> 'u world" where
  "retried r i tc q p w =
     called r i p (put_req i (q\<lparr>retry_count := retry_count q - 1\<rparr>)
       (timed_out tc (w\<lparr>timers := take (length (timers w) - 1) (timers w)\<rparr>)))"

lemma timeout_calls_again:
  assumes a: "awaiting m r i x c tc (Suc n) q w"
    and p: "call_package co (rpc_seq x) (q\<lparr>retry_count := int n\<rparr>) = Inr p"
  shows "elapse co m w = Inr (erased r (rpc_seq x - 1) (retried r i tc q p w))"
proof -
  obtain e h where e: "rsp_handle_map (dispatcher x) (rpc_seq x - 1) = Some e" "rsp_handle q = Some h"
    using a by (auto simp: awaiting_def)
  let ?w = "timed_out tc (w\<lparr>timers := take m (timers w)\<rparr>)"
  have "request_call co i None (put_req i (q\<lparr>retry_count := int n\<rparr>) ?w) =
      Inr (called r i p (put_req i (q\<lparr>retry_count := int n\<rparr>) ?w))"
    using a e p
    by (intro request_call_sends [where q = "q\<lparr>retry_count := int n\<rparr>" and x = x and c = c and h = h])
      (simp_all add: awaiting_def put_req_def)
  moreover obtain y where "rpcs (called r i p (put_req i (q\<lparr>retry_count := int n\<rparr>) ?w)) r = Some y"
    using a e by (simp add: called_def awaiting_def put_req_def)
  ultimately show ?thesis
    using a e
    by (simp add: awaiting_def elapse_last fire_timer_entry erased_def retried_def)
qed

lemma timeout_retries:
  assumes a: "awaiting m r i x c tc (Suc n) q w" and p: "total_coder co"
  shows "\<exists>w' x' c' q'. elapse co m w = Inr w' \<and> awaiting m r i x' c' tc n q' w' \<and>
    rpc_conn x' = rpc_conn x \<and> rpc_seq x' = rpc_seq x + 1 \<and>
    (\<exists>b. call_package co (rpc_seq x) q = Inr b \<and> outbox c' = outbox c @ [b]) \<and>
    (\<forall>s. call_package co s q' = call_package co s q) \<and> user w' = timeout_effect tc (user w) \<and> finally_fn q' = finally_fn q \<and>
    refs q' = refs q \<and> filter (\<lambda>e. e \<noteq> TimeoutCb i) (events w') = filter (\<lambda>e. e \<noteq> TimeoutCb i) (events w)"
proof -
  obtain b where b: "call_package co (rpc_seq x) (q\<lparr>retry_count := int n\<rparr>) = Inr b"
    using p unfolding total_coder_def call_package_def by blast
  obtain h where h: "rsp_handle q = Some h" using a by (auto simp: awaiting_def)
  define w' where "w' = erased r (rpc_seq x - 1) (retried r i tc q b w)"
  define x' where "x' = (await x h)\<lparr>dispatcher := erase_rsp (rpc_seq x - 1) (dispatcher (await x h))\<rparr>"
  define q' where "q' = sent_request (rpc_seq x) (q\<lparr>retry_count := int n\<rparr>)"
  define c' where "c' = c\<lparr>outbox := outbox c @ [b]\<rparr>"
  have t: "length (timers w) = Suc m" "tc_this tc = i" using a by (simp_all add: awaiting_def)
  have w: "rpcs w' r = Some x'" "reqs w' i = Some q'" "conns w' (rpc_conn x) = Some c'"
      "timers w' = take m (timers w) @ [call_timer r x q]" "user w' = timeout_effect tc (user w)"
      "events w' = events (timed_out tc w)"
    using a h t
    by (simp_all add: w'_def erased_def retried_def called_def awaiting_def put_defs put_dispatcher_def x'_def
        q'_def c'_def call_timer_def timed_out_def timeout_effect_def split: option.split)
  have "awaiting m r i x' c' tc n q' w'"
    using a h w t
    by (simp add: awaiting_def x'_def q'_def c'_def await_def sent_request_def call_timer_def nth_append)
  moreover have "call_package co s q' = call_package co s q" "call_package co s (q\<lparr>retry_count := k\<rparr>) = call_package co s q"
    for s k
    by (simp_all add: call_package_def q'_def sent_request_def request_msg_def)
  moreover note b
  moreover have "elapse co m w = Inr w'" using timeout_calls_again [OF a b] by (simp add: w'_def)
  moreover have "filter (\<lambda>e. e \<noteq> TimeoutCb i) (events w') = filter (\<lambda>e. e \<noteq> TimeoutCb i) (events w)"
    using w(6) t by (simp add: timed_out_def put_defs split: option.split)
  ultimately show ?thesis
    using w by (intro exI [of _ w'] exI [of _ x'] exI [of _ c'] exI [of _ q'])
      (simp add: x'_def await_def c'_def, simp add: q'_def sent_request_def)
qed

text \<open>The last timer elapses \<open>k\<close> times.\<close>

fun elapses :: "coder \<Rightarrow> nat \<Rightarrow> nat \<Rightarrow> 'u world \<Rightarrow> 'u world res" where
  "elapses co m 0 w = Inr w"
| "elapses co m (Suc k) w = bindr (elapse co m w) (elapses co m k)"

lemma elapses_awaiting:
  assumes "awaiting m r i x c tc n q w" "total_coder co"
  shows "\<exists>w' c' ps. elapses co m (Suc n) w = Inr w' \<and>
    conns w' (rpc_conn x) = Some c' \<and> outbox c' = outbox c @ ps \<and>
    map Inr ps = map (\<lambda>k. call_package co (rpc_seq x + of_nat k) q) [0..<n] \<and>
    (\<forall>q'. reqs w' i = Some q' \<longrightarrow> \<not> waiting_rsp q') \<and>
    user w' = (case finally_fn q of None \<Rightarrow> (\<lambda>u. u) | Some f \<Rightarrow> f timeout) ((timeout_effect tc ^^ Suc n) (user w)) \<and>
    filter (\<lambda>e. e \<noteq> TimeoutCb i) (events w') = filter (\<lambda>e. e \<noteq> TimeoutCb i) (events w) @ [Finish i timeout]"
  using assms(1)
proof (induction n arbitrary: x c q w)
  case 0
  define w1 where "w1 = timed_out tc (w\<lparr>timers := take m (timers w)\<rparr>)"
  have i: "tc_this tc = i" and x: "rpcs w r = Some x" and c: "conns w (rpc_conn x) = Some c"
    using 0 by (simp_all add: awaiting_def)
  have e: "filter (\<lambda>e. e \<noteq> TimeoutCb i) (events w1) = filter (\<lambda>e. e \<noteq> TimeoutCb i) (events w)"
    using i by (simp add: w1_def timed_out_def put_defs split: option.split)
  define w2 where "w2 = erased r (rpc_seq x - 1) (finished i q timeout w1)"
  have r: "reqs w1 = reqs w" "rpcs w1 = rpcs w" "conns w1 = conns w" "user w1 = timeout_effect tc (user w)"
    by (simp_all add: w1_def)
  have "conns w2 (rpc_conn x) = Some c" "events w2 = events w1 @ [Finish i timeout]"
      "user w2 = (case finally_fn q of None \<Rightarrow> user w1 | Some f \<Rightarrow> f timeout (user w1))"
      "\<forall>q'. reqs w2 i = Some q' \<longrightarrow> \<not> waiting_rsp q'"
    using x c r by (auto simp: w2_def erased_def put_dispatcher_def put_rpc_def finished_def)
  moreover have "elapses co m (Suc 0) w = Inr w2"
    using timeout_ends [OF 0, of co] by (simp add: w1_def w2_def)
  ultimately show ?case
    using e r by (intro exI [of _ w2] exI [of _ c] exI [of _ "[]"]) (simp split: option.split)
next
  case (Suc n)
  obtain w' x' c' q' b where s: "elapse co m w = Inr w'" "awaiting m r i x' c' tc n q' w'"
      "rpc_conn x' = rpc_conn x" "rpc_seq x' = rpc_seq x + 1" "call_package co (rpc_seq x) q = Inr b"
      "outbox c' = outbox c @ [b]" "\<And>s. call_package co s q' = call_package co s q"
      "user w' = timeout_effect tc (user w)" "finally_fn q' = finally_fn q"
      "filter (\<lambda>e. e \<noteq> TimeoutCb i) (events w') = filter (\<lambda>e. e \<noteq> TimeoutCb i) (events w)"
    using timeout_retries [OF Suc.prems assms(2)] by blast
  from Suc.IH [OF s(2)] obtain w2 c2 ps where u: "elapses co m (Suc n) w' = Inr w2" "conns w2 (rpc_conn x') = Some c2"
      "outbox c2 = outbox c' @ ps" "map Inr ps = map (\<lambda>k. call_package co (rpc_seq x' + of_nat k) q') [0..<n]"
      "\<forall>q'. reqs w2 i = Some q' \<longrightarrow> \<not> waiting_rsp q'"
      "user w2 = (case finally_fn q' of None \<Rightarrow> (\<lambda>u. u) | Some f \<Rightarrow> f timeout) ((timeout_effect tc ^^ Suc n) (user w'))"
      "filter (\<lambda>e. e \<noteq> TimeoutCb i) (events w2) = filter (\<lambda>e. e \<noteq> TimeoutCb i) (events w') @ [Finish i timeout]"
    by blast
  have "map Inr (b # ps) = map (\<lambda>k. call_package co (rpc_seq x + of_nat k) q) [0..<Suc n]"
    unfolding map_upt_Suc using s(4,5,7) u(4) by (simp add: add.assoc)
  with s u show ?case
    by (intro exI [of _ w2] exI [of _ c2] exI [of _ "b # ps"]) (simp add: funpow_swap1)
qed

section \<open>The package at the peer\<close>

text \<open>What the coder's contract gives: a serialized message arrives as what it carries.\<close>

context message_coder
begin

lemma recv_package_dispatches:
  assumes "wire m" "co_serialize co m = Inr p"
    and "conns w c = Some x" "on_recv_package x = DispatcherRecv r" "rpcs w r = Some y"
  shows "recv_package co c p w = dispatch co r (received m) w"
  using assms deserialize_of_serialize [OF assms(1,2)] by (simp add: recv_package_def)

end

lemma received_simps [simp]:
  "m_seq (received m) = m_seq m" "m_cmd (received m) = m_cmd m" "m_type (received m) = m_type m"
  "m_data (received m) = m_body m"
  by (simp_all add: received_def empty_msg_def)

lemma request_msg_simps [simp]:
  "m_seq (request_msg q) = req_seq q" "m_cmd (request_msg q) = req_cmd q"
  "m_type (request_msg q) = request_type (is_ping q) (need_rsp_flag q)" "m_body (request_msg q) = payload q"
  by (simp_all add: request_msg_def empty_msg_def m_body_def)

text \<open>What the four synchronous forms of \<open>subscribe\<close> answer.\<close>

definition rsp_msg :: "seq_type \<Rightarrow> bytes \<Rightarrow> msg_wrapper" where
  "rsp_msg s d = empty_msg\<lparr>m_type := response, m_seq := s, m_data := d\<rparr>"

lemma rsp_msg_simps [simp]:
  "m_seq (rsp_msg s d) = s" "m_type (rsp_msg s d) = response" "m_cmd (rsp_msg s d) = []"
  "m_body (rsp_msg s d) = d" "m_response_state (rsp_msg s d) = response_sync"
  by (simp_all add: rsp_msg_def empty_msg_def m_body_def)

lemma make_rsp_some: "serialize r v = Inr d \<Longrightarrow> make_rsp r s (Some v) True = Inr (True, rsp_msg s d)"
  by (simp add: make_rsp_def rsp_msg_def empty_msg_def)

lemma make_rsp_none: "make_rsp r s None True = Inr (True, rsp_msg s [])"
  by (simp add: make_rsp_def rsp_msg_def empty_msg_def)

text \<open>A synchronous handler that answers the message with \<open>d\<close> and leaves \<open>u'\<close>.\<close>

definition answers :: "'u cmd_handle \<Rightarrow> msg_wrapper \<Rightarrow> 'u \<Rightarrow> bytes \<Rightarrow> 'u \<Rightarrow> bool" where
  "answers fn msg u d u' \<longleftrightarrow>
     (case fn of
        SyncHandle f \<Rightarrow> f msg u = Inr ((True, rsp_msg (m_seq msg) d), u')
      | AsyncHandle b f \<Rightarrow> False)"

lemma answers_ret_param:
  "deserialize p (m_data msg) = Inr (True, v) \<Longrightarrow> handle v u = (ret, u') \<Longrightarrow> serialize r ret = Inr d \<Longrightarrow>
     answers (handle_ret_param p r handle) msg u d u'"
  by (simp add: answers_def handle_ret_param_def unpack_as_def make_rsp_some)

lemma answers_void_param:
  "deserialize p (m_data msg) = Inr (True, v) \<Longrightarrow>
     answers (handle_void_param p handle) msg u [] (handle v u)"
  by (simp add: answers_def handle_void_param_def unpack_as_def make_rsp_none Let_def)

lemma answers_ret_void:
  "handle u = (ret, u') \<Longrightarrow> serialize r ret = Inr d \<Longrightarrow> answers (handle_ret_void r handle) msg u d u'"
  by (simp add: answers_def handle_ret_void_def make_rsp_some)

lemma answers_void_void: "answers (handle_void_void handle) msg u [] (handle u)"
  by (simp add: answers_def handle_void_void_def make_rsp_none Let_def)

lemma dispatch_answers:
  assumes "rpcs w r = Some x" "dispatch_kind (m_type msg) = command" "\<not> has_flag (m_type msg) ping"
    and "has_flag (m_type msg) need_rsp" "cmd_handle_map (dispatcher x) (m_cmd msg) = Some fn"
    and "answers fn msg (user w) d u'"
  shows "dispatch co r msg w =
    send_msg co (dispatcher_conn (dispatcher x)) (rsp_msg (m_seq msg) d) (w\<lparr>user := u'\<rparr>)"
  using assms
  by (simp add: dispatch_def dispatch_command_def answers_def run_cmd_handle_def respond_def Let_def
      split: cmd_handle.splits)

lemma dispatch_unknown:
  assumes "rpcs w r = Some x" "dispatch_kind (m_type msg) = command" "\<not> has_flag (m_type msg) ping"
    and "cmd_handle_map (dispatcher x) (m_cmd msg) = None"
  shows "dispatch co r msg w =
    (if has_flag (m_type msg) need_rsp
     then send_msg co (dispatcher_conn (dispatcher x))
       (empty_msg\<lparr>m_seq := m_seq msg, m_type := response OR no_such_cmd\<rparr>) w
     else Inr w)"
  using assms by (simp add: dispatch_def dispatch_command_def Let_def)

lemma dispatch_ping:
  assumes "rpcs w r = Some x" "dispatch_kind (m_type msg) = command" "has_flag (m_type msg) ping"
  shows "dispatch co r msg w =
    send_msg co (dispatcher_conn (dispatcher x)) (msg\<lparr>m_type := response OR pong\<rparr>) w"
  using assms by (simp add: dispatch_def dispatch_command_def Let_def)

section \<open>A call and its answer\<close>

text \<open>
  A caller and a peer: two rpc objects on two connections, a request ready to be called through the
  first.
\<close>

record 'u scene =
  s_rpc :: nat
  s_caller :: "'u rpc"
  s_conn :: connection
  s_peer_rpc :: nat
  s_peer :: "'u rpc"
  s_peer_conn :: connection
  s_id :: nat
  s_req :: "'u request"
  s_handle :: "'u rsp_handle"

definition staged :: "'u scene \<Rightarrow> 'u world \<Rightarrow> bool" where
  "staged s w \<longleftrightarrow>
     s_rpc s \<noteq> s_peer_rpc s \<and> rpc_conn (s_caller s) \<noteq> rpc_conn (s_peer s) \<and>
     rpcs w (s_rpc s) = Some (s_caller s) \<and> rpcs w (s_peer_rpc s) = Some (s_peer s) \<and>
     dispatcher_conn (dispatcher (s_peer s)) = rpc_conn (s_peer s) \<and>
     conns w (rpc_conn (s_caller s)) = Some (s_conn s) \<and>
     conns w (rpc_conn (s_peer s)) = Some (s_peer_conn s) \<and>
     send_package_impl (s_conn s) = UserSend \<and> send_package_impl (s_peer_conn s) = UserSend \<and>
     on_recv_package (s_conn s) = DispatcherRecv (s_rpc s) \<and>
     on_recv_package (s_peer_conn s) = DispatcherRecv (s_peer_rpc s) \<and>
     rpc_is_ready (s_caller s) \<and> timer_impl (dispatcher (s_caller s)) \<and>
     reqs w (s_id s) = Some (s_req s) \<and> \<not> canceled_flag (s_req s) \<and> need_rsp_flag (s_req s) \<and>
     req_rpc (s_req s) = Some (s_rpc s) \<and> rsp_handle (s_req s) = Some (s_handle s) \<and>
     rh_this (s_handle s) = s_id s"

text \<open>The call, the peer's package, the caller's package: the world after each, and the packages.\<close>

definition conversation ::
  "coder \<Rightarrow> 'u scene \<Rightarrow> 'u world \<Rightarrow> (bytes \<times> bytes \<times> 'u world) res" where
  "conversation co s w =
     bindr (request_call co (s_id s) None w) (\<lambda>w1.
     with_conn (rpc_conn (s_caller s)) w1 (\<lambda>c1.
       let p1 = last (outbox c1)
       in bindr (recv_package co (rpc_conn (s_peer s)) p1 w1) (\<lambda>w2.
          with_conn (rpc_conn (s_peer s)) w2 (\<lambda>c2.
            let p2 = last (outbox c2)
            in mapr (\<lambda>w3. (p1, p2, w3)) (recv_package co (rpc_conn (s_caller s)) p2 w2)))))"

text \<open>The request as it is sent, and the observations at the end of a conversation.\<close>

definition scene_msg :: "'u scene \<Rightarrow> msg_wrapper" where
  "scene_msg s = request_msg ((s_req s)\<lparr>req_seq := rpc_seq (s_caller s)\<rparr>)"

lemma scene_msg_simps [simp]:
  "m_seq (scene_msg s) = rpc_seq (s_caller s)" "m_cmd (scene_msg s) = req_cmd (s_req s)"
  "m_type (scene_msg s) = request_type (is_ping (s_req s)) (need_rsp_flag (s_req s))"
  "m_body (scene_msg s) = payload (s_req s)"
  by (simp_all add: scene_msg_def)

definition concluded ::
  "'u scene \<Rightarrow> 'u world \<Rightarrow> bytes \<Rightarrow> bytes \<Rightarrow> finally_t \<Rightarrow> 'u \<Rightarrow> 'u world \<Rightarrow> bool" where
  "concluded s w p1 p2 ty u w' \<longleftrightarrow>
     user w' = (case finally_fn (s_req s) of None \<Rightarrow> u | Some f \<Rightarrow> f ty u) \<and>
     events w' = events w @ [Finish (s_id s) ty] \<and>
     reqs w' (s_id s) =
       (if refs (s_req s) = 0 then None
        else Some ((s_req s)\<lparr>req_seq := rpc_seq (s_caller s), waiting_rsp := False,
                             finally_type := ty, self_keeper := False\<rparr>)) \<and>
     conns w' (rpc_conn (s_caller s)) = Some ((s_conn s)\<lparr>outbox := outbox (s_conn s) @ [p1]\<rparr>) \<and>
     conns w' (rpc_conn (s_peer s)) = Some ((s_peer_conn s)\<lparr>outbox := outbox (s_peer_conn s) @ [p2]\<rparr>) \<and>
     (\<exists>x. rpcs w' (s_rpc s) = Some x \<and> rsp_handle_map (dispatcher x) (rpc_seq (s_caller s)) = None) \<and>
     rpcs w' (s_peer_rpc s) = Some (s_peer s)"

context message_coder
begin

lemma conversation_concludes:
  assumes st: "staged s w" and wire: "wire (scene_msg s)" "wire rsp"
    and peer: "\<And>w1. user w1 = user w \<Longrightarrow> rpcs w1 (s_peer_rpc s) = Some (s_peer s) \<Longrightarrow>
      dispatch co (s_peer_rpc s) (received (scene_msg s)) w1 =
        send_msg co (rpc_conn (s_peer s)) rsp (w1\<lparr>user := u'\<rparr>)"
    and rsp: "dispatch_kind (m_type rsp) = response" "m_seq rsp = rpc_seq (s_caller s)"
    and out: "rsp_outcome (s_req s) (rh_cb (s_handle s)) (received rsp) = Inr ((ok, ty), f)"
  shows "\<exists>p1 p2 w'. conversation co s w = Inr (p1, p2, w') \<and>
    co_serialize co (scene_msg s) = Inr p1 \<and> co_serialize co rsp = Inr p2 \<and> concluded s w p1 p2 ty (f u') w'"
proof -
  obtain p1 where p1: "co_serialize co (scene_msg s) = Inr p1" using serialize_total wire by blast
  obtain p2 where p2: "co_serialize co rsp = Inr p2" using serialize_total wire by blast
  let ?x = "s_caller s" and ?q = "s_req s" and ?c = "s_conn s" and ?pc = "s_peer_conn s"
  define w1 where "w1 = called (s_rpc s) (s_id s) p1 w"
  have c1: "request_call co (s_id s) None w = Inr w1"
    unfolding w1_def
    by (rule request_call_sends) (use st p1 in \<open>auto simp: staged_def call_package_def scene_msg_def\<close>)
  have w1: "user w1 = user w" "events w1 = events w"
      "rpcs w1 (s_peer_rpc s) = Some (s_peer s)" "rpcs w1 (s_rpc s) = Some (await ?x (s_handle s))"
      "reqs w1 (s_id s) = Some (sent_request (rpc_seq ?x) ?q)"
      "conns w1 (rpc_conn ?x) = Some (?c\<lparr>outbox := outbox ?c @ [p1]\<rparr>)"
      "conns w1 (rpc_conn (s_peer s)) = Some ?pc"
    using st by (auto simp: w1_def called_def staged_def)
  define w2 where "w2 = put_conn (rpc_conn (s_peer s)) (?pc\<lparr>outbox := outbox ?pc @ [p2]\<rparr>) (w1\<lparr>user := u'\<rparr>)"
  have "recv_package co (rpc_conn (s_peer s)) p1 w1 = send_msg co (rpc_conn (s_peer s)) rsp (w1\<lparr>user := u'\<rparr>)"
    using recv_package_dispatches [OF wire(1) p1 w1(7) _ w1(3)] peer [OF w1(1,3)] st
    by (simp add: staged_def)
  also have "\<dots> = Inr w2"
    using w1(7) st p2 by (simp add: send_msg_def send_package_def staged_def w2_def)
  finally have c2: "recv_package co (rpc_conn (s_peer s)) p1 w1 = Inr w2" .
  have w2: "user w2 = u'" "events w2 = events w" "rpcs w2 (s_rpc s) = Some (await ?x (s_handle s))"
      "rpcs w2 (s_peer_rpc s) = Some (s_peer s)" "s_peer_rpc s \<noteq> s_rpc s"
      "reqs w2 (s_id s) = Some (sent_request (rpc_seq ?x) ?q)"
      "conns w2 (rpc_conn ?x) = Some (?c\<lparr>outbox := outbox ?c @ [p1]\<rparr>)"
      "conns w2 (rpc_conn (s_peer s)) = Some (?pc\<lparr>outbox := outbox ?pc @ [p2]\<rparr>)"
    using w1 st by (auto simp: w2_def put_conn_def staged_def)
  let ?q2 = "sent_request (rpc_seq ?x) ?q"
  define w3 where "w3 = erased (s_rpc s) (rpc_seq ?x) (finished (s_id s) ?q2 ty (run_user f w2))"
  have id: "rh_this (s_handle s) = s_id s" using st by (simp add: staged_def)
  have out2: "rsp_outcome ?q2 (rh_cb (s_handle s)) (received rsp) = Inr ((ok, ty), f)"
    using out by (simp add: rsp_outcome_def sent_request_def)
  have "recv_package co (rpc_conn ?x) p2 w2 = dispatch co (s_rpc s) (received rsp) w2"
    by (rule recv_package_dispatches [OF wire(2) p2 w2(7) _ w2(3)]) (use st in \<open>simp add: staged_def\<close>)
  also have "\<dots> = dispatch_response (s_rpc s) (dispatcher (await ?x (s_handle s))) (received rsp) w2"
    using w2(3) rsp by (simp add: dispatch_def Let_def)
  also have "\<dots> = Inr w3"
    using dispatch_response_waiting [OF w2(3), of "received rsp" "s_handle s" ?q2] w2(6) id out2 rsp(2)
    by (simp add: await_def w3_def) (simp add: sent_request_def)
  finally have c3: "recv_package co (rpc_conn ?x) p2 w2 = Inr w3" .
  have "conversation co s w = Inr (p1, p2, w3)"
    using c1 c2 c3 w1(6) w2(8) by (simp add: conversation_def)
  moreover have "concluded s w p1 p2 ty (f u') w3"
    using w2
    by (simp add: concluded_def w3_def erased_def put_dispatcher_def put_rpc_def finished_def run_user_def
        sent_request_def await_def split: option.split)
  ultimately show ?thesis using p1 p2 by blast
qed

end

lemma set_user_same: "w\<lparr>user := user w\<rparr> = (w :: 'u world)"
  by (cases w) simp

section \<open>A sample scene\<close>

text \<open>A peer with one handler, which adds one to an integer and counts its calls in the user's state.\<close>

definition scene_conn :: "nat \<Rightarrow> connection" where
  "scene_conn r = \<lparr>send_package_impl = UserSend, on_recv_package = DispatcherRecv r, outbox = []\<rparr>"

definition succ_handle :: "int cmd_handle" where
  "succ_handle =
     handle_ret_param (int_codec True 32) (int_codec True 32) (\<lambda>v u. (v + 1, u + 1))"

definition sample_scene :: "cmd_type \<Rightarrow> bool \<Rightarrow> int scene" where
  "sample_scene cmd pings =
     \<lparr>s_rpc = 0,
      s_caller = (new_rpc 0)\<lparr>rpc_is_ready := True, dispatcher := set_timer_impl True (new_dispatcher 0)\<rparr>,
      s_conn = scene_conn 0, s_peer_rpc = 1,
      s_peer = (new_rpc 1)\<lparr>dispatcher := subscribe_cmd [99] succ_handle (new_dispatcher 1)\<rparr>,
      s_peer_conn = scene_conn 1, s_id = 0,
      s_req = (req_rsp 0 (rsp_cb1 (int_codec True 32) (\<lambda>v u. 10 * v + u)) (new_request (Some 0)))
        \<lparr>req_cmd := cmd, payload := [1, 41], is_ping := pings\<rparr>,
      s_handle = \<lparr>rh_this = 0, rh_cb = rsp_cb1 (int_codec True 32) (\<lambda>v u. 10 * v + u)\<rparr>\<rparr>"

definition scene_world :: "int scene \<Rightarrow> int world" where
  "scene_world s =
     (empty_world 0)
       \<lparr>conns := [0 \<mapsto> s_conn s, 1 \<mapsto> s_peer_conn s], rpcs := [0 \<mapsto> s_caller s, 1 \<mapsto> s_peer s],
        reqs := [0 \<mapsto> s_req s], next_req := 1\<rparr>"

lemma sample_staged: "staged (sample_scene cmd b) (scene_world (sample_scene cmd b))"
  by (simp add: staged_def sample_scene_def scene_world_def scene_conn_def new_rpc_def new_dispatcher_def
      set_timer_impl_def subscribe_cmd_def req_rsp_def new_request_def)

lemma sample_scene_simps [simp]:
  "rpc_seq (s_caller (sample_scene cmd b)) = 0"
  "cmd_handle_map (dispatcher (s_peer (sample_scene cmd b))) c = (if c = [99] then Some succ_handle else None)"
  "req_cmd (s_req (sample_scene cmd b)) = cmd" "is_ping (s_req (sample_scene cmd b)) = b"
  "payload (s_req (sample_scene cmd b)) = [1, 41]" "canceled_flag (s_req (sample_scene cmd b)) = False"
  "rh_cb (s_handle (sample_scene cmd b)) = rsp_cb1 (int_codec True 32) (\<lambda>v u. 10 * v + u)"
  "user (scene_world s) = 0"
  by (simp_all add: sample_scene_def scene_world_def new_rpc_def new_dispatcher_def subscribe_cmd_def
      req_rsp_def new_request_def empty_world_def)

section \<open>Conversations with a handler, and with none\<close>

lemma conversation_answered:
  assumes "message_coder co wire" "staged s w" "wire (scene_msg s)"
    and "wire (rsp_msg (rpc_seq (s_caller s)) d)"
    and "codec p okp" "okp v" "serialize p v = Inr (payload (s_req s))" "length (payload (s_req s)) < 2 ^ 64"
    and "cmd_handle_map (dispatcher (s_peer s)) (req_cmd (s_req s)) = Some (handle_ret_param p r handle)"
    and "\<not> is_ping (s_req s)"
    and "handle v (user w) = (ret, u')" "serialize r ret = Inr d"
    and out: "rsp_effect (rh_cb (s_handle s)) (received (rsp_msg (rpc_seq (s_caller s)) d)) = Inr ((True, ty), f)"
  shows "\<exists>p1 p2 w'. conversation co s w = Inr (p1, p2, w') \<and> co_serialize co (scene_msg s) = Inr p1 \<and>
    co_serialize co (rsp_msg (rpc_seq (s_caller s)) d) = Inr p2 \<and> concluded s w p1 p2 ty (f u') w'"
proof (rule message_coder.conversation_concludes [OF assms(1-4), where u' = u' and f = f and ok = True])
  have dp: "deserialize p (payload (s_req s)) = Inr (True, v)"
    using codec.serialize_deserialize [OF assms(5-8)] .
  have need: "need_rsp_flag (s_req s)" "\<not> canceled_flag (s_req s)"
    and dc: "dispatcher_conn (dispatcher (s_peer s)) = rpc_conn (s_peer s)"
    using assms(2) by (simp_all add: staged_def)
  show "dispatch co (s_peer_rpc s) (received (scene_msg s)) w1 =
      send_msg co (rpc_conn (s_peer s)) (rsp_msg (rpc_seq (s_caller s)) d) (w1\<lparr>user := u'\<rparr>)"
    if "user w1 = user w" "rpcs w1 (s_peer_rpc s) = Some (s_peer s)" for w1
    using that dp need dc assms(9-12)
      dispatch_answers [OF that(2), of "received (scene_msg s)" "handle_ret_param p r handle" d u']
      answers_ret_param [of p "received (scene_msg s)" v handle "user w" ret u' r d]
    by (simp add: scene_msg_def)
  show "rsp_outcome (s_req s) (rh_cb (s_handle s)) (received (rsp_msg (rpc_seq (s_caller s)) d)) =
      Inr ((True, ty), f)"
    using out need by (simp add: rsp_outcome_def)
qed simp_all

lemma conversation_unknown:
  assumes "message_coder co wire" "staged s w" "wire (scene_msg s)"
    and "wire (empty_msg\<lparr>m_seq := rpc_seq (s_caller s), m_type := response OR no_such_cmd\<rparr>)"
    and "cmd_handle_map (dispatcher (s_peer s)) (req_cmd (s_req s)) = None" "\<not> is_ping (s_req s)"
  shows "\<exists>p1 p2 w'. conversation co s w = Inr (p1, p2, w') \<and> co_serialize co (scene_msg s) = Inr p1 \<and>
    co_serialize co (empty_msg\<lparr>m_seq := rpc_seq (s_caller s), m_type := response OR no_such_cmd\<rparr>) = Inr p2 \<and>
    concluded s w p1 p2 finally_no_such_cmd (user w) w'"
proof -
  let ?rsp = "empty_msg\<lparr>m_seq := rpc_seq (s_caller s), m_type := response OR no_such_cmd\<rparr>"
  have need: "need_rsp_flag (s_req s)" "\<not> canceled_flag (s_req s)"
    and dc: "dispatcher_conn (dispatcher (s_peer s)) = rpc_conn (s_peer s)"
    using assms(2) by (simp_all add: staged_def)
  have "\<exists>p1 p2 w'. conversation co s w = Inr (p1, p2, w') \<and> co_serialize co (scene_msg s) = Inr p1 \<and>
      co_serialize co ?rsp = Inr p2 \<and> concluded s w p1 p2 finally_no_such_cmd ((\<lambda>u. u) (user w)) w'"
  proof (rule message_coder.conversation_concludes [OF assms(1-4), where u' = "user w" and f = "\<lambda>u. u" and ok = True])
    show "dispatch co (s_peer_rpc s) (received (scene_msg s)) w1 =
        send_msg co (rpc_conn (s_peer s)) ?rsp (w1\<lparr>user := user w\<rparr>)"
      if "user w1 = user w" "rpcs w1 (s_peer_rpc s) = Some (s_peer s)" for w1
    proof -
      have "w1\<lparr>user := user w\<rparr> = w1" using set_user_same [of w1] that(1) by simp
      note same = this
      show ?thesis
        unfolding same
        using that dispatch_unknown [OF that(2), of "received (scene_msg s)" co] need dc assms(5,6)
        by (simp add: scene_msg_def)
    qed
    show "rsp_outcome (s_req s) (rh_cb (s_handle s)) (received ?rsp) = Inr ((True, finally_no_such_cmd), \<lambda>u. u)"
      using need by (simp add: rsp_outcome_def empty_msg_def)
  qed (simp_all add: empty_msg_def)
  then show ?thesis by blast
qed

text \<open>Why a call is not made, read off the guards of \<open>request::call\<close>.\<close>

definition refusal :: "'u request \<Rightarrow> 'u world \<Rightarrow> finally_t option" where
  "refusal q w =
     (if canceled_flag q then Some canceled
      else case rpc_lock q w of
             None \<Rightarrow> Some rpc_expired
           | Some r \<Rightarrow>
               (case rpcs w r of
                  Some x \<Rightarrow> if rpc_is_ready x then None else Some rpc_not_ready
                | None \<Rightarrow> None))"

lemma refused_call:
  assumes "reqs w i = Some q" "refusal q w = Some ty"
  shows "\<exists>w'. request_call co i None w = Inr w' \<and>
    events w' = events w @ [Finish i ty] \<and>
    user w' = (case finally_fn q of None \<Rightarrow> user w | Some f \<Rightarrow> f ty (user w)) \<and>
    conns w' = conns w \<and> rpcs w' = rpcs w \<and> timers w' = timers w"
proof -
  have f: "\<exists>w'. on_finish i ty (put_req i q' w) = Inr w' \<and> events w' = events w @ [Finish i ty] \<and>
      user w' = (case finally_fn q of None \<Rightarrow> user w | Some f \<Rightarrow> f ty (user w)) \<and>
      conns w' = conns w \<and> rpcs w' = rpcs w \<and> timers w' = timers w"
    if "waiting_rsp q'" "finally_fn q' = finally_fn q" for q'
    using that on_finish_finished [of "put_req i q' w" i q' ty]
    by (simp add: put_req_def split: option.split)
  show ?thesis
    using assms f [of "q\<lparr>waiting_rsp := True\<rparr>"] f [of "q\<lparr>waiting_rsp := True, self_keeper := True\<rparr>"]
    by (auto simp: refusal_def request_call_branches Let_def with_rpc_def split: if_splits option.splits)
qed

section \<open>Properties\<close>

text \<open>
  C2: A call is answered: over any coder that keeps its contract and any codecs of the request's and
  the response's types that keep theirs, the caller's package makes the peer run its handler on the
  value the caller put in, once, and the peer's package makes the caller's callback run on the value
  the handler returned, once, after which the call ends with \<open>normal\<close>, the handler is no longer
  registered, and exactly one package went each way.
\<close>

theorem call_is_answered:
  assumes "message_coder co wire" "staged s w" "wire (scene_msg s)"
    and "wire (rsp_msg (rpc_seq (s_caller s)) d)"
    and "codec p okp" "okp v" "serialize p v = Inr (payload (s_req s))" "length (payload (s_req s)) < 2 ^ 64"
    and "cmd_handle_map (dispatcher (s_peer s)) (req_cmd (s_req s)) = Some (handle_ret_param p r handle)"
    and "\<not> is_ping (s_req s)"
    and "handle v (user w) = (ret, u')"
    and "codec r okr" "okr ret" "serialize r ret = Inr d" "length d < 2 ^ 64"
    and "rh_cb (s_handle s) = rsp_cb1 r g"
  shows "\<exists>p1 p2 w'. conversation co s w = Inr (p1, p2, w') \<and> co_serialize co (scene_msg s) = Inr p1 \<and>
    co_serialize co (rsp_msg (rpc_seq (s_caller s)) d) = Inr p2 \<and>
    concluded s w p1 p2 normal (g ret u') w'"
proof (rule conversation_answered [OF assms(1-11,14)])
  have "deserialize r d = Inr (True, ret)"
    using codec.serialize_deserialize [OF assms(12-15)] .
  then show "rsp_effect (rh_cb (s_handle s)) (received (rsp_msg (rpc_seq (s_caller s)) d)) = Inr ((True, normal), g ret)"
    using assms(16) by (simp add: rsp_cb1_def)
qed

theorem call_is_answered_witness:
  "\<exists>p1 p2 w'. conversation coder_default (sample_scene [99] False) (scene_world (sample_scene [99] False)) =
       Inr (p1, p2, w') \<and>
     coder_serialize (scene_msg (sample_scene [99] False)) = Inr p1 \<and>
     coder_serialize (rsp_msg 0 [1, 42]) = Inr p2 \<and>
     concluded (sample_scene [99] False) (scene_world (sample_scene [99] False)) p1 p2 normal 421 w'"
proof -
  have s: "serialize (int_codec True 32) 41 = Inr [1, 41]" "serialize (int_codec True 32) 42 = Inr [1, 42]"
    by code_simp+
  show ?thesis
    using call_is_answered [OF default_coder.message_coder_axioms sample_staged, of "[99]" False "[1, 42]"
        "int_codec True 32" "auto_ok True 32" 41 "int_codec True 32" "\<lambda>v u. (v + 1, u + 1)" 42 1
        "auto_ok True 32" "\<lambda>v u. 10 * v + u"] s int.codec_axioms
    by (simp add: coder_wire_def scene_msg_def rsp_msg_def empty_msg_def succ_handle_def coder_default_def auto_ok_def
        int_range_def)
qed

text \<open>
  C29: A call of a command that the peer has not subscribed ends with \<open>no_such_cmd\<close>: the peer's only
  package is the response of this type with the number of the call, the user's callback does not run,
  and the peer's rpc object, with its table of commands, is as before.
\<close>

theorem call_of_unknown_command:
  assumes "message_coder co wire" "staged s w" "wire (scene_msg s)"
    and "wire (empty_msg\<lparr>m_seq := rpc_seq (s_caller s), m_type := response OR no_such_cmd\<rparr>)"
    and "cmd_handle_map (dispatcher (s_peer s)) (req_cmd (s_req s)) = None" "\<not> is_ping (s_req s)"
  shows "\<exists>p1 p2 w'. conversation co s w = Inr (p1, p2, w') \<and> co_serialize co (scene_msg s) = Inr p1 \<and>
    co_serialize co (empty_msg\<lparr>m_seq := rpc_seq (s_caller s), m_type := response OR no_such_cmd\<rparr>) = Inr p2 \<and>
    concluded s w p1 p2 finally_no_such_cmd (user w) w' \<and> rpcs w' (s_peer_rpc s) = Some (s_peer s)"
  using conversation_unknown [OF assms] by (auto simp: concluded_def)

theorem call_of_unknown_command_witness:
  "\<exists>p1 p2 w'. conversation coder_default (sample_scene [98] False) (scene_world (sample_scene [98] False)) =
       Inr (p1, p2, w') \<and> p2 = [0, 0, 0, 0, 0, 0, 34] \<and>
     concluded (sample_scene [98] False) (scene_world (sample_scene [98] False)) p1 p2 finally_no_such_cmd 0 w' \<and>
     rpcs w' 1 = Some (s_peer (sample_scene [98] False))"
proof -
  have "coder_serialize (empty_msg\<lparr>m_type := response OR no_such_cmd\<rparr>) = Inr [0, 0, 0, 0, 0, 0, 34]"
    by (simp add: coder_serialize_def empty_msg_def flag_defs) code_simp
  moreover have "s_peer_rpc (sample_scene [98] False) = 1" by (simp add: sample_scene_def)
  ultimately show ?thesis
    using call_of_unknown_command [OF default_coder.message_coder_axioms sample_staged, of "[98]" False]
    by (auto simp: coder_wire_def scene_msg_def empty_msg_def coder_default_def)
qed

text \<open>
  C33: A ping is answered by the peer's dispatcher itself, whatever commands are subscribed: the
  caller's payload comes back and the caller's callback runs on it.
\<close>

theorem ping_is_answered:
  assumes "message_coder co wire" "staged s w" "wire (scene_msg s)"
    and "wire ((received (scene_msg s))\<lparr>m_type := response OR pong\<rparr>)"
    and "is_ping (s_req s)" "deserialize r (payload (s_req s)) = Inr (True, v)"
    and "rh_cb (s_handle s) = rsp_cb1 r g"
  shows "\<exists>p1 p2 w'. conversation co s w = Inr (p1, p2, w') \<and>
    concluded s w p1 p2 normal (g v (user w)) w'"
proof -
  let ?rsp = "(received (scene_msg s))\<lparr>m_type := response OR pong\<rparr>"
  have need: "need_rsp_flag (s_req s)" "\<not> canceled_flag (s_req s)"
    and dc: "dispatcher_conn (dispatcher (s_peer s)) = rpc_conn (s_peer s)"
    using assms(2) by (simp_all add: staged_def)
  have m: "m_seq (received (scene_msg s)) = rpc_seq (s_caller s)" by (simp add: scene_msg_def)
  have body: "m_body ?rsp = payload (s_req s)"
    by (simp add: received_def scene_msg_def empty_msg_def)
  have "\<exists>p1 p2 w'. conversation co s w = Inr (p1, p2, w') \<and> co_serialize co (scene_msg s) = Inr p1 \<and>
      co_serialize co ?rsp = Inr p2 \<and> concluded s w p1 p2 normal (g v (user w)) w'"
  proof (rule message_coder.conversation_concludes [OF assms(1-4), where u' = "user w" and f = "g v" and ok = True])
    show "dispatch co (s_peer_rpc s) (received (scene_msg s)) w1 =
        send_msg co (rpc_conn (s_peer s)) ?rsp (w1\<lparr>user := user w\<rparr>)"
      if "user w1 = user w" "rpcs w1 (s_peer_rpc s) = Some (s_peer s)" for w1
    proof -
      have "w1\<lparr>user := user w\<rparr> = w1" using set_user_same [of w1] that(1) by simp
      note same = this
      show ?thesis
        unfolding same
        using that dispatch_ping [OF that(2), of "received (scene_msg s)" co] need dc assms(5)
        by (simp add: scene_msg_def)
    qed
    show "rsp_outcome (s_req s) (rh_cb (s_handle s)) (received ?rsp) = Inr ((True, normal), g v)"
      using need assms(6,7) body by (simp add: rsp_outcome_def rsp_cb1_def)
  qed (simp_all add: m)
  then show ?thesis by blast
qed

theorem ping_is_answered_witness:
  "\<exists>p1 p2 w'. conversation coder_default (sample_scene [] True) (scene_world (sample_scene [] True)) =
       Inr (p1, p2, w') \<and>
     concluded (sample_scene [] True) (scene_world (sample_scene [] True)) p1 p2 normal 410 w'"
proof -
  have "deserialize (int_codec True 32) [1, 41] = Inr (True, 41)" by code_simp
  then show ?thesis
    using ping_is_answered [OF default_coder.message_coder_axioms sample_staged, of "[]" True
        "int_codec True 32" 41 "\<lambda>v u. 10 * v + u"]
    by (simp add: coder_wire_def scene_msg_def)
qed

text \<open>
  C13: A request that waits for a response and is set to retry \<open>n\<close> times, and gets none, sends its
  message \<open>n\<close> more times, once per elapsed timer, with the same command, type and payload and the
  following sequence numbers, and at the next timer ends with \<open>timeout\<close>; the user's timeout callback has
  run \<open>n + 1\<close> times before the \<open>finally\<close> callback.
\<close>

theorem retries_then_timeout:
  assumes "awaiting m r i x c tc n q w" "total_coder co"
  shows "\<exists>w' c' ps. elapses co m (Suc n) w = Inr w' \<and>
    conns w' (rpc_conn x) = Some c' \<and> outbox c' = outbox c @ ps \<and>
    map Inr ps =
      map (\<lambda>k. co_serialize co
             (empty_msg\<lparr>m_seq := rpc_seq x + of_nat k, m_cmd := req_cmd q,
                m_type := request_type (is_ping q) (need_rsp_flag q), m_request_payload := Some (payload q)\<rparr>)) [0..<n] \<and>
    user w' = (case finally_fn q of None \<Rightarrow> (\<lambda>u. u) | Some f \<Rightarrow> f timeout) ((timeout_effect tc ^^ Suc n) (user w)) \<and>
    filter (\<lambda>e. e \<noteq> TimeoutCb i) (events w') = filter (\<lambda>e. e \<noteq> TimeoutCb i) (events w) @ [Finish i timeout]"
proof -
  have p: "call_package co s q = co_serialize co (empty_msg\<lparr>m_seq := s, m_cmd := req_cmd q,
      m_type := request_type (is_ping q) (need_rsp_flag q), m_request_payload := Some (payload q)\<rparr>)" for s
    by (simp add: call_package_def request_msg_def empty_msg_def)
  from elapses_awaiting [OF assms] show ?thesis unfolding p by blast
qed

theorem retries_then_timeout_witness:
  "\<exists>w' c'. elapses coder_default 0 2 (sample_world sample_cb 0) = Inr w' \<and>
     conns w' 0 = Some c' \<and> outbox c' = [[0, 0, 0, 0, 1, 0, 99, 5], [1, 0, 0, 0, 1, 0, 99, 5]] \<and> user w' = 0 \<and>
     filter (\<lambda>e. e \<noteq> TimeoutCb 0) (events w') = [event.Call 0, Finish 0 timeout]"
proof -
  let ?x = "\<lparr>rpc_conn = 0, dispatcher = sample_dispatcher sample_cb, rpc_seq = 1, rpc_is_ready = True\<rparr>"
  let ?c = "sample_conn\<lparr>on_recv_package := DispatcherRecv 0, outbox := [[0, 0, 0, 0, 1, 0, 99, 5]]\<rparr>"
  have "awaiting 0 0 0 ?x ?c \<lparr>tc_this = 0, tc_cb = None\<rparr> 1 (sample_request sample_cb) (sample_world sample_cb 0)"
    by (simp add: awaiting_def sample_timer_def sample_request_def new_request_def sample_world_def
        sample_conn_def sample_dispatcher_def)
  note r = retries_then_timeout [OF this total_coder_default]
  have "co_serialize coder_default (empty_msg\<lparr>m_seq := 1, m_cmd := [99], m_type := request_type False True,
      m_request_payload := Some []\<rparr>) = Inr [1, 0, 0, 0, 1, 0, 99, 5]"
    by (simp add: coder_default_def coder_serialize_def empty_msg_def flag_defs request_type_def) code_simp
  with r show ?thesis
    by (fastforce simp: sample_request_def new_request_def timeout_effect_def numeral_2_eq_2)
qed

text \<open>
  C30: A call that cannot be made ends at once, with the reason, before anything is sent: canceled
  requests with \<open>canceled\<close>, requests of no live rpc object with \<open>rpc_expired\<close>, of one that is not
  ready with \<open>rpc_not_ready\<close>.
\<close>

theorem refused_call_ends_at_once:
  assumes "reqs w i = Some q" "refusal q w = Some ty"
  shows "\<exists>w'. request_call co i None w = Inr w' \<and>
    events w' = events w @ [Finish i ty] \<and>
    user w' = (case finally_fn q of None \<Rightarrow> user w | Some f \<Rightarrow> f ty (user w)) \<and>
    conns w' = conns w \<and> rpcs w' = rpcs w \<and> timers w' = timers w"
  by (rule refused_call [OF assms])

theorem refused_call_ends_at_once_witness:
  "\<exists>w'. request_call coder_default 0 None ((sample_world sample_cb 0)\<lparr>rpcs := Map.empty\<rparr>) = Inr w' \<and>
     events w' = [event.Call 0, Finish 0 rpc_expired]"
  using refused_call_ends_at_once [of "(sample_world sample_cb 0)\<lparr>rpcs := Map.empty\<rparr>" 0
      "sample_request sample_cb" rpc_expired coder_default]
  by (auto simp: refusal_def rpc_lock_def sample_request_def new_request_def)

end
