(* ===== verification/DispatchProps.thy ===== *)
theory DispatchProps
  imports Calls
begin

text \<open>
  Properties of the dispatcher on single packages, whatever they hold: what is ignored, what is
  sent, that a response acts once, and the two orders in which an asynchronous handler may answer.
\<close>

section \<open>What a package can send\<close>

text \<open>At most one package has been sent, on a connection the user has given a send function.\<close>

definition sent_at_most_one :: "'u world \<Rightarrow> 'u world \<Rightarrow> bool" where
  "sent_at_most_one w w' \<longleftrightarrow>
     conns w' = conns w \<or>
     (\<exists>c x b. conns w c = Some x \<and> send_package_impl x = UserSend \<and>
        conns w' = (conns w)(c \<mapsto> x\<lparr>outbox := outbox x @ [b]\<rparr>))"

lemma sent_same [simp]: "conns w' = conns w \<Longrightarrow> sent_at_most_one w w'"
  by (simp add: sent_at_most_one_def)

lemma send_msg_one: "send_msg co c m w = Inr w' \<Longrightarrow> sent_at_most_one w w'"
proof -
  assume "send_msg co c m w = Inr w'"
  then obtain b x where x: "conns w c = Some x" "send_package c b w = Inr w'"
    by (auto simp: send_msg_def send_package_def res_simps)
  show ?thesis
  proof (cases "send_package_impl x = UserSend")
    case True
    with x have "w' = put_conn c (x\<lparr>outbox := outbox x @ [b]\<rparr>) w" by (simp add: send_package_def)
    then have "conns w' = (conns w)(c \<mapsto> x\<lparr>outbox := outbox x @ [b]\<rparr>)" by (simp add: put_conn_def)
    with x True show ?thesis unfolding sent_at_most_one_def by blast
  next
    case False
    with x show ?thesis by (cases "send_package_impl x") (simp_all add: send_package_def)
  qed
qed

lemma sent_conns_eq: "conns w1 = conns w \<Longrightarrow> sent_at_most_one w1 w' = sent_at_most_one w w'"
  by (simp add: sent_at_most_one_def)

text \<open>A handler that answers before \<open>send_async_response\<close> is set sends nothing itself.\<close>

lemma rr_release_conns [simp]: "conns (rr_release k x w) = conns w"
  by (simp add: rr_release_def put_defs)

lemma rr_drop_conns: "rr_drop k w = Inr w' \<Longrightarrow> conns w' = conns w"
  by (auto simp: rr_drop_def split: option.splits)

lemma rr_rsp_conns:
  "rrs w k = Some x \<Longrightarrow> send_async_response x = None \<Longrightarrow> rr_rsp co k d w = Inr w' \<Longrightarrow> conns w' = conns w"
  by (auto simp: rr_rsp_def res_simps Let_def put_rr_def split: if_splits)

lemma run_handler_conns:
  assumes "run_handler co k f w = Inr w'" "rrs w k = Some x" "send_async_response x = None"
  shows "conns w' = conns w"
proof -
  let ?w = "w\<lparr>user := h_user (f (user w))\<rparr>"
  from assms(1) obtain w1 where w1: "(case h_rsp (f (user w)) of None \<Rightarrow> Inr ?w | Some d \<Rightarrow> rr_rsp co k d ?w) = Inr w1"
      "w' = w1 \<or> rr_drop k w1 = Inr w'"
    by (auto simp: run_handler_def Let_def res_simps split: if_splits)
  have "conns w1 = conns ?w"
    using w1(1) assms(2,3) rr_rsp_conns [of ?w k x co] by (auto split: option.splits)
  with w1(2) rr_drop_conns [of k w1 w'] show ?thesis by auto
qed

lemma run_cmd_handle_conns:
  assumes "run_cmd_handle co fn msg w = Inr (resp, w')"
  shows "conns w' = conns w"
proof (cases fn)
  case (SyncHandle f)
  with assms show ?thesis by (auto simp: run_cmd_handle_def res_simps)
next
  case (AsyncHandle sch f)
  let ?w = "put_rr (next_rr w) (new_rr\<lparr>rsp_set := True\<rparr>) (w\<lparr>next_rr := next_rr w + 1\<rparr>)"
  from assms AsyncHandle obtain ok h where
    w': "(if ok then if sch then Inr (?w\<lparr>jobs := jobs ?w @ [(next_rr w, h)]\<rparr>) else run_handler co (next_rr w) h ?w
         else Inr (w\<lparr>next_rr := next_rr w + 1\<rparr>)) = Inr w'"
    unfolding run_cmd_handle_def run_async_handle_def Let_def by (auto simp: res_simps)
  show ?thesis
  proof (cases "ok \<and> \<not> sch")
    case True
    with w' have "run_handler co (next_rr w) h ?w = Inr w'" by simp
    from run_handler_conns [OF this] show ?thesis by (simp add: put_rr_def new_rr_def)
  next
    case False
    with w' show ?thesis by (auto simp: put_rr_def split: if_splits)
  qed
qed

lemma respond_one:
  assumes "respond co c resp w = Inr w'"
  shows "sent_at_most_one w w'"
proof (cases "m_response_state resp")
  case response_async
  with assms obtain k x where x: "rrs w k = Some x" "m_async_helper resp = Some k"
    by (auto simp: respond_def split: option.splits)
  show ?thesis
  proof (cases "rsp_ready x")
    case True
    define y where "y = x\<lparr>rsp_data := [], is_ready_set := False, get_data_set := False\<rparr>"
    have "respond co c resp w =
        (if \<not> is_ready_set x \<or> \<not> get_data_set x then Inl NullCall
         else send_msg co c (resp\<lparr>m_data := rsp_data x\<rparr>) (rr_release k y w))"
      by (simp add: respond_def response_async x True Let_def y_def)
    with assms have "send_msg co c (resp\<lparr>m_data := rsp_data x\<rparr>) (rr_release k y w) = Inr w'"
      by (simp split: if_splits)
    from send_msg_one [OF this] show ?thesis by (simp only: sent_conns_eq [OF rr_release_conns])
  next
    case False
    have "respond co c resp w =
        (if \<not> is_ready_set x then Inl NullCall else Inr (put_rr k (x\<lparr>send_async_response := Some (c, resp)\<rparr>) w))"
      by (simp add: respond_def response_async x False)
    with assms have "w' = put_rr k (x\<lparr>send_async_response := Some (c, resp)\<rparr>) w"
      by (simp split: if_splits)
    then show ?thesis by (simp add: put_rr_def)
  qed
next
  case response_sync
  with assms show ?thesis by (simp add: respond_def send_msg_one)
next
  case serialize_error
  with assms show ?thesis by (simp add: respond_def)
qed

lemma dispatch_command_one:
  assumes "dispatch_command co d msg w = Inr w'"
  shows "sent_at_most_one w w'"
proof (cases "has_flag (m_type msg) ping \<or> cmd_handle_map d (m_cmd msg) = None")
  case True
  with assms have "w' = w \<or> (\<exists>c m. send_msg co c m w = Inr w')"
    by (auto simp: dispatch_command_def Let_def split: if_splits)
  then show ?thesis by (elim disjE exE) (simp_all add: send_msg_one)
next
  case False
  then obtain fn where fn: "cmd_handle_map d (m_cmd msg) = Some fn" by auto
  with False assms obtain resp w1 where w1: "run_cmd_handle co fn msg w = Inr (resp, w1)"
      "w' = w1 \<or> respond co (dispatcher_conn d) (snd resp) w1 = Inr w'"
    by (auto simp: dispatch_command_def Let_def res_simps split: if_splits)
  note c = run_cmd_handle_conns [OF w1(1)]
  from w1(2) show ?thesis
  proof
    assume "w' = w1"
    with c show ?thesis by simp
  next
    assume "respond co (dispatcher_conn d) (snd resp) w1 = Inr w'"
    from respond_one [OF this] show ?thesis by (simp only: sent_conns_eq [OF c])
  qed
qed

lemma on_finish_conns: "on_finish i ty w = Inr w' \<Longrightarrow> conns w' = conns w"
  by (metis finished_simps(1) on_finish_finished on_finish_frame(3) on_finish_ignored sum.inject(2))

lemma run_rsp_handle_finishes:
  "run_rsp_handle h msg w = Inr (b, w') \<Longrightarrow> \<exists>f ty. on_finish (rh_this h) ty (run_user f w) = Inr w'"
  by (auto simp: run_rsp_handle_def Let_def res_simps split: if_splits rsp_cb.splits)
    (metis run_user_id)+

lemma run_rsp_handle_conns:
  assumes "run_rsp_handle h msg w = Inr (b, w')"
  shows "conns w' = conns w"
proof -
  from run_rsp_handle_finishes [OF assms] obtain f ty where "on_finish (rh_this h) ty (run_user f w) = Inr w'" by blast
  from on_finish_conns [OF this] show ?thesis by (simp add: run_user_def)
qed

lemma dispatch_response_conns:
  assumes "dispatch_response r d msg w = Inr w'"
  shows "conns w' = conns w"
proof -
  have "w' = w \<or> (\<exists>h b w1 x. run_rsp_handle h msg w = Inr (b, w1) \<and>
      w' = put_dispatcher r x (erase_rsp (m_seq msg) (dispatcher x)) w1)"
    using assms by (auto simp: dispatch_response_def res_simps split: option.split_asm)
  then show ?thesis
    by (elim disjE exE conjE) (simp_all add: put_dispatcher_def put_rpc_def run_rsp_handle_conns)
qed

section \<open>Sample packages\<close>

lemma sample_conn_0:
  "conns (sample_world cb u) 0 =
     Some (sample_conn\<lparr>on_recv_package := DispatcherRecv 0, outbox := [[0, 0, 0, 0, 1, 0, 99, 5]]\<rparr>)"
  by (simp add: sample_world_def)

lemma deserialize_98:
  "co_deserialize coder_default [5, 0, 0, 0, 1, 0, 98, 5] =
     Inr (Some (empty_msg\<lparr>m_seq := 5, m_cmd := [98], m_type := 5\<rparr>))"
  by (simp add: coder_default_def coder_deserialize_def PayloadMinLen_def Let_def empty_msg_def)

lemma deserialize_7:
  "co_deserialize coder_default [7, 0, 0, 0, 0, 0, 2] =
     Inr (Some (empty_msg\<lparr>m_seq := 7, m_type := 2\<rparr>))"
  by (simp add: coder_default_def coder_deserialize_def PayloadMinLen_def Let_def empty_msg_def)

lemma deserialize_0:
  "co_deserialize coder_default [0, 0, 0, 0, 0, 0, 2] = Inr (Some (empty_msg\<lparr>m_type := 2\<rparr>))"
  by (simp add: coder_default_def coder_deserialize_def PayloadMinLen_def Let_def empty_msg_def)

lemma send_msg_sample: "\<exists>w'. send_msg coder_default 0 m (sample_world cb u) = Inr w'"
proof -
  obtain b where "co_serialize coder_default m = Inr b"
    using total_coder_default by (auto simp: total_coder_def)
  then show ?thesis
    by (simp add: send_msg_def send_package_def sample_conn_0 sample_conn_def)
qed

section \<open>Properties\<close>

text \<open>
  C15: A dispatcher sends at most one package for each one it receives, over a connection it may
  send on, whatever bytes arrive and whatever the handlers do; for a package that is not a command, a
  response among them, no connection sends anything.
\<close>

theorem one_package_one_answer:
  assumes "recv_package co c p w = Inr w'"
  shows "sent_at_most_one w w' \<and>
    (\<forall>m. co_deserialize co p = Inr (Some m) \<and> dispatch_kind (m_type m) \<noteq> command \<longrightarrow> conns w' = conns w)"
proof -
  from assms obtain x where "conns w c = Some x" by (auto simp: recv_package_def res_simps)
  with assms have "w' = w \<or> (\<exists>r m. co_deserialize co p = Inr (Some m) \<and> dispatch co r m w = Inr w')"
    by (cases "on_recv_package x")
      (auto simp: recv_package_def res_simps split: option.split_asm if_split_asm)
  moreover have "sent_at_most_one w w'" if d: "dispatch co r m w = Inr w'" for r m
  proof -
    from d obtain d where "w' = w \<or> dispatch_command co d m w = Inr w' \<or> dispatch_response r d m w = Inr w'"
      by (auto simp: dispatch_def res_simps Let_def split: if_splits)
    then show ?thesis
      using dispatch_command_one [of co d m w w'] dispatch_response_conns [of r d m w w'] by (elim disjE) simp_all
  qed
  moreover have "conns w' = conns w"
    if d: "dispatch co r m w = Inr w'" and k: "dispatch_kind (m_type m) \<noteq> command" for r m
  proof -
    from d k obtain d where "w' = w \<or> dispatch_response r d m w = Inr w'"
      by (auto simp: dispatch_def res_simps Let_def split: if_splits)
    then show ?thesis using dispatch_response_conns [of r d m w w'] by (elim disjE) simp_all
  qed
  ultimately show ?thesis by auto
qed

lemma sample_answer_total:
  "\<exists>w'. recv_package coder_default 0 [0, 0, 0, 0, 0, 0, 2] (sample_world sample_cb 0) = Inr w'"
proof -
  let ?x = "\<lparr>rpc_conn = 0, dispatcher = sample_dispatcher sample_cb, rpc_seq = 1, rpc_is_ready = True\<rparr>"
  have "\<exists>w'. dispatch_response 0 (dispatcher ?x) (empty_msg\<lparr>m_type := 2\<rparr>) (sample_world sample_cb 0) = Inr w'"
    by (rule dispatch_response_total [OF reachable_inv [OF sample_reachable] sample_simps(1)])
      (auto simp: empty_msg_def sample_cb_def)
  then show ?thesis
    by (simp add: recv_package_def sample_conn_0 deserialize_0 dispatch_def dispatch_kind_def flag_defs empty_msg_def)
qed

theorem one_package_one_answer_witness:
  "(\<exists>w'. recv_package coder_default 0 [5, 0, 0, 0, 1, 0, 98, 5] (sample_world sample_cb 0) = Inr w' \<and>
      sent_at_most_one (sample_world sample_cb 0) w') \<and>
   (\<exists>w'. recv_package coder_default 0 [0, 0, 0, 0, 0, 0, 2] (sample_world sample_cb 0) = Inr w' \<and>
      conns w' = conns (sample_world sample_cb 0))"
proof -
  have "\<exists>w'. recv_package coder_default 0 [5, 0, 0, 0, 1, 0, 98, 5] (sample_world sample_cb 0) = Inr w'"
    using send_msg_sample [of "empty_msg\<lparr>m_seq := 5, m_type := response OR no_such_cmd\<rparr>"]
    by (simp add: sample_conn_0 recv_package_def deserialize_98 dispatch_unknown [OF sample_simps(1)]
        dispatch_kind_def has_flag_def flag_defs empty_msg_def sample_dispatcher_def new_dispatcher_def)
  moreover have "dispatch_kind (m_type (empty_msg\<lparr>m_type := 2\<rparr>)) \<noteq> command"
    by (simp add: dispatch_kind_def flag_defs empty_msg_def)
  ultimately show ?thesis using one_package_one_answer sample_answer_total deserialize_0 by blast
qed

text \<open>The packages that mean nothing to the peer that receives them.\<close>

definition meaningless :: "coder \<Rightarrow> 'u rpc \<Rightarrow> bytes \<Rightarrow> bool" where
  "meaningless co x p =
     (case co_deserialize co p of
        Inl e \<Rightarrow> False
      | Inr None \<Rightarrow> True
      | Inr (Some m) \<Rightarrow>
          dispatch_kind (m_type m) \<noteq> command \<and>
          (dispatch_kind (m_type m) = response \<longrightarrow> rsp_handle_map (dispatcher x) (m_seq m) = None))"

text \<open>
  C31: Packages that mean nothing to the receiver change nothing: those that do not deserialize,
  those whose type is neither command nor response, or both, and responses that nobody waits for
  (late, repeated, or never asked for).
\<close>

theorem meaningless_packages_ignored:
  assumes "conns w c = Some y" "on_recv_package y = DispatcherRecv r" "rpcs w r = Some x" "meaningless co x p"
  shows "recv_package co c p w = Inr w"
  using assms
  by (auto simp: meaningless_def recv_package_def dispatch_def dispatch_response_def Let_def
      split: sum.splits option.splits)

theorem meaningless_packages_ignored_witness:
  "recv_package coder_default 0 [7, 0, 0, 0, 0, 0, 2] (sample_world sample_cb 0) = Inr (sample_world sample_cb 0)"
proof (rule meaningless_packages_ignored [OF sample_conn_0 _ sample_simps(1)])
  show "meaningless coder_default \<lparr>rpc_conn = 0, dispatcher = sample_dispatcher sample_cb, rpc_seq = 1, rpc_is_ready = True\<rparr>
      [7, 0, 0, 0, 0, 0, 2]"
    by (simp add: meaningless_def deserialize_7 dispatch_kind_def flag_defs empty_msg_def sample_dispatcher_def)
qed simp

lemma dispatch_response_ends:
  assumes "dispatch_response r (dispatcher x) m w = Inr w'" "rpcs w r = Some x"
    and "rsp_handle_map (dispatcher x) (m_seq m) = Some (Some h)" "reqs w (rh_this h) = Some q" "waiting_rsp q"
  shows "entry w' r (m_seq m) = None \<and> (\<exists>ty. events w' = events w @ [Finish (rh_this h) ty])"
proof -
  from assms(1,3) obtain b w1 y where w1: "run_rsp_handle h m w = Inr (b, w1)" "rpcs w1 r = Some y"
      "w' = put_dispatcher r y (erase_rsp (m_seq m) (dispatcher y)) w1"
    by (auto simp: dispatch_response_def res_simps)
  from run_rsp_handle_finishes [OF w1(1)] obtain f ty where
    "on_finish (rh_this h) ty (run_user f w) = Inr w1" by blast
  with assms(4,5) on_finish_finished [of "run_user f w" "rh_this h" q ty]
  have "events w1 = events w @ [Finish (rh_this h) ty]" by (auto simp: run_user_def finished_def)
  with w1(3) show ?thesis by (auto simp: put_dispatcher_def put_rpc_def entry_def erase_rsp_def)
qed

text \<open>
  C12: A response acts once: if its call waits, delivering it ends the call, with one end, and takes the
  entry out of the table; delivering the same package again, at once, changes nothing at all, whatever
  the first delivery did.
\<close>

theorem response_acts_once:
  assumes "conns w c = Some y" "on_recv_package y = DispatcherRecv r"
    and "co_deserialize co p = Inr (Some m)" "dispatch_kind (m_type m) = response"
    and "recv_package co c p w = Inr w'"
  shows "recv_package co c p w' = Inr w' \<and>
    (\<forall>h q. entry w r (m_seq m) = Some (Some h) \<and> reqs w (rh_this h) = Some q \<and> waiting_rsp q \<longrightarrow>
       entry w' r (m_seq m) = None \<and> (\<exists>ty. events w' = events w @ [Finish (rh_this h) ty]))"
proof (cases "rpcs w r")
  case None
  with assms show ?thesis by (simp add: recv_package_def entry_def)
next
  case (Some x)
  with assms have d: "dispatch_response r (dispatcher x) m w = Inr w'"
    by (simp add: recv_package_def dispatch_def Let_def)
  have c: "conns w' = conns w" using dispatch_response_conns [OF d] .
  have "\<exists>x'. rpcs w' r = Some x' \<and> dispatch_response r (dispatcher x') m w' = Inr w'"
  proof (cases "\<exists>h. rsp_handle_map (dispatcher x) (m_seq m) = Some (Some h)")
    case True
    then obtain h b w1 y where w1: "run_rsp_handle h m w = Inr (b, w1)" "rpcs w1 r = Some y"
        "w' = put_dispatcher r y (erase_rsp (m_seq m) (dispatcher y)) w1"
      using d by (auto simp: dispatch_response_def res_simps)
    then show ?thesis by (simp add: put_dispatcher_def put_rpc_def dispatch_response_def)
  next
    case False
    with d have "w' = w" by (auto simp: dispatch_response_def split: option.split_asm)
    with d Some show ?thesis by auto
  qed
  with c assms(1-4) have "recv_package co c p w' = Inr w'"
    by (auto simp: recv_package_def dispatch_def Let_def)
  moreover have "entry w' r (m_seq m) = None \<and> (\<exists>ty. events w' = events w @ [Finish (rh_this h) ty])"
    if "entry w r (m_seq m) = Some (Some h)" "reqs w (rh_this h) = Some q" "waiting_rsp q" for h q
    using dispatch_response_ends [OF d Some _ that(2,3)] that(1) Some by (simp add: entry_def)
  ultimately show ?thesis by blast
qed

theorem response_acts_once_witness:
  "\<exists>w'. recv_package coder_default 0 [0, 0, 0, 0, 0, 0, 2] (sample_world sample_cb 0) = Inr w' \<and>
     recv_package coder_default 0 [0, 0, 0, 0, 0, 0, 2] w' = Inr w' \<and>
     entry w' 0 0 = None \<and> (\<exists>ty. events w' = [event.Call 0, Finish 0 ty])"
proof -
  obtain w' where w': "recv_package coder_default 0 [0, 0, 0, 0, 0, 0, 2] (sample_world sample_cb 0) = Inr w'"
    using sample_answer_total by blast
  have "dispatch_kind (m_type (empty_msg\<lparr>m_type := 2\<rparr>)) = response"
    by (simp add: dispatch_kind_def flag_defs empty_msg_def)
  note r = response_acts_once [OF sample_conn_0 _ deserialize_0 this w']
  have "entry (sample_world sample_cb 0) 0 0 = Some (Some \<lparr>rh_this = 0, rh_cb = sample_cb\<rparr>)"
      "reqs (sample_world sample_cb 0) 0 = Some (sample_request sample_cb)" "waiting_rsp (sample_request sample_cb)"
      "events (sample_world sample_cb 0) = [event.Call 0]"
    by (simp_all add: entry_def sample_world_def sample_defs)
  with r w' show ?thesis by (fastforce simp: empty_msg_def)
qed

section \<open>Asynchronous handlers\<close>

text \<open>The response message of an asynchronous command, with its data.\<close>

definition async_msg :: "seq_type \<Rightarrow> nat \<Rightarrow> bytes \<Rightarrow> msg_wrapper" where
  "async_msg s k d = (snd (make_rsp_async s k True))\<lparr>m_data := d\<rparr>"

text \<open>The world after the response \<open>p\<close> has been sent on connection \<open>c\<close>.\<close>

definition answered :: "nat \<Rightarrow> connection \<Rightarrow> bytes \<Rightarrow> 'u world \<Rightarrow> 'u world" where
  "answered c x p w = put_conn c (x\<lparr>outbox := outbox x @ [p]\<rparr>) w"

lemma make_rsp_async_simps [simp]:
  "m_response_state (snd (make_rsp_async s k True)) = response_async"
  "m_async_helper (snd (make_rsp_async s k True)) = Some k"
  by (simp_all add: make_rsp_async_def empty_msg_def)

lemma send_msg_answered:
  "conns w c = Some x \<Longrightarrow> send_package_impl x = UserSend \<Longrightarrow> co_serialize co m = Inr p \<Longrightarrow>
     send_msg co c m w = Inr (answered c x p w)"
  by (simp add: send_msg_def send_package_def answered_def)

definition async_start :: "'u world \<Rightarrow> 'u \<Rightarrow> request_response \<Rightarrow> 'u world" where
  "async_start w u x = (put_rr (next_rr w) x (w\<lparr>next_rr := next_rr w + 1\<rparr>))\<lparr>user := u\<rparr>"

text \<open>A command to a handler that answers before it returns and lets go of its pointer.\<close>

lemma dispatch_async_now:
  assumes "cmd_handle_map d (m_cmd msg) = Some (AsyncHandle False f)" "\<not> has_flag (m_type msg) ping"
    and "has_flag (m_type msg) need_rsp" "f (m_data msg) = Inr (True, h)"
    and "h (user w) = \<lparr>h_rsp = Some (Inr b), h_keeps = False, h_user = u\<rparr>"
    and "conns w (dispatcher_conn d) = Some x" "send_package_impl x = UserSend"
    and "co_serialize co (async_msg (m_seq msg) (next_rr w) b) = Inr p"
  shows "\<exists>w'. dispatch_command co d msg w = Inr w' \<and> conns w' = conns (answered (dispatcher_conn d) x p w) \<and>
    user w' = u \<and> rrs w' (next_rr w) = None"
proof -
  let ?k = "next_rr w" and ?c = "dispatcher_conn d"
  let ?x = "new_rr\<lparr>rsp_set := True, rsp_ready := True, rsp_data := b, rr_refs := 0\<rparr>"
  have h: "run_cmd_handle co (AsyncHandle False f) msg w =
      Inr (make_rsp_async (m_seq msg) ?k True, async_start w u ?x)"
    using assms(4,5)
    by (simp add: run_cmd_handle_def run_async_handle_def run_handler_def rr_rsp_def rr_drop_def rr_release_def
        new_rr_def put_rr_def async_start_def Let_def)
  let ?m = "(snd (make_rsp_async (m_seq msg) ?k True))\<lparr>m_data := b\<rparr>"
  let ?w = "(async_start w u ?x)\<lparr>rrs := (rrs w)(?k := None)\<rparr>"
  have "respond co ?c (snd (make_rsp_async (m_seq msg) ?k True)) (async_start w u ?x) =
      send_msg co ?c ?m ?w"
    by (simp add: respond_def async_start_def put_rr_def new_rr_def rr_release_def)
  also have "\<dots> = Inr (answered ?c x p ?w)"
    using assms(6-8) by (intro send_msg_answered) (simp_all add: async_start_def put_rr_def async_msg_def)
  finally show ?thesis
    using h assms(1-3)
    by (auto simp: dispatch_command_def Let_def answered_def put_conn_def async_start_def put_rr_def)
qed

text \<open>A command to a handler that keeps its pointer and answers later.\<close>

lemma dispatch_async_later:
  assumes "cmd_handle_map d (m_cmd msg) = Some (AsyncHandle False f)" "\<not> has_flag (m_type msg) ping"
    and "has_flag (m_type msg) need_rsp" "f (m_data msg) = Inr (True, h)"
    and "h (user w) = \<lparr>h_rsp = None, h_keeps = True, h_user = u\<rparr>"
    and "conns w (dispatcher_conn d) = Some x" "send_package_impl x = UserSend"
    and "co_serialize co (async_msg (m_seq msg) (next_rr w) b) = Inr p"
  shows "\<exists>w' y. bindr (dispatch_command co d msg w) (rr_rsp co (next_rr w) (Inr b)) = Inr w' \<and>
    conns w' = conns (answered (dispatcher_conn d) x p w) \<and> user w' = u \<and>
    rrs w' (next_rr w) = Some y \<and> is_ready_set y \<and> rsp_ready y \<and> rsp_set y \<and> rr_refs y = 1"
proof -
  let ?k = "next_rr w" and ?c = "dispatcher_conn d"
  let ?m = "snd (make_rsp_async (m_seq msg) ?k True)"
  let ?x = "new_rr\<lparr>rsp_set := True\<rparr>"
  have h: "run_cmd_handle co (AsyncHandle False f) msg w = Inr (make_rsp_async (m_seq msg) ?k True, async_start w u ?x)"
    using assms(4,5)
    by (simp add: run_cmd_handle_def run_async_handle_def run_handler_def new_rr_def put_rr_def async_start_def Let_def)
  let ?y = "?x\<lparr>send_async_response := Some (?c, ?m)\<rparr>"
  have "dispatch_command co d msg w = Inr (put_rr ?k ?y (async_start w u ?x))"
    using h assms(1-3)
    by (simp add: dispatch_command_def Let_def respond_def async_start_def put_rr_def new_rr_def)
  moreover let ?z = "?y\<lparr>rsp_ready := True, rsp_data := []\<rparr>"
  have "send_package ?c p (put_rr ?k ?z (async_start w u ?x)) =
      Inr (answered ?c x p (put_rr ?k ?z (async_start w u ?x)))"
    using assms(6,7) by (simp add: send_package_def answered_def async_start_def put_rr_def)
  then have "rr_rsp co ?k (Inr b) (put_rr ?k ?y (async_start w u ?x)) =
      Inr (answered ?c x p (put_rr ?k ?z (async_start w u ?x)))"
    using assms(6,8)
    by (simp add: rr_rsp_def put_rr_def new_rr_def run_send_async_def async_start_def async_msg_def Let_def)
  ultimately show ?thesis
    by (simp add: answered_def put_conn_def async_start_def put_rr_def new_rr_def)
qed

text \<open>
  C32: It does not matter to the caller when an asynchronous handler answers: answering before it
  returns, or keeping the object and answering later, sends the same one package on the same
  connection.
\<close>

theorem async_answer_now_or_later:
  assumes "cmd_handle_map d (m_cmd msg) = Some (AsyncHandle False f)" "\<not> has_flag (m_type msg) ping"
    and "cmd_handle_map d' (m_cmd msg) = Some (AsyncHandle False f')" "dispatcher_conn d' = dispatcher_conn d"
    and "has_flag (m_type msg) need_rsp" "f (m_data msg) = Inr (True, h)" "f' (m_data msg) = Inr (True, h')"
    and "h (user w) = \<lparr>h_rsp = Some (Inr b), h_keeps = False, h_user = u\<rparr>"
    and "h' (user w) = \<lparr>h_rsp = None, h_keeps = True, h_user = u\<rparr>"
    and "conns w (dispatcher_conn d) = Some x" "send_package_impl x = UserSend"
    and "co_serialize co (async_msg (m_seq msg) (next_rr w) b) = Inr p"
  shows "\<exists>w1 w2. dispatch_command co d msg w = Inr w1 \<and>
    bindr (dispatch_command co d' msg w) (rr_rsp co (next_rr w) (Inr b)) = Inr w2 \<and>
    conns w1 = conns w2 \<and> conns w1 (dispatcher_conn d) = Some (x\<lparr>outbox := outbox x @ [p]\<rparr>)"
  using dispatch_async_now [OF assms(1,2,5,6,8,10,11,12)]
    dispatch_async_later [of d' msg f' h' w u x co b p] assms
  by (auto simp: answered_def put_conn_def)

text \<open>A dispatcher whose handler of the command 99 answers with 7 at once, or keeps the object.\<close>

definition async_now :: "bytes \<Rightarrow> (bool \<times> (nat \<Rightarrow> nat handler_result)) res" where
  "async_now d = Inr (True, \<lambda>u. \<lparr>h_rsp = Some (Inr [7]), h_keeps = False, h_user = u\<rparr>)"

definition async_later :: "bytes \<Rightarrow> (bool \<times> (nat \<Rightarrow> nat handler_result)) res" where
  "async_later d = Inr (True, \<lambda>u. \<lparr>h_rsp = None, h_keeps = True, h_user = u\<rparr>)"

definition async_dispatcher :: "(bytes \<Rightarrow> (bool \<times> (nat \<Rightarrow> nat handler_result)) res) \<Rightarrow> nat msg_dispatcher" where
  "async_dispatcher f = subscribe_cmd [99] (AsyncHandle False f) (new_dispatcher 0)"

definition async_command :: msg_wrapper where
  "async_command = empty_msg\<lparr>m_cmd := [99], m_type := request_type False True\<rparr>"

lemma async_sample:
  "cmd_handle_map (async_dispatcher f) (m_cmd async_command) = Some (AsyncHandle False f)"
  "dispatcher_conn (async_dispatcher f) = 0"
  "has_flag (m_type async_command) need_rsp" "\<not> has_flag (m_type async_command) ping"
  "m_seq async_command = 0" "next_rr (sample_world cb u) = 0"
  by (simp_all add: async_dispatcher_def subscribe_cmd_def new_dispatcher_def async_command_def empty_msg_def
      sample_world_def empty_world_def request_type_flags)

lemma async_sample_package: "co_serialize coder_default (async_msg 0 0 [7]) = Inr [0, 0, 0, 0, 0, 0, 2, 7]"
  by (simp add: coder_default_def coder_serialize_def async_msg_def make_rsp_async_def empty_msg_def
      flag_defs le_bytes_numeral Let_def)

theorem async_answer_now_or_later_witness:
  "\<exists>w1 w2. dispatch_command coder_default (async_dispatcher async_now) async_command (sample_world sample_cb 0) = Inr w1 \<and>
     bindr (dispatch_command coder_default (async_dispatcher async_later) async_command (sample_world sample_cb 0))
       (rr_rsp coder_default 0 (Inr [7])) = Inr w2 \<and> conns w1 = conns w2"
  using async_answer_now_or_later [of "async_dispatcher async_now" async_command async_now
      "async_dispatcher async_later" async_later "\<lambda>u. \<lparr>h_rsp = Some (Inr [7]), h_keeps = False, h_user = u\<rparr>"
      "\<lambda>u. \<lparr>h_rsp = None, h_keeps = True, h_user = u\<rparr>" "sample_world sample_cb 0" "[7]" 0
      "sample_conn\<lparr>on_recv_package := DispatcherRecv 0, outbox := [[0, 0, 0, 0, 1, 0, 99, 5]]\<rparr>" coder_default
      "[0, 0, 0, 0, 0, 0, 2, 7]"]
  by (auto simp: async_sample async_sample_package async_now_def async_later_def sample_conn_0 sample_conn_def)

text \<open>
  \<open>rsp\<close> of a \<open>request_response\<close> answers only once: after the first call, any other, with any
  value, changes nothing.
\<close>

theorem rr_rsp_only_once:
  assumes "rr_rsp co k d w = Inr w'"
  shows "rr_rsp co k d' w' = Inr w'"
proof -
  from assms obtain x where x: "rrs w k = Some x" "rsp_set x" by (auto simp: rr_rsp_def split: option.splits if_splits)
  show ?thesis
  proof (cases "rsp_ready x")
    case True
    with assms x show ?thesis by (auto simp: rr_rsp_def)
  next
    case False
    with assms x obtain b where b: "d = Inr b" by (cases d) (auto simp: rr_rsp_def)
    have "\<exists>y. rrs w' k = Some y \<and> rsp_set y \<and> rsp_ready y"
    proof (cases "send_async_response x")
      case None
      with assms x False b show ?thesis by (auto simp: rr_rsp_def put_rr_def Let_def)
    next
      case (Some g)
      let ?y = "x\<lparr>rsp_ready := True, rsp_data := []\<rparr>"
      have "run_send_async co g b (put_rr k ?y w) = Inr w'"
        using assms x False b Some by (simp add: rr_rsp_def Let_def)
      then have "rrs w' = rrs (put_rr k ?y w)"
        by (cases g) (auto simp: run_send_async_def Let_def res_simps send_package_frame split: if_splits)
      with x show ?thesis by (simp add: put_rr_def)
    qed
    then show ?thesis by (auto simp: rr_rsp_def)
  qed
qed

theorem rr_rsp_only_once_witness:
  "\<exists>w'. rr_rsp coder_default 0 (Inr [7]) (put_rr 0 (new_rr\<lparr>rsp_set := True\<rparr>) (sample_world sample_cb 0)) = Inr w' \<and>
     rr_rsp coder_default 0 (Inr [8]) w' = Inr w'"
proof -
  have "\<exists>w'. rr_rsp coder_default 0 (Inr [7]) (put_rr 0 (new_rr\<lparr>rsp_set := True\<rparr>) (sample_world sample_cb 0)) = Inr w'"
    by (simp add: rr_rsp_def put_rr_def new_rr_def)
  then show ?thesis using rr_rsp_only_once by blast
qed

text \<open>
  An asynchronous handler that answers before it returns leaves nothing behind; one that answers
  later leaks: even when the response has been sent and the handler has dropped its pointer, the
  object of the command is not destroyed.
\<close>

theorem late_answer_leaks:
  assumes "cmd_handle_map d (m_cmd msg) = Some (AsyncHandle False f)" "\<not> has_flag (m_type msg) ping"
    and "has_flag (m_type msg) need_rsp" "f (m_data msg) = Inr (True, h)"
    and "h (user w) = \<lparr>h_rsp = None, h_keeps = True, h_user = u\<rparr>"
    and "conns w (dispatcher_conn d) = Some x" "send_package_impl x = UserSend"
    and "co_serialize co (async_msg (m_seq msg) (next_rr w) b) = Inr p"
  shows "\<exists>w' y. bindr (bindr (dispatch_command co d msg w) (rr_rsp co (next_rr w) (Inr b))) (rr_drop (next_rr w)) = Inr w' \<and>
    rrs w' (next_rr w) = Some y \<and> rr_refs y = 0"
  using dispatch_async_later [OF assms] by (auto simp: rr_drop_def rr_release_def put_rr_def)

theorem late_answer_leaks_witness:
  "\<exists>w' y. bindr (bindr (dispatch_command coder_default (async_dispatcher async_later) async_command (sample_world sample_cb 0))
       (rr_rsp coder_default 0 (Inr [7]))) (rr_drop 0) = Inr w' \<and> rrs w' 0 = Some y \<and> rr_refs y = 0"
  using late_answer_leaks [of "async_dispatcher async_later" async_command async_later
      "\<lambda>u. \<lparr>h_rsp = None, h_keeps = True, h_user = u\<rparr>" "sample_world sample_cb 0" 0
      "sample_conn\<lparr>on_recv_package := DispatcherRecv 0, outbox := [[0, 0, 0, 0, 1, 0, 99, 5]]\<rparr>" coder_default
      "[7]" "[0, 0, 0, 0, 0, 0, 2, 7]"]
  by (auto simp: async_sample async_sample_package async_later_def sample_conn_0 sample_conn_def)

end
