(* ===== verification/DataPacker.thy ===== *)
theory DataPacker
  imports Prelude
begin

text \<open>
  The class \<open>data_packer\<close> of \<open>detail/data_packer.hpp\<close>, which cuts a byte stream into packages: a
  header of four bytes, the size of the body, then the body. Its state is the record; the
  calls of \<open>on_data\<close> are the list of delivered packages, in order. An abstract specification,
  \<open>deframe\<close>, says what packages a stream holds; \<open>feed\<close> refines it for every way of cutting the
  stream into chunks, as long as no header announces a size of zero or one above the limit.
\<close>

section \<open>The code\<close>

record data_packer =
  max_body_size :: u32
  buffer :: bytes
  header_len_now :: u32
  body_size :: u32
  has_on_data :: bool

definition new_packer :: "u32 \<Rightarrow> data_packer" where
  "new_packer mx =
     \<lparr>max_body_size = mx, buffer = [], header_len_now = 0, body_size = 0, has_on_data = True\<rparr>"

text \<open>
  Packing through a callback, which gets the header and then the data and may refuse either; its
  state is threaded through.
\<close>

definition pack_cb :: "data_packer \<Rightarrow> bytes \<Rightarrow> (bytes \<Rightarrow> 'c \<Rightarrow> bool \<times> 'c) \<Rightarrow> 'c \<Rightarrow> bool \<times> 'c" where
  "pack_cb st data cb s =
     (if length data > unat (max_body_size st) then (False, s)
      else
        case cb (le_bytes 4 (length data)) s of
          (False, s) \<Rightarrow> (False, s)
        | (True, s) \<Rightarrow>
            (case cb data s of
               (False, s) \<Rightarrow> (False, s)
             | (True, s) \<Rightarrow> (True, s)))"

text \<open>Packing into a string: empty if the data is too large.\<close>

definition pack :: "data_packer \<Rightarrow> bytes \<Rightarrow> bytes" where
  "pack st data =
     (let payload = [] in
      if length data > unat (max_body_size st) then payload
      else
        let payload = le_bytes 4 (length data) @ payload;
            payload = payload @ data
        in payload)"

definition reset :: "data_packer \<Rightarrow> data_packer" where
  "reset st = st\<lparr>buffer := [], header_len_now := 0, body_size := 0\<rparr>"

text \<open>\<open>uint8_t header_len = 4 - header_len_now_\<close>.\<close>

definition header_len :: "data_packer \<Rightarrow> nat" where
  "header_len st = unat (ucast (4 - header_len_now st) :: byte)"

text \<open>
  The header is read as a \<open>uint32_t\<close> from the string \<open>buffer_\<close>, whose bytes are followed by the
  terminating zero. In \<open>feed_body\<close> a buffer longer than the body would make \<open>body_need\<close> wrap
  around, and the copy leave the data.
\<close>

function feed :: "data_packer \<Rightarrow> bytes \<Rightarrow> (bool \<times> data_packer \<times> bytes list) res"
  and feed_body :: "data_packer \<Rightarrow> bytes \<Rightarrow> (data_packer \<times> bytes list) res"
where
  "feed st data =
     (if body_size st \<noteq> 0 then bindr (feed_body st data) (\<lambda>(st', out). Inr (True, st', out))
      else if unat (header_len_now st) + length data < 4 then
        Inr (True, st\<lparr>buffer := buffer st @ data,
                      header_len_now := header_len_now st + of_nat (length data)\<rparr>, [])
      else if header_len st > length data then Inl OutOfBounds
      else
        bindr (peek 4 (buffer st @ take (header_len st) data @ [0])) (\<lambda>h.
          let st1 = st\<lparr>body_size := of_nat (le_nat h), buffer := []\<rparr>
          in if body_size st1 > max_body_size st1 then Inr (False, reset st1, [])
             else if length data - header_len st \<noteq> 0
             then bindr (feed_body st1 (drop (header_len st) data)) (\<lambda>(st', out). Inr (True, st', out))
             else Inr (True, st1, [])))"
| "feed_body st data =
     (if length (buffer st) + length data < unat (body_size st)
      then Inr (st\<lparr>buffer := buffer st @ data\<rparr>, [])
      else if length (buffer st) > unat (body_size st) then Inl OutOfBounds
      else
        let body_need = unat (body_size st) - length (buffer st);
            body_left = length data - body_need;
            out = (if has_on_data st then [buffer st @ take body_need data] else []);
            st' = reset st
        in if body_left \<noteq> 0
           then bindr (feed st' (drop body_need data)) (\<lambda>(r, st'', out'). Inr (st'', out @ out'))
           else Inr (st', out))"
  by pat_completeness auto
termination
  by (relation "measures
      [\<lambda>x. case x of Inl (st, data) \<Rightarrow> length data | Inr (st, data) \<Rightarrow> length data,
       \<lambda>x. case x of Inl (st, data) \<Rightarrow> if body_size st = 0 \<and> header_len st \<noteq> 0 then 0 else 2
                   | Inr (st, data) \<Rightarrow> 1]")
    (auto simp: reset_def header_len_def)

declare feed.simps [simp del] feed_body.simps [simp del]

text \<open>Feeding chunk after chunk.\<close>

fun feed_all :: "data_packer \<Rightarrow> bytes list \<Rightarrow> (data_packer \<times> bytes list) res" where
  "feed_all st [] = Inr (st, [])"
| "feed_all st (c # cs) =
     bindr (feed st c) (\<lambda>(r, st', out).
     bindr (feed_all st' cs) (\<lambda>(st'', out'). Inr (st'', out @ out')))"

section \<open>The abstract specification\<close>

text \<open>
  The packages of a stream and the incomplete rest; \<open>None\<close> if a header announces zero or more than
  the limit.
\<close>

function deframe :: "nat \<Rightarrow> bytes \<Rightarrow> (bytes list \<times> bytes) option" where
  "deframe mx bs =
     (if length bs < 4 then Some ([], bs)
      else
        let n = le_nat (take 4 bs)
        in if n = 0 \<or> mx < n then None
           else if length bs < 4 + n then Some ([], bs)
           else
             (case deframe mx (drop (4 + n) bs) of
                None \<Rightarrow> None
              | Some (fs, r) \<Rightarrow> Some (take n (drop 4 bs) # fs, r)))"
  by pat_completeness auto
termination
  by (relation "measure (\<lambda>(mx, bs). length bs)") auto

declare deframe.simps [simp del]

text \<open>The bytes of the stream that a state holds: part of a header, or a header and part of a body.\<close>

definition pending :: "data_packer \<Rightarrow> bytes" where
  "pending st =
     (if body_size st = 0 then buffer st else le_bytes 4 (unat (body_size st)) @ buffer st)"

text \<open>The states in step with the stream.\<close>

definition packer_inv :: "data_packer \<Rightarrow> bool" where
  "packer_inv st \<longleftrightarrow>
     has_on_data st \<and>
     (if body_size st = 0
      then length (buffer st) = unat (header_len_now st) \<and> length (buffer st) < 4
      else length (buffer st) < unat (body_size st) \<and> body_size st \<le> max_body_size st)"

lemma packer_inv_new [simp]: "packer_inv (new_packer mx)" "pending (new_packer mx) = []"
  by (simp_all add: packer_inv_def pending_def new_packer_def)

lemma packer_inv_reset [simp]:
  "packer_inv (reset st) = has_on_data st" "pending (reset st) = []"
  "max_body_size (reset st) = max_body_size st" "has_on_data (reset st) = has_on_data st"
  by (simp_all add: packer_inv_def pending_def reset_def)


section \<open>Feeding refines the specification\<close>

text \<open>
  The memory a state holds is bounded whatever bytes arrive: this weaker invariant survives headers
  that announce zero, after which the state may be out of step.
\<close>

definition bounded_inv :: "data_packer \<Rightarrow> bool" where
  "bounded_inv st \<longleftrightarrow>
     (if body_size st = 0
      then length (buffer st) \<le> unat (header_len_now st) \<and> unat (header_len_now st) < 4
      else length (buffer st) < unat (body_size st) \<and> body_size st \<le> max_body_size st
           \<and> unat (header_len_now st) < 4)"

lemma bounded_inv_new [simp]: "bounded_inv (new_packer mx)" "bounded_inv (reset st)"
  by (simp_all add: bounded_inv_def new_packer_def reset_def)

lemma header_len_small:
  assumes "unat (header_len_now st) < 4"
  shows "header_len st = 4 - unat (header_len_now st)"
proof -
  have "header_len_now st \<le> 4" using assms by (simp add: word_le_nat_alt)
  then have "unat (4 - header_len_now st) = 4 - unat (header_len_now st)"
    by (simp add: unat_sub)
  then show ?thesis by (simp add: header_len_def unsigned_ucast_eq take_bit_eq_mod)
qed

lemma unat_header_add:
  assumes "unat (h :: u32) + n < 4"
  shows "unat (h + of_nat n) = unat h + n"
proof -
  have "unat (of_nat n :: u32) = n" using assms by (simp add: unat_of_nat)
  with assms show ?thesis by (simp add: unat_word_ariths)
qed

lemma unat_of_le_nat4: "length h = 4 \<Longrightarrow> unat (of_nat (le_nat h) :: u32) = le_nat h"
  using le_nat_bound [of h] by (simp add: unat_of_nat)

lemma feed_in_body:
  "body_size st \<noteq> 0 \<Longrightarrow>
     feed st data = bindr (feed_body st data) (\<lambda>(st', out). Inr (True, st', out))"
  by (simp add: feed.simps [of st])

lemma feed_wait_header:
  "body_size st = 0 \<Longrightarrow> unat (header_len_now st) + length data < 4 \<Longrightarrow>
     feed st data = Inr (True, st\<lparr>buffer := buffer st @ data,
       header_len_now := header_len_now st + of_nat (length data)\<rparr>, [])"
  by (simp add: feed.simps [of st])

lemma feed_header_InrE:
  assumes "body_size st = 0" "\<not> unat (header_len_now st) + length data < 4"
    and "feed st data = Inr (r, st', out)"
  obtains (oversize) n where "n > max_body_size st" "r = False" "st' = reset (st\<lparr>body_size := n, buffer := []\<rparr>)" "out = []"
  | (header) n where "n \<le> max_body_size st" "length data = header_len st" "r = True"
      "st' = st\<lparr>body_size := n, buffer := []\<rparr>" "out = []"
  | (body) n where "n \<le> max_body_size st" "header_len st < length data" "r = True"
      "feed_body (st\<lparr>body_size := n, buffer := []\<rparr>) (drop (header_len st) data) = Inr (st', out)"
  using assms
  by (auto simp: feed.simps [of st] Let_def res_simps not_less split: if_splits prod.splits)

lemma feed_body_more:
  "length (buffer st) + length data < unat (body_size st) \<Longrightarrow>
     feed_body st data = Inr (st\<lparr>buffer := buffer st @ data\<rparr>, [])"
  by (simp add: feed_body.simps [of st])

lemma feed_body_done:
  assumes "length (buffer st) \<le> unat (body_size st)" "has_on_data st"
    and "unat (body_size st) = length (buffer st) + length d"
  shows "feed_body st (d @ rest) =
     (if rest = [] then Inr (reset st, [buffer st @ d])
      else bindr (feed (reset st) rest) (\<lambda>(r, st', out). Inr (st', (buffer st @ d) # out)))"
  using assms by (simp add: feed_body.simps [of st])

lemma feed_bodyE:
  assumes "feed_body st data = Inr (st', out)" "length (buffer st) \<le> unat (body_size st)"
  obtains (more) "length (buffer st) + length data < unat (body_size st)"
      "st' = st\<lparr>buffer := buffer st @ data\<rparr>" "out = []"
  | (complete) "st' = reset st"
  | (again) r out' where "unat (body_size st) - length (buffer st) < length data"
      "feed (reset st) (drop (unat (body_size st) - length (buffer st)) data) = Inr (r, st', out')"
proof (cases "length (buffer st) + length data < unat (body_size st)")
  case True
  with assms more show ?thesis by (auto simp: feed_body_more)
next
  case False
  let ?need = "unat (body_size st) - length (buffer st)"
  show ?thesis
  proof (cases "length data = ?need")
    case True
    with False assms complete show ?thesis by (simp add: feed_body.simps [of st] Let_def)
  next
    case neq: False
    with False assms again show ?thesis
      by (auto simp: feed_body.simps [of st] Let_def res_simps not_less split: if_splits prod.splits)
  qed
qed

lemma feed_bounded:
  "feed st data = Inr (r, st', out) \<Longrightarrow> bounded_inv st \<Longrightarrow>
     bounded_inv st' \<and> max_body_size st' = max_body_size st"
proof (induction "length data" arbitrary: st data r out rule: less_induct)
  case less
  have body_law: "bounded_inv st' \<and> max_body_size st' = max_body_size s"
    if fb: "feed_body s d = Inr (st', out)" and s: "length (buffer s) \<le> unat (body_size s)"
      "body_size s \<le> max_body_size s" "unat (header_len_now s) < 4"
      and d: "length d \<le> length data" "length d < length data \<or> length (buffer s) < unat (body_size s)"
    for s d
    using fb s(1)
  proof (cases rule: feed_bodyE)
    case more
    with s show ?thesis by (auto simp: bounded_inv_def)
  next
    case complete
    then show ?thesis by simp
  next
    case (again r' out')
    then have "bounded_inv st' \<and> max_body_size st' = max_body_size (reset s)"
      using d less.hyps [OF _ again(2)] by auto
    then show ?thesis by simp
  qed
  show ?case
  proof (cases "body_size st = 0")
    case False
    with less.prems body_law [of st data] show ?thesis
      by (auto simp: bounded_inv_def feed_in_body res_simps)
  next
    case True
    note z = this
    show ?thesis
    proof (cases "unat (header_len_now st) + length data < 4")
      case True
      with z less.prems show ?thesis
        by (auto simp: bounded_inv_def feed_wait_header unat_header_add)
    next
      case False
      from z False less.prems(1) show ?thesis
      proof (cases rule: feed_header_InrE)
        case (oversize n)
        then show ?thesis by simp
      next
        case (header n)
        with less.prems z show ?thesis by (auto simp: bounded_inv_def unat_gt_0)
      next
        case (body n)
        have "header_len st > 0" "unat (header_len_now st) < 4"
          using less.prems(2) z header_len_small [of st] by (simp_all add: bounded_inv_def)
        then have "length (drop (header_len st) data) < length data" using body(2) by simp
        with body \<open>unat (header_len_now st) < 4\<close> body_law [OF body(4)]
        have "bounded_inv st' \<and> max_body_size st' = max_body_size (st\<lparr>body_size := n, buffer := []\<rparr>)"
          by simp
        then show ?thesis by simp
      qed
    qed
  qed
qed

lemma feed_all_bounded:
  "feed_all st cs = Inr (st', out) \<Longrightarrow> bounded_inv st \<Longrightarrow>
     bounded_inv st' \<and> max_body_size st' = max_body_size st"
proof (induction cs arbitrary: st out)
  case Nil
  then show ?case by simp
next
  case (Cons c cs)
  then show ?case using feed_bounded by (fastforce simp: res_simps)
qed

text \<open>Under the limit, what \<open>deframe\<close> does with a complete header.\<close>

lemma deframe_short: "length bs < 4 \<Longrightarrow> deframe mx bs = Some ([], bs)"
  by (simp add: deframe.simps)

lemma deframe_header:
  assumes "length h = 4"
  shows "deframe mx (h @ bs) =
     (let n = le_nat h in
      if n = 0 \<or> mx < n then None
      else if length bs < n then Some ([], h @ bs)
      else case deframe mx (drop n bs) of
             None \<Rightarrow> None
           | Some (fs, r) \<Rightarrow> Some (take n bs # fs, r))"
  using assms by (subst deframe.simps) (simp add: Let_def split: option.split)

lemma deframe_body_more:
  assumes "b \<noteq> 0" "b \<le> mx" "length bs < unat b"
  shows "deframe (unat mx) (le_bytes 4 (unat (b :: u32)) @ bs) = Some ([], le_bytes 4 (unat b) @ bs)"
proof -
  have "unat b \<noteq> 0" "\<not> unat mx < unat b" using assms by (simp_all add: unat_eq_zero word_le_nat_alt not_less)
  with assms show ?thesis by (simp add: deframe_header Let_def)
qed

lemma deframe_body_done:
  assumes "b \<noteq> 0" "b \<le> mx" "length d = unat b"
  shows "deframe (unat mx) (le_bytes 4 (unat (b :: u32)) @ d @ bs) =
    (case deframe (unat mx) bs of None \<Rightarrow> None | Some (fs, r) \<Rightarrow> Some (d # fs, r))"
proof -
  have "unat b \<noteq> 0" "\<not> unat mx < unat b" using assms by (simp_all add: unat_eq_zero word_le_nat_alt not_less)
  with assms show ?thesis by (simp add: deframe_header Let_def split: option.split)
qed

lemma feed_header_body:
  assumes "body_size st = 0" "length (buffer st) = unat (header_len_now st)" "length (buffer st) < 4"
    "length (buffer st @ d) = 4" "le_nat (buffer st @ d) \<le> unat (max_body_size st)"
  shows "feed st (d @ rest) =
    (let st1 = st\<lparr>body_size := of_nat (le_nat (buffer st @ d)), buffer := []\<rparr> in
     if rest = [] then Inr (True, st1, [])
     else bindr (feed_body st1 rest) (\<lambda>(st', out). Inr (True, st', out)))"
proof -
  have h: "header_len st = length d" using header_len_small [of st] assms(2-4) by simp
  have u: "unat (of_nat (le_nat (buffer st @ d)) :: u32) = le_nat (buffer st @ d)"
    by (rule unat_of_le_nat4) (rule assms(4))
  then have gt: "(max_body_size st < of_nat (le_nat (buffer st @ d))) = False"
    using assms(5) by (simp add: word_less_nat_alt)
  with h assms show ?thesis
    by (subst feed.simps) (simp add: Let_def peek_def gt)
qed

lemma feed_refines_deframe:
  "packer_inv st \<Longrightarrow> deframe (unat (max_body_size st)) (pending st @ data) = Some (fs, r) \<Longrightarrow>
     \<exists>st'. feed st data = Inr (True, st', fs) \<and> packer_inv st' \<and> pending st' = r \<and>
           max_body_size st' = max_body_size st"
proof (induction "length data" arbitrary: st data fs r rule: less_induct)
  case less
  have body_law: "\<exists>s'. feed_body s d = Inr (s', fs) \<and> packer_inv s' \<and> pending s' = r \<and>
      max_body_size s' = max_body_size s"
    if s: "has_on_data s" "body_size s \<noteq> 0" "length (buffer s) < unat (body_size s)"
      "body_size s \<le> max_body_size s"
      and df: "deframe (unat (max_body_size s)) (le_bytes 4 (unat (body_size s)) @ buffer s @ d) = Some (fs, r)"
      and d: "length d \<le> length data"
    for s d
  proof (cases "length (buffer s) + length d < unat (body_size s)")
    case True
    with s df show ?thesis
      by (auto simp: feed_body_more deframe_body_more packer_inv_def pending_def)
  next
    case False
    define need where "need = unat (body_size s) - length (buffer s)"
    define d1 d2 where "d1 = take need d" and "d2 = drop need d"
    have d12: "d = d1 @ d2" "unat (body_size s) = length (buffer s) + length d1" "length d2 < length d"
      using False s by (auto simp: d1_def d2_def need_def)
    then obtain fs' where fs': "deframe (unat (max_body_size s)) d2 = Some (fs', r)"
        "fs = (buffer s @ d1) # fs'"
      using df s deframe_body_done [of "body_size s" "max_body_size s" "buffer s @ d1" d2]
      by (auto split: option.splits)
    show ?thesis
    proof (cases "d2 = []")
      case True
      with fs' d12 s feed_body_done [of s d1 "[]"] show ?thesis by (auto simp: deframe_short)
    next
      case False
      obtain s' where "feed (reset s) d2 = Inr (True, s', fs')" "packer_inv s'" "pending s' = r"
          "max_body_size s' = max_body_size s"
        using less.hyps [of d2 "reset s" fs' r] fs' d12 d s by auto
      with fs' d12 s False show ?thesis by (auto simp: feed_body_done)
    qed
  qed
  show ?case
  proof (cases "body_size st = 0")
    case False
    have "\<exists>s'. feed_body st data = Inr (s', fs) \<and> packer_inv s' \<and> pending s' = r \<and>
        max_body_size s' = max_body_size st"
      using less.prems False by (intro body_law) (simp_all add: packer_inv_def pending_def)
    with False show ?thesis by (auto simp: feed_in_body)
  next
    case True
    note z = this
    show ?thesis
    proof (cases "unat (header_len_now st) + length data < 4")
      case True
      have st: "has_on_data st" "length (buffer st) = unat (header_len_now st)"
        using less.prems(1) z by (simp_all add: packer_inv_def)
      with z True less.prems(2) have "fs = []" "r = buffer st @ data"
        by (simp_all add: pending_def deframe_short)
      with z True st show ?thesis
        by (simp add: packer_inv_def pending_def feed_wait_header unat_header_add)
    next
      case False
      have st: "has_on_data st" "length (buffer st) = unat (header_len_now st)" "length (buffer st) < 4"
        using less.prems(1) z by (simp_all add: packer_inv_def)
      define d1 d2 where "d1 = take (4 - length (buffer st)) data"
        and "d2 = drop (4 - length (buffer st)) data"
      define h where "h = buffer st @ d1"
      have d12: "data = d1 @ d2" "length h = 4" "length d2 < length data"
        using False st by (auto simp: d1_def d2_def h_def)
      have df: "deframe (unat (max_body_size st)) (h @ d2) = Some (fs, r)"
        using less.prems(2) z d12 by (simp add: pending_def h_def)
      then have n: "le_nat h \<noteq> 0" "le_nat h \<le> unat (max_body_size st)"
        using d12 by (auto simp: deframe_header Let_def split: if_splits)
      let ?n = "of_nat (le_nat h) :: u32"
      have u: "unat ?n = le_nat h" using unat_of_le_nat4 [OF d12(2)] .
      then have nn: "?n \<noteq> 0" "?n \<le> max_body_size st" using n by (auto simp: word_le_nat_alt)
      let ?s = "st\<lparr>body_size := ?n, buffer := []\<rparr>"
      have hb: "le_bytes 4 (unat ?n) = h" using u le_bytes_le_nat [of h] d12(2) by simp
      have f: "feed st data = (if d2 = [] then Inr (True, ?s, [])
          else bindr (feed_body ?s d2) (\<lambda>(st', out). Inr (True, st', out)))"
        using feed_header_body [OF z st(2,3), of d1 d2] d12 n by (simp add: h_def Let_def)
      show ?thesis
      proof (cases "d2 = []")
        case True
        with df n d12 deframe_header [OF d12(2), of _ "[]"] have "fs = []" "r = h" by (auto simp: Let_def)
        with True f st nn n u hb show ?thesis
          by (auto simp: packer_inv_def pending_def)
      next
        case ne: False
        have "\<exists>s'. feed_body ?s d2 = Inr (s', fs) \<and> packer_inv s' \<and> pending s' = r \<and>
            max_body_size s' = max_body_size ?s"
          using st nn n u d12 df hb by (intro body_law) auto
        with f ne show ?thesis by auto
      qed
    qed
  qed
qed

text \<open>Cutting the stream elsewhere does not change what it holds.\<close>

lemma deframe_split:
  "deframe mx (a @ b) = Some (fs, r) \<Longrightarrow>
     \<exists>fs1 r1 fs2. deframe mx a = Some (fs1, r1) \<and> deframe mx (r1 @ b) = Some (fs2, r) \<and> fs = fs1 @ fs2"
proof (induction mx a arbitrary: fs r rule: deframe.induct)
  case (1 mx a)
  show ?case
  proof (cases "length a < 4")
    case True
    with "1.prems" show ?thesis by (simp add: deframe_short)
  next
    case False
    obtain h a' where ha: "a = h @ a'" "length h = 4"
      using False by (metis append_take_drop_id length_take linorder_not_less min_absorb2)
    have n: "\<not> (le_nat h = 0 \<or> mx < le_nat h)"
      using "1.prems" ha by (auto simp: deframe_header Let_def split: if_splits)
    show ?thesis
    proof (cases "length a' < le_nat h")
      case True
      with n ha "1.prems" show ?thesis by (auto simp: deframe_header Let_def)
    next
      case l: False
      from "1.prems" n l ha obtain fs' where fs': "deframe mx (drop (le_nat h) a' @ b) = Some (fs', r)"
          "fs = take (le_nat h) a' # fs'"
        by (auto simp: deframe_header Let_def split: option.splits)
      have "\<exists>fs1 r1 fs2. deframe mx (drop (le_nat h) a') = Some (fs1, r1) \<and>
          deframe mx (r1 @ b) = Some (fs2, r) \<and> fs' = fs1 @ fs2"
        using "1.IH" [OF False refl] n l ha fs'(1) by simp
      with fs'(2) n l ha show ?thesis by (auto simp: deframe_header Let_def)
    qed
  qed
qed

lemma feed_all_refines_deframe:
  "packer_inv st \<Longrightarrow> deframe (unat (max_body_size st)) (pending st @ concat cs) = Some (fs, r) \<Longrightarrow>
     \<exists>st'. feed_all st cs = Inr (st', fs) \<and> packer_inv st' \<and> pending st' = r"
proof (induction cs arbitrary: st fs)
  case Nil
  then show ?case
    by (cases "body_size st = 0")
      (auto simp: packer_inv_def pending_def deframe_short deframe_body_more)
next
  case (Cons c cs)
  have "deframe (unat (max_body_size st)) ((pending st @ c) @ concat cs) = Some (fs, r)"
    using Cons.prems(2) by simp
  then obtain fs1 r1 fs2 where s: "deframe (unat (max_body_size st)) (pending st @ c) = Some (fs1, r1)"
      "deframe (unat (max_body_size st)) (r1 @ concat cs) = Some (fs2, r)" "fs = fs1 @ fs2"
    using deframe_split by blast
  obtain st1 where st1: "feed st c = Inr (True, st1, fs1)" "packer_inv st1" "pending st1 = r1"
      "max_body_size st1 = max_body_size st"
    using feed_refines_deframe [OF Cons.prems(1) s(1)] by blast
  with s Cons.IH [of st1 fs2] show ?case by auto
qed

lemma length_lt_pow: "n \<le> unat (m :: u32) \<Longrightarrow> n < 256 ^ 4"
  using unat_lt_u32 [of m] by simp

definition packable :: "data_packer \<Rightarrow> bytes \<Rightarrow> bool" where
  "packable st m \<longleftrightarrow> m \<noteq> [] \<and> length m \<le> unat (max_body_size st)"

lemma deframe_stream:
  "list_all (packable st) ms \<Longrightarrow>
     deframe (unat (max_body_size st)) (concat (map (pack st) ms)) = Some (ms, [])"
proof (induction ms)
  case Nil
  then show ?case by (simp add: deframe_short)
next
  case (Cons m ms)
  then have m: "m \<noteq> []" "length m \<le> unat (max_body_size st)" by (simp_all add: packable_def)
  with length_lt_pow [OF m(2)] Cons show ?case
    by (simp add: pack_def deframe_header Let_def)
qed

text \<open>From a state in step, no chunk makes the code leave its buffers.\<close>

lemma feed_no_fault: "packer_inv st \<Longrightarrow> \<exists>x. feed st data = Inr x"
proof (induction "length data" arbitrary: st data rule: less_induct)
  case less
  have body_law: "\<exists>x. feed_body s d = Inr x"
    if s: "has_on_data s" "length (buffer s) \<le> unat (body_size s)"
      and d: "length d \<le> length data" "length d < length data \<or> length (buffer s) < unat (body_size s)"
    for s d
  proof (cases "length (buffer s) + length d < unat (body_size s)")
    case True
    then show ?thesis by (auto simp: feed_body_more)
  next
    case False
    define need where "need = unat (body_size s) - length (buffer s)"
    define d1 d2 where "d1 = take need d" and "d2 = drop need d"
    have d12: "d = d1 @ d2" "unat (body_size s) = length (buffer s) + length d1" "length d2 < length data"
      using False s d by (auto simp: d1_def d2_def need_def)
    obtain x where "feed (reset s) d2 = Inr x"
      using less.hyps [OF d12(3), of "reset s"] s by auto
    with d12 s show ?thesis by (cases x) (simp add: feed_body_done)
  qed
  show ?case
  proof (cases "body_size st = 0")
    case False
    obtain x where "feed_body st data = Inr x"
      using body_law [of st data] less.prems False by (auto simp: packer_inv_def)
    with False show ?thesis by (cases x) (auto simp: feed_in_body)
  next
    case True
    note z = this
    have st: "has_on_data st" "length (buffer st) = unat (header_len_now st)" "length (buffer st) < 4"
      using less.prems z by (simp_all add: packer_inv_def)
    show ?thesis
    proof (cases "unat (header_len_now st) + length data < 4")
      case True
      with z show ?thesis by (auto simp: feed_wait_header)
    next
      case False
      have h: "header_len st = 4 - unat (header_len_now st)" using header_len_small st by simp
      define n where "n = (of_nat (le_nat (buffer st @ take (4 - unat (header_len_now st)) data)) :: u32)"
      let ?s = "st\<lparr>body_size := n, buffer := []\<rparr>"
      have "length data - header_len st < length data" using h st False by simp
      then obtain x where "feed_body ?s (drop (header_len st) data) = Inr x"
        using body_law [of ?s "drop (header_len st) data"] st by auto
      with z h st False show ?thesis
        by (cases x) (auto simp: feed.simps [of st] Let_def peek_def n_def [symmetric])
    qed
  qed
qed

lemma feed_oversize:
  assumes "packer_inv st" "body_size st = 0" "length (buffer st @ d) = 4"
    and "unat (max_body_size st) < le_nat (buffer st @ d)"
  shows "feed st (d @ rest) = Inr (False, reset st, [])"
proof -
  have st: "length (buffer st) = unat (header_len_now st)" "length (buffer st) < 4"
    using assms by (simp_all add: packer_inv_def)
  have h: "header_len st = length d" using header_len_small [of st] st assms(3) by simp
  have "unat (of_nat (le_nat (buffer st @ d)) :: u32) = le_nat (buffer st @ d)"
    by (rule unat_of_le_nat4) (rule assms(3))
  then have gt: "(max_body_size st < of_nat (le_nat (buffer st @ d))) = True"
    using assms(4) by (simp add: word_less_nat_alt)
  with h assms st show ?thesis
    by (subst feed.simps) (simp add: Let_def peek_def gt reset_def)
qed

lemma new_packer_simps [simp]:
  "max_body_size (new_packer mx) = mx" "buffer (new_packer mx) = []" "body_size (new_packer mx) = 0"
  "header_len_now (new_packer mx) = 0" "has_on_data (new_packer mx)"
  by (simp_all add: new_packer_def)

section \<open>Properties of the packer\<close>

text \<open>
  C4: Whatever way the byte stream of any number of packed non-empty packages is cut into chunks
  (TCP segments, single bytes, several packages at once), a fresh packer fed with the chunks hands
  out exactly these packages, in order, and ends with nothing left over.
\<close>

theorem packer_stream_roundtrip:
  assumes "list_all (packable (new_packer mx)) msgs"
    and "concat chunks = concat (map (pack (new_packer mx)) msgs)"
  shows "\<exists>st. feed_all (new_packer mx) chunks = Inr (st, msgs) \<and> pending st = []"
  using feed_all_refines_deframe [of "new_packer mx" chunks msgs "[]"] deframe_stream [OF assms(1)]
    assms(2) by auto

theorem packer_stream_roundtrip_witness:
  "\<exists>st. feed_all (new_packer 16) [[2, 0, 0], [0, 7], [8, 1, 0, 0, 0, 9]] = Inr (st, [[7, 8], [9]])
        \<and> pending st = []"
  by (rule packer_stream_roundtrip [of 16 "[[7, 8], [9]]"])
    (simp_all add: packable_def pack_def le_bytes_numeral)

text \<open>
  C14: Feeding refines the abstract specification of a framed stream: in a state in step with the
  stream, a chunk delivers exactly the packages that the pending bytes followed by the chunk hold,
  keeps exactly the incomplete rest, and stays in step.
\<close>

theorem feed_implements_deframe:
  assumes "packer_inv st" "deframe (unat (max_body_size st)) (pending st @ data) = Some (fs, r)"
  shows "\<exists>st'. feed st data = Inr (True, st', fs) \<and> packer_inv st' \<and> pending st' = r"
  using feed_refines_deframe [OF assms] by blast

theorem feed_implements_deframe_witness:
  "\<exists>st'. feed (new_packer 16) [1, 0, 0, 0, 9, 5] = Inr (True, st', [[9]]) \<and> packer_inv st' \<and>
         pending st' = [5]"
  by (rule feed_implements_deframe)
    (simp_all add: deframe.simps Let_def)

text \<open>
  C34: In step with the stream, no chunk of bytes whatever (hostile sizes included) makes feeding
  read or write outside its buffers: it returns.
\<close>

theorem feed_total:
  assumes "packer_inv st"
  shows "\<exists>ok st' out. feed st data = Inr (ok, st', out)"
  using feed_no_fault [OF assms, of data] by (auto simp: split_paired_all)

theorem feed_total_witness:
  "\<exists>ok st' out. feed (new_packer 16) [0, 0, 0, 0, 255, 255, 255, 255, 1] = Inr (ok, st', out)"
  by (rule feed_total) simp

text \<open>
  C35: Whatever bytes it was fed with, between two chunks a packer that waits for a body holds less than
  the length that was announced for it, which is within the limit; otherwise it holds at most three
  bytes, those of a header that is not complete.
\<close>

theorem packer_memory_bound:
  assumes "feed_all (new_packer mx) chunks = Inr (st, out)"
  shows "if body_size st = 0 then length (buffer st) \<le> 3
    else length (buffer st) < unat (body_size st) \<and> unat (body_size st) \<le> unat mx"
proof -
  have "bounded_inv st" "max_body_size st = mx"
    using feed_all_bounded [OF assms] by simp_all
  then show ?thesis
    by (auto simp: bounded_inv_def word_le_nat_alt split: if_splits)
qed

theorem packer_memory_bound_witness:
  "\<exists>st. feed_all (new_packer 16) [[3, 0, 0, 0], [7, 8]] = Inr (st, []) \<and> body_size st = 3 \<and>
     length (buffer st) < 3 \<and> unat (body_size st) \<le> unat (16 :: u32)"
proof -
  have "feed_all (new_packer 16) [[3, 0, 0, 0], [7, 8]] =
      Inr (\<lparr>max_body_size = 16, buffer = [7, 8], header_len_now = 0, body_size = 3, has_on_data = True\<rparr>, [])"
    by code_simp
  with packer_memory_bound [OF this] show ?thesis by simp
qed

text \<open>
  A header that announces more than the limit is refused: nothing is delivered, the rest of the
  chunk is dropped, and the packer starts afresh.
\<close>

theorem feed_rejects_oversize:
  assumes "packer_inv st" "body_size st = 0" "length (buffer st @ d) = 4"
    and "unat (max_body_size st) < le_nat (buffer st @ d)"
  shows "feed st (d @ rest) = Inr (False, new_packer (max_body_size st), [])"
  using feed_oversize [OF assms] assms(1)
  by (cases st) (simp add: reset_def new_packer_def packer_inv_def)

theorem feed_rejects_oversize_witness:
  "feed (new_packer 16) ([17, 0, 0, 0] @ [1, 2]) = Inr (False, new_packer 16, [])"
  using feed_rejects_oversize [of "new_packer 16" "[17, 0, 0, 0]" "[1, 2]"]
  by simp

text \<open>
  An empty package, which packing accepts, is delivered if more bytes follow its header in the
  same chunk and is lost if the chunk ends there; and if its header was itself split, the following
  package makes the code read past the bytes of its header.
\<close>

theorem empty_package_lost:
  "pack (new_packer mx) [] = [0, 0, 0, 0] \<and>
   feed (new_packer mx) [0, 0, 0, 0] = Inr (True, new_packer mx, []) \<and>
   feed (new_packer mx) [0, 0, 0, 0, b] =
     Inr (True, (new_packer mx)\<lparr>buffer := [b], header_len_now := 1\<rparr>, [[]]) \<and>
   feed_all (new_packer mx) [[0, 0], [0, 0], [1, 0, 0, 0, b]] = Inl OutOfBounds"
proof (intro conjI)
  show "pack (new_packer mx) [] = [0, 0, 0, 0]"
    by (simp add: pack_def le_bytes_numeral)
  have z: "feed (new_packer mx) ([0, 0, 0, 0] @ r) =
      (if r = [] then Inr (True, new_packer mx, [])
       else bindr (feed_body (new_packer mx) r) (\<lambda>(st', out). Inr (True, st', out)))" for r
    using feed_header_body [of "new_packer mx" "[0, 0, 0, 0]" r] by (simp add: new_packer_def)
  show "feed (new_packer mx) [0, 0, 0, 0] = Inr (True, new_packer mx, [])"
    using z [of "[]"] by simp
  show "feed (new_packer mx) [0, 0, 0, 0, b] =
     Inr (True, (new_packer mx)\<lparr>buffer := [b], header_len_now := 1\<rparr>, [[]])"
    using z [of "[b]"] by (simp add: feed_body.simps feed_wait_header reset_def)
  have h: "header_len_now s = 2 \<Longrightarrow> header_len s = 2" for s
    by (simp add: header_len_def)
  show "feed_all (new_packer mx) [[0, 0], [0, 0], [1, 0, 0, 0, b]] = Inl OutOfBounds"
    by (simp add: feed_wait_header) (simp add: h feed.simps peek_def Let_def)
qed

end
