(* ===== verification/Connection.thy ===== *)
theory Connection
  imports DataPacker Dispatch
begin

text \<open>
  \<open>stream_connection\<close> of \<open>connection.hpp\<close>: a connection over a stream of bytes (a socket, a serial
  port). Sending packs the package and hands the bytes to \<open>send_bytes_impl\<close>; received bytes are fed
  to the packer, whose packages go to \<open>on_recv_package\<close>. What a transport of packages owes its users
  is the locale \<open>package_stream\<close>, which the packer provides.
\<close>

section \<open>The code\<close>

text \<open>
  The connection part of the object is the connection \<open>sc_base\<close> of the world, where a dispatcher
  may have set \<open>on_recv_package\<close>. \<open>sc_wire\<close> holds what \<open>send_bytes_impl\<close> was given, call by call;
  it is \<open>None\<close> while that function is not set.
\<close>

record stream_connection =
  sc_base :: nat
  sc_packer :: data_packer
  sc_wire :: "bytes list option"

definition new_stream :: "nat \<Rightarrow> u32 \<Rightarrow> stream_connection" where
  "new_stream c mx = \<lparr>sc_base = c, sc_packer = new_packer mx, sc_wire = None\<rparr>"

text \<open>Setting \<open>send_bytes_impl\<close>.\<close>

definition set_send_bytes :: "stream_connection \<Rightarrow> stream_connection" where
  "set_send_bytes s = s\<lparr>sc_wire := Some []\<rparr>"

text \<open>The lambda that the constructor stores in \<open>send_package_impl\<close>.\<close>

definition stream_send :: "bytes \<Rightarrow> stream_connection \<Rightarrow> stream_connection res" where
  "stream_send package s =
     (let payload = pack (sc_packer s) package
      in case sc_wire s of
           None \<Rightarrow> Inl NullCall
         | Some sent \<Rightarrow> Inr (s\<lparr>sc_wire := Some (sent @ [payload])\<rparr>))"

text \<open>
  The lambdas in \<open>data_packer_.on_data\<close> and \<open>on_recv_bytes\<close>. A call of \<open>on_recv_package\<close> does not touch
  the packer (sending only reads its limit), so the packages of a chunk are handed on, in order.
\<close>

fun on_data :: "coder \<Rightarrow> nat \<Rightarrow> bytes list \<Rightarrow> 'u world \<Rightarrow> 'u world res" where
  "on_data co c [] w = Inr w"
| "on_data co c (p # ps) w = bindr (recv_package co c p w) (on_data co c ps)"

definition on_recv_bytes ::
  "coder \<Rightarrow> bytes \<Rightarrow> stream_connection \<Rightarrow> 'u world \<Rightarrow> (stream_connection \<times> 'u world) res" where
  "on_recv_bytes co data s w =
     bindr (feed (sc_packer s) data) (\<lambda>(_, p, out).
     bindr (on_data co (sc_base s) out w) (\<lambda>w.
     Inr (s\<lparr>sc_packer := p\<rparr>, w)))"

definition stream_reset :: "stream_connection \<Rightarrow> stream_connection" where
  "stream_reset s = s\<lparr>sc_packer := reset (sc_packer s)\<rparr>"

text \<open>Several packages sent, several chunks received.\<close>

fun stream_sends :: "bytes list \<Rightarrow> stream_connection \<Rightarrow> stream_connection res" where
  "stream_sends [] s = Inr s"
| "stream_sends (p # ps) s = bindr (stream_send p s) (stream_sends ps)"

fun on_recv_chunks ::
  "coder \<Rightarrow> bytes list \<Rightarrow> stream_connection \<Rightarrow> 'u world \<Rightarrow> (stream_connection \<times> 'u world) res" where
  "on_recv_chunks co [] s w = Inr (s, w)"
| "on_recv_chunks co (c # cs) s w =
     bindr (on_recv_bytes co c s w) (\<lambda>(s, w). on_recv_chunks co cs s w)"

section \<open>The interface of a packer\<close>

text \<open>
  \<open>step\<close> consumes a chunk and gives the packages it completes. A state is \<open>clean\<close> if it holds no
  part of a package, \<open>ok\<close> says which packages may be sent. The law: from a clean state, chunks that
  together are the frames of some packages give these packages and end clean, however they are cut.
\<close>

fun steps :: "('s \<Rightarrow> bytes \<Rightarrow> ('s \<times> bytes list) res) \<Rightarrow> 's \<Rightarrow> bytes list \<Rightarrow> ('s \<times> bytes list) res" where
  "steps step st [] = Inr (st, [])"
| "steps step st (c # cs) =
     bindr (step st c) (\<lambda>(st, out). bindr (steps step st cs) (\<lambda>(st, out'). Inr (st, out @ out')))"

text \<open>A client hands each package to a handler as it comes.\<close>

fun handle_chunks ::
  "('s \<Rightarrow> bytes \<Rightarrow> ('s \<times> bytes list) res) \<Rightarrow> (bytes list \<Rightarrow> 'w \<Rightarrow> 'w res) \<Rightarrow> bytes list \<Rightarrow> 's \<Rightarrow> 'w \<Rightarrow>
   ('s \<times> 'w) res" where
  "handle_chunks step h [] st w = Inr (st, w)"
| "handle_chunks step h (c # cs) st w =
     bindr (step st c) (\<lambda>(st, out). bindr (h out w) (handle_chunks step h cs st))"

text \<open>A handler of several packages is one that handles each in turn.\<close>

definition in_turn :: "(bytes list \<Rightarrow> 'w \<Rightarrow> 'w res) \<Rightarrow> bool" where
  "in_turn h \<longleftrightarrow> (\<forall>w. h [] w = Inr w) \<and> (\<forall>a b w. h (a @ b) w = bindr (h a w) (h b))"

lemma handle_chunks_steps:
  assumes "steps step st cs = Inr (st', out)" "in_turn h"
  shows "handle_chunks step h cs st w = bindr (h out w) (\<lambda>w. Inr (st', w))"
  using assms(1)
proof (induction cs arbitrary: st w out)
  case Nil
  then show ?case using assms(2) by (simp add: in_turn_def)
next
  case (Cons c cs)
  then obtain st1 o1 o2 where s: "step st c = Inr (st1, o1)" "steps step st1 cs = Inr (st', o2)" "out = o1 @ o2"
    by (auto simp: res_simps)
  have "handle_chunks step h cs st1 = (\<lambda>w. bindr (h o2 w) (\<lambda>w. Inr (st', w)))"
    by (rule ext) (rule Cons.IH [OF s(2)])
  with s assms(2) show ?case by (simp add: in_turn_def bindr_assoc)
qed

locale package_stream =
  fixes frame :: "'s \<Rightarrow> bytes \<Rightarrow> bytes"
    and step :: "'s \<Rightarrow> bytes \<Rightarrow> ('s \<times> bytes list) res"
    and clean :: "'s \<Rightarrow> bool"
    and ok :: "'s \<Rightarrow> bytes \<Rightarrow> bool"
  assumes steps_frames:
    "clean st \<Longrightarrow> list_all (ok st) ps \<Longrightarrow> concat cs = concat (map (frame st) ps) \<Longrightarrow>
       \<exists>st'. steps step st cs = Inr (st', ps) \<and> clean st' \<and> frame st' = frame st \<and> ok st' = ok st"
begin

lemma steps_append:
  "steps step st (cs @ cs') =
     bindr (steps step st cs) (\<lambda>(st, out). bindr (steps step st cs') (\<lambda>(st, out'). Inr (st, out @ out')))"
  by (induction cs arbitrary: st) (auto simp: bindr_assoc bindr_Inr split_def)

text \<open>One package in one chunk.\<close>

lemma step_frame:
  assumes "clean st" "ok st p"
  shows "\<exists>st'. step st (frame st p) = Inr (st', [p]) \<and> clean st'"
  using steps_frames [of st "[p]" "[frame st p]"] assms by (auto simp: res_simps)

text \<open>Streams may follow one another.\<close>

lemma steps_frames_twice:
  assumes "clean st" "list_all (ok st) ps" "concat cs = concat (map (frame st) ps)"
    and "list_all (ok st) ps'" "concat cs' = concat (map (frame st) ps')"
  shows "\<exists>st'. steps step st (cs @ cs') = Inr (st', ps @ ps') \<and> clean st'"
proof -
  obtain st1 where st1: "steps step st cs = Inr (st1, ps)" "clean st1" "frame st1 = frame st" "ok st1 = ok st"
    using steps_frames [OF assms(1-3)] by blast
  with steps_frames [of st1 ps' cs'] assms(4,5) show ?thesis by (auto simp: steps_append)
qed

text \<open>The client ends as if it were handed the packages themselves.\<close>

lemma handle_frames:
  assumes "clean st" "list_all (ok st) ps" "concat cs = concat (map (frame st) ps)" "in_turn h"
  shows "\<exists>st'. clean st' \<and> handle_chunks step h cs st w = bindr (h ps w) (\<lambda>w. Inr (st', w))"
  using steps_frames [OF assms(1-3)] handle_chunks_steps [of step st cs _ ps h w, OF _ assms(4)] by blast

end

section \<open>The packer provides it\<close>

definition feed_step :: "data_packer \<Rightarrow> bytes \<Rightarrow> (data_packer \<times> bytes list) res" where
  "feed_step st c = mapr snd (feed st c)"

definition clean_packer :: "data_packer \<Rightarrow> bool" where
  "clean_packer st \<longleftrightarrow> packer_inv st \<and> pending st = []"

lemma steps_feed_all: "steps feed_step st cs = feed_all st cs"
  by (induction cs arbitrary: st) (simp_all add: feed_step_def split_def)

lemma clean_new [simp]: "clean_packer (new_packer mx)"
  by (simp add: clean_packer_def)

lemma clean_bounded: "clean_packer st \<Longrightarrow> bounded_inv st"
  using length_le_bytes [of 4 "unat (body_size st)"]
  by (cases "body_size st = 0") (auto simp: clean_packer_def packer_inv_def pending_def bounded_inv_def)

lemma same_limit:
  "max_body_size st' = max_body_size st \<Longrightarrow> pack st' = pack st \<and> packable st' = packable st"
  by (auto simp: pack_def packable_def fun_eq_iff)

interpretation packer: package_stream pack feed_step clean_packer packable
proof unfold_locales
  fix st :: data_packer and ps cs
  assume st: "clean_packer st" and ps: "list_all (packable st) ps"
    and cs: "concat cs = concat (map (pack st) ps)"
  from st deframe_stream [OF ps] cs obtain st' where st': "feed_all st cs = Inr (st', ps)" "packer_inv st'" "pending st' = []"
    using feed_all_refines_deframe [of st cs ps "[]"] by (auto simp: clean_packer_def)
  moreover have "max_body_size st' = max_body_size st"
    using feed_all_bounded [OF st'(1)] clean_bounded [OF st] by simp
  ultimately show "\<exists>st'. steps feed_step st cs = Inr (st', ps) \<and> clean_packer st' \<and> pack st' = pack st \<and> packable st' = packable st"
    using same_limit [of st' st] by (auto simp: steps_feed_all clean_packer_def)
qed

section \<open>Streams\<close>

lemma feed_has_on_data:
  "feed st data = Inr (r, st', out) \<Longrightarrow> has_on_data st' = has_on_data st"
  "feed_body st data = Inr (st', out) \<Longrightarrow> has_on_data st' = has_on_data st"
proof (induction st data and st data arbitrary: r st' out and st' out rule: feed_feed_body.induct)
  case (1 st data)
  let ?st = "st\<lparr>body_size := of_nat (le_nat h), buffer := []\<rparr>"
  from "1.prems" "1.IH"(1) "1.IH"(2) show ?case
    by (subst (asm) feed.simps) (auto simp: Let_def res_simps reset_def split: if_splits)
next
  case (2 st data)
  let ?need = "unat (body_size st) - length (buffer st)"
  from "2.prems" have len: "length (buffer st) + length data < unat (body_size st) \<or> length (buffer st) \<le> unat (body_size st)"
    by (subst (asm) feed_body.simps) (auto split: if_splits)
  then have "length (buffer st) \<le> unat (body_size st)" by auto
  with "2.prems" show ?case
  proof (cases rule: feed_bodyE)
    case (again r out')
    then show ?thesis using "2.IH" [OF _ _ refl refl refl refl _ again(2)] len by auto
  qed (simp_all add: reset_def)
qed

lemma on_data_in_turn: "in_turn (on_data co c :: bytes list \<Rightarrow> 'u world \<Rightarrow> 'u world res)"
proof -
  have "on_data co c (a @ b) w = bindr (on_data co c a w) (on_data co c b)" for a b and w :: "'u world"
    by (induction a arbitrary: w) (simp_all add: bindr_assoc cong: bindr_cong)
  then show ?thesis by (simp add: in_turn_def)
qed

lemma on_recv_chunks_handle:
  "on_recv_chunks co cs s w =
     mapr (\<lambda>(p, w). (s\<lparr>sc_packer := p\<rparr>, w)) (handle_chunks feed_step (on_data co (sc_base s)) cs (sc_packer s) w)"
  by (induction cs arbitrary: s w)
    (simp_all add: on_recv_bytes_def feed_step_def bindr_assoc mapr_bindr split_def cong: bindr_cong)

lemma stream_sends_wire:
  assumes "sc_wire s = Some sent"
  shows "stream_sends ps s = Inr (s\<lparr>sc_wire := Some (sent @ map (pack (sc_packer s)) ps)\<rparr>)"
  using assms
  by (induction ps arbitrary: s sent) (simp_all add: stream_send_def Let_def)

lemma stream_simps [simp]:
  "sc_packer (set_send_bytes s) = sc_packer s" "sc_wire (set_send_bytes s) = Some []"
  "sc_packer (new_stream c mx) = new_packer mx" "sc_base (new_stream c mx) = c"
  by (simp_all add: set_send_bytes_def new_stream_def)

lemma stream_delivers:
  assumes "sc_wire a = Some []" "pack (sc_packer b) = pack (sc_packer a)" "clean_packer (sc_packer b)"
    and "list_all (packable (sc_packer b)) ps"
    and "stream_sends ps a = Inr a'" "sc_wire a' = Some sent" "concat chunks = concat sent"
  shows "\<exists>p. clean_packer p \<and>
    on_recv_chunks co chunks b w = bindr (on_data co (sc_base b) ps w) (\<lambda>w. Inr (b\<lparr>sc_packer := p\<rparr>, w))"
proof -
  have "concat chunks = concat (map (pack (sc_packer b)) ps)"
    using assms stream_sends_wire [OF assms(1), of ps] by auto
  then obtain p where "clean_packer p"
      "handle_chunks feed_step (on_data co (sc_base b)) chunks (sc_packer b) w = bindr (on_data co (sc_base b) ps w) (\<lambda>w. Inr (p, w))"
    using packer.handle_frames [OF assms(3,4) _ on_data_in_turn] by blast
  then show ?thesis by (auto simp: on_recv_chunks_handle mapr_bindr)
qed

section \<open>Properties of stream connections\<close>

text \<open>
  C3: Two rpc peers over a byte stream: whatever non-empty packages within the limit one side sends,
  and however the bytes are cut on the way, the other side does exactly what it would do if it were
  handed these packages one by one, in order.
\<close>

theorem stream_is_transparent:
  assumes "list_all (packable (new_packer mx)) ps"
    and "stream_sends ps (set_send_bytes (new_stream c mx)) = Inr a" "sc_wire a = Some sent"
    and "concat chunks = concat sent"
  shows "\<exists>p. pending p = [] \<and>
    on_recv_chunks co chunks (new_stream c' mx) w =
      bindr (on_data co c' ps w) (\<lambda>w. Inr ((new_stream c' mx)\<lparr>sc_packer := p\<rparr>, w))"
  using stream_delivers [of "set_send_bytes (new_stream c mx)" "new_stream c' mx" ps a sent chunks co w] assms
  by (auto simp: clean_packer_def)

theorem stream_is_transparent_witness:
  "\<exists>p. pending p = [] \<and>
     on_recv_chunks coder_default [[2, 0, 0], [0, 7], [8, 1, 0, 0, 0, 9]] (new_stream 3 16) (empty_world 0) =
       bindr (on_data coder_default 3 [[7, 8], [9]] (empty_world 0)) (\<lambda>w. Inr ((new_stream 3 16)\<lparr>sc_packer := p\<rparr>, w))"
proof (rule stream_is_transparent [where c = 0 and sent = "[[2, 0, 0, 0, 7, 8], [1, 0, 0, 0, 9]]"])
  show "stream_sends [[7, 8], [9]] (set_send_bytes (new_stream 0 16)) =
      Inr ((set_send_bytes (new_stream 0 16))\<lparr>sc_wire := Some [[2, 0, 0, 0, 7, 8], [1, 0, 0, 0, 9]]\<rparr>)"
    by (simp add: stream_send_def pack_def le_bytes_numeral)
qed (simp_all add: packable_def)

text \<open>What receiving leaves alone.\<close>

lemma on_recv_chunks_frame:
  assumes "on_recv_chunks co cs s w = Inr (s', w')" "bounded_inv (sc_packer s)"
  shows "max_body_size (sc_packer s') = max_body_size (sc_packer s) \<and>
    has_on_data (sc_packer s') = has_on_data (sc_packer s) \<and> sc_base s' = sc_base s \<and> sc_wire s' = sc_wire s"
  using assms
proof (induction cs arbitrary: s w)
  case (Cons c cs)
  then obtain r p out w1 where f: "feed (sc_packer s) c = Inr (r, p, out)"
      "on_recv_chunks co cs (s\<lparr>sc_packer := p\<rparr>) w1 = Inr (s', w')"
    by (auto simp: on_recv_bytes_def res_simps)
  from feed_bounded [OF f(1) Cons.prems(2)] Cons.IH [OF f(2)] feed_has_on_data(1) [OF f(1)] show ?case by simp
qed simp

text \<open>
  After \<open>reset\<close> (a reconnection) nothing of the old stream is left: the connection behaves like a
  new one, whatever bytes it was fed with before, hostile ones and parts of packages included.
\<close>

theorem stream_reset_is_new:
  assumes "on_recv_chunks co chunks (new_stream c mx) w = Inr (s, w')"
  shows "stream_reset s = new_stream c mx"
  using on_recv_chunks_frame [OF assms]
  by (cases s; cases "sc_packer s")
    (simp add: stream_reset_def new_stream_def reset_def new_packer_def bounded_inv_def)

theorem stream_reset_is_new_witness:
  "stream_reset (\<lparr>sc_base = 3, sc_packer = \<lparr>max_body_size = 16, buffer = [7, 8], header_len_now = 0, body_size = 3, has_on_data = True\<rparr>,
     sc_wire = None\<rparr>) = new_stream 3 16"
proof (rule stream_reset_is_new)
  have "feed (new_packer 16) [3, 0, 0, 0] =
      Inr (True, \<lparr>max_body_size = 16, buffer = [], header_len_now = 0, body_size = 3, has_on_data = True\<rparr>, [])"
    "feed \<lparr>max_body_size = 16, buffer = [], header_len_now = 0, body_size = 3, has_on_data = True\<rparr> [7, 8] =
      Inr (True, \<lparr>max_body_size = 16, buffer = [7, 8], header_len_now = 0, body_size = 3, has_on_data = True\<rparr>, [])"
    by code_simp+
  then show "on_recv_chunks coder_default [[3, 0, 0, 0], [7, 8]] (new_stream 3 16) (empty_world (0 :: nat)) =
      Inr (\<lparr>sc_base = 3, sc_packer = \<lparr>max_body_size = 16, buffer = [7, 8], header_len_now = 0, body_size = 3, has_on_data = True\<rparr>,
        sc_wire = None\<rparr>, empty_world 0)"
    by (simp add: on_recv_bytes_def new_stream_def)
qed

end
