(* ===== verification/Future.thy ===== *)
theory Future
  imports Calls
begin

text \<open>
  The blocking and coroutine forms of a call in \<open>request.ipp\<close>: \<open>future<R>\<close>, \<open>future<void>\<close> and
  the two \<open>co_call\<close>s. Each installs a callback that sets a promise, or completes a coroutine, and
  calls. The promise is a cell of the user's state: \<open>set_value\<close> is what setting it does to that state.
\<close>

section \<open>The code\<close>

text \<open>\<open>future<R>\<close> with a value: the promise is set in the callback of \<open>rsp\<close>.\<close>

definition future_value_setup ::
  "nat \<Rightarrow> 'a codec \<Rightarrow> ('a result \<Rightarrow> 'u \<Rightarrow> 'u) \<Rightarrow> 'u request \<Rightarrow> 'u request" where
  "future_value_setup i c set_value q =
     req_rsp i (rsp_cb2 c (\<lambda>v ty. set_value \<lparr>r_type = ty, r_data = v\<rparr>)) q"

definition future_value ::
  "coder \<Rightarrow> nat \<Rightarrow> 'a codec \<Rightarrow> ('a result \<Rightarrow> 'u \<Rightarrow> 'u) \<Rightarrow> nat option \<Rightarrow> 'u world \<Rightarrow> 'u world res" where
  "future_value co i c set_value rpc w =
     bindr (on_req i (future_value_setup i c set_value) w) (user_call co i rpc)"

text \<open>\<open>future<void>\<close>: the promise is set in the callback of \<open>finally\<close>.\<close>

definition future_void_setup :: "nat \<Rightarrow> (finally_t \<Rightarrow> 'u \<Rightarrow> 'u) \<Rightarrow> 'u request \<Rightarrow> 'u request" where
  "future_void_setup i set_value q = req_finally set_value (req_mark_need_rsp i q)"

definition future_void ::
  "coder \<Rightarrow> nat \<Rightarrow> (finally_t \<Rightarrow> 'u \<Rightarrow> 'u) \<Rightarrow> nat option \<Rightarrow> 'u world \<Rightarrow> 'u world res" where
  "future_void co i set_value rpc w =
     bindr (on_req i (future_void_setup i set_value) w) (user_call co i rpc)"

text \<open>
  \<open>co_call\<close>: the same with \<open>complete\<close>, which posts the completion to the coroutine's executor.
\<close>

definition co_call_value ::
  "coder \<Rightarrow> nat \<Rightarrow> 'a codec \<Rightarrow> ('a result \<Rightarrow> 'u \<Rightarrow> 'u) \<Rightarrow> 'u world \<Rightarrow> 'u world res" where
  "co_call_value co i c complete w =
     bindr (on_req i (req_rsp i (rsp_cb2 c (\<lambda>v ty. complete \<lparr>r_type = ty, r_data = v\<rparr>))) w)
       (user_call co i None)"

definition co_call_void ::
  "coder \<Rightarrow> nat \<Rightarrow> (finally_t \<Rightarrow> 'u \<Rightarrow> 'u) \<Rightarrow> 'u world \<Rightarrow> 'u world res" where
  "co_call_void co i complete w =
     bindr (on_req i (\<lambda>q. req_finally complete (req_mark_need_rsp i q)) w) (user_call co i None)"

text \<open>
  \<open>rpc::co_call<R>\<close>, with a message or without: \<open>call\<close> is \<open>request::co_call<R>\<close>, one of the two
  above. The temporary pointer to the request lives in the coroutine's frame.
\<close>

definition rpc_co_call ::
  "nat \<Rightarrow> cmd_type \<Rightarrow> ('a codec \<times> 'a) option \<Rightarrow> (nat \<Rightarrow> 'u world \<Rightarrow> 'u world res) \<Rightarrow> 'u world \<Rightarrow>
   (nat \<times> 'u world) res" where
  "rpc_co_call r cmd message call w =
     bindr (rpc_cmd r cmd w) (\<lambda>(i, w).
     bindr (case message of
         None \<Rightarrow> Inr w
       | Some (c, v) \<Rightarrow> with_req i w (\<lambda>q. mapr (\<lambda>q. put_req i q w) (req_msg c v q))) (\<lambda>w.
     mapr (Pair i) (call i w)))"

section \<open>The set-up requests\<close>

lemma setup_simps [simp]:
  "canceled_flag (future_value_setup i c sv q) = canceled_flag q" "req_rpc (future_value_setup i c sv q) = req_rpc q"
  "finally_fn (future_value_setup i c sv q) = finally_fn q" "req_cmd (future_value_setup i c sv q) = req_cmd q"
  "payload (future_value_setup i c sv q) = payload q" "is_ping (future_value_setup i c sv q) = is_ping q"
  "rsp_handle (future_value_setup i c sv q) =
     Some \<lparr>rh_this = i, rh_cb = rsp_cb2 c (\<lambda>v ty. sv \<lparr>r_type = ty, r_data = v\<rparr>)\<rparr>"
  "canceled_flag (future_void_setup i st q) = canceled_flag q" "req_rpc (future_void_setup i st q) = req_rpc q"
  "finally_fn (future_void_setup i st q) = Some st"
  "rsp_handle (future_void_setup i st q) = Some \<lparr>rh_this = i, rh_cb = rsp_cb0 (\<lambda>u. u)\<rparr>"
  by (simp_all add: future_value_setup_def future_void_setup_def req_rsp_def req_finally_def req_mark_need_rsp_def)

text \<open>A coroutine's call is a future's, for the same cell.\<close>

lemma co_call_future:
  "co_call_value co i c complete w = future_value co i c complete None w"
  "co_call_void co i complete' w = future_void co i complete' None w"
  by (simp_all add: co_call_value_def future_value_def future_value_setup_def [abs_def]
      co_call_void_def future_void_def future_void_setup_def [abs_def])

lemma refusal_setup:
  "refusal (future_value_setup i c sv q) w = refusal q w" "refusal (future_void_setup i st q) w = refusal q w"
  by (simp_all add: refusal_def rpc_lock_def)

lemma refusal_cong: "rpcs w' = rpcs w \<Longrightarrow> refusal q w' = refusal q w"
  by (simp add: refusal_def rpc_lock_def cong: option.case_cong if_cong)

lemma refused_after_setup:
  assumes "reqs w i = Some q" "refusal (f q) w = Some ty"
  shows "\<exists>w'. bindr (on_req i f w) (user_call co i None) = Inr w' \<and>
    events w' = events w @ [event.Call i, Finish i ty] \<and>
    user w' = (case finally_fn (f q) of None \<Rightarrow> user w | Some g \<Rightarrow> g ty (user w))"
proof -
  let ?w = "log_event (event.Call i) (put_req i (f q) w)"
  have "reqs ?w i = Some (f q)" "refusal (f q) ?w = Some ty"
    using assms refusal_cong [of ?w w "f q"] by (simp_all add: log_event_def put_req_def)
  then obtain w' where w': "request_call co i None ?w = Inr w'" "events w' = events ?w @ [Finish i ty]"
      "user w' = (case finally_fn (f q) of None \<Rightarrow> user ?w | Some g \<Rightarrow> g ty (user ?w))"
    using refused_call [of ?w i "f q" ty co] by blast
  have "bindr (on_req i f w) (user_call co i None) = Inr w'"
    using assms(1) w'(1) by (simp add: on_req_def user_call_def)
  with w'(2,3) show ?thesis by (simp add: log_event_def put_req_def split: option.split)
qed

section \<open>Properties\<close>

text \<open>
  C22: A future with a value receives the answer: when the peer has a handler for the command, the
  promise is set once, with \<open>normal\<close> and exactly the value that the handler returned.
\<close>

theorem value_future_gets_the_answer:
  assumes "message_coder co wire" "staged s w" "wire (scene_msg s)"
    and "wire (rsp_msg (rpc_seq (s_caller s)) d)"
    and "codec p okp" "okp v" "serialize p v = Inr (payload (s_req s))" "length (payload (s_req s)) < 2 ^ 64"
    and "cmd_handle_map (dispatcher (s_peer s)) (req_cmd (s_req s)) = Some (handle_ret_param p r handle)"
    and "\<not> is_ping (s_req s)"
    and "handle v (user w) = (ret, u')"
    and "codec r okr" "okr ret" "serialize r ret = Inr d" "length d < 2 ^ 64"
    and "s_req s = future_value_setup (s_id s) r set_value q0" "finally_fn q0 = None"
  shows "\<exists>p1 p2 w'. conversation co s w = Inr (p1, p2, w') \<and>
    user w' = set_value \<lparr>r_type = normal, r_data = ret\<rparr> u' \<and> events w' = events w @ [Finish (s_id s) normal]"
proof -
  have "Some (s_handle s) = rsp_handle (s_req s)" using assms(2) by (simp add: staged_def)
  then have h: "rh_cb (s_handle s) = rsp_cb2 r (\<lambda>v ty. set_value \<lparr>r_type = ty, r_data = v\<rparr>)"
    by (simp add: assms(16))
  have "deserialize r d = Inr (True, ret)"
    using codec.serialize_deserialize [OF assms(12-15)] .
  then have "rsp_effect (rh_cb (s_handle s)) (received (rsp_msg (rpc_seq (s_caller s)) d)) =
      Inr ((True, normal), set_value \<lparr>r_type = normal, r_data = ret\<rparr>)"
    by (simp add: h rsp_cb2_def)
  from conversation_answered [OF assms(1-11,14) this] show ?thesis
    using assms(16,17) by (auto simp: concluded_def)
qed

text \<open>The sample scene with a future: the user's state is the promise, 0 as long as it is not set.\<close>

definition promise_set :: "int result \<Rightarrow> int \<Rightarrow> int" where
  "promise_set r u = r_data r"

definition future_scene :: "cmd_type \<Rightarrow> int scene" where
  "future_scene cmd =
     (sample_scene cmd False)
       \<lparr>s_req := future_value_setup 0 (int_codec True 32) promise_set (s_req (sample_scene cmd False)),
        s_handle := \<lparr>rh_this = 0,
          rh_cb = rsp_cb2 (int_codec True 32) (\<lambda>v ty. promise_set \<lparr>r_type = ty, r_data = v\<rparr>)\<rparr>\<rparr>"

lemma future_staged: "staged (future_scene cmd) (scene_world (future_scene cmd))"
  by (simp add: staged_def future_scene_def sample_scene_def scene_world_def scene_conn_def new_rpc_def
      new_dispatcher_def set_timer_impl_def subscribe_cmd_def req_rsp_def new_request_def future_value_setup_def)

lemma future_scene_simps [simp]:
  "rpc_seq (s_caller (future_scene cmd)) = 0" "s_peer (future_scene cmd) = s_peer (sample_scene cmd False)"
  "req_cmd (s_req (future_scene cmd)) = cmd" "\<not> is_ping (s_req (future_scene cmd))"
  "payload (s_req (future_scene cmd)) = [1, 41]" "s_id (future_scene cmd) = 0"
  "s_req (future_scene cmd) =
     future_value_setup 0 (int_codec True 32) promise_set (s_req (sample_scene cmd False))"
  "finally_fn (s_req (sample_scene cmd False)) = None" "events (scene_world s) = []"
  by (simp_all add: future_scene_def sample_scene_def new_rpc_def new_dispatcher_def req_rsp_def new_request_def
      future_value_setup_def scene_world_def empty_world_def)

theorem value_future_gets_the_answer_witness:
  "\<exists>p1 p2 w'. conversation coder_default (future_scene [99]) (scene_world (future_scene [99])) = Inr (p1, p2, w') \<and>
     user w' = 42 \<and> events w' = [Finish 0 normal]"
proof -
  have s: "serialize (int_codec True 32) 41 = Inr [1, 41]" "serialize (int_codec True 32) 42 = Inr [1, 42]"
    by code_simp+
  show ?thesis
    using value_future_gets_the_answer [OF default_coder.message_coder_axioms future_staged, of "[99]" "[1, 42]"
        "int_codec True 32" "auto_ok True 32" 41 "int_codec True 32" "\<lambda>v u. (v + 1, u + 1)" 42 1
        "auto_ok True 32" promise_set "s_req (sample_scene [99] False)"] s int.codec_axioms
    by (simp add: coder_wire_def scene_msg_def rsp_msg_def empty_msg_def succ_handle_def auto_ok_def int_range_def promise_set_def)
qed

text \<open>
  A call that cannot be made (canceled, no live rpc object, rpc object not ready) is reported by
  \<open>future<void>\<close>, whose promise is set with the reason before the function returns; a future with a
  value is left unset for ever: the call has ended, and only \<open>finally\<close>, not the promise, was told.
\<close>

theorem refused_futures:
  assumes "reqs w i = Some q" "refusal q w = Some ty"
  shows "(\<exists>w1. future_void co i set_void None w = Inr w1 \<and> user w1 = set_void ty (user w)) \<and>
    (\<exists>w2. future_value co i c set_value None w = Inr w2 \<and> events w2 = events w @ [event.Call i, Finish i ty] \<and>
       user w2 = (case finally_fn q of None \<Rightarrow> user w | Some f \<Rightarrow> f ty (user w)))"
  using refused_after_setup [OF assms(1), of "future_void_setup i set_void" ty co]
    refused_after_setup [OF assms(1), of "future_value_setup i c set_value" ty co] assms(2)
  by (auto simp: refusal_setup future_void_def future_value_def)

theorem refused_futures_witness:
  "(\<exists>w1. future_void coder_default 0 (\<lambda>ty u. 7) None ((sample_world sample_cb 0)\<lparr>rpcs := Map.empty\<rparr>) = Inr w1 \<and> user w1 = 7) \<and>
   (\<exists>w2. future_value coder_default 0 (int_codec True 32) (\<lambda>r u. 7) None ((sample_world sample_cb 0)\<lparr>rpcs := Map.empty\<rparr>) =
      Inr w2 \<and> user w2 = 0)"
proof -
  have q: "reqs ((sample_world sample_cb 0)\<lparr>rpcs := Map.empty\<rparr>) 0 = Some (sample_request sample_cb)" by simp
  have "refusal (sample_request sample_cb) ((sample_world sample_cb 0)\<lparr>rpcs := Map.empty\<rparr>) = Some rpc_expired"
    by (simp add: refusal_def rpc_lock_def sample_request_def new_request_def)
  from refused_futures [OF q this, of coder_default "\<lambda>ty u. 7" "int_codec True 32" "\<lambda>r u. 7"] show ?thesis
    by (auto simp: sample_request_def new_request_def)
qed

text \<open>
  A future with a value whose command the peer does not know stays unset: the peer's answer ends
  the call with \<open>no_such_cmd\<close>, but the callback that would set the promise is not called.
\<close>

theorem value_future_of_unknown_command_stuck:
  assumes "message_coder co wire" "staged s w" "wire (scene_msg s)"
    and "wire (empty_msg\<lparr>m_seq := rpc_seq (s_caller s), m_type := response OR no_such_cmd\<rparr>)"
    and "cmd_handle_map (dispatcher (s_peer s)) (req_cmd (s_req s)) = None" "\<not> is_ping (s_req s)"
    and "s_req s = future_value_setup (s_id s) r set_value q0" "finally_fn q0 = None"
  shows "\<exists>p1 p2 w'. conversation co s w = Inr (p1, p2, w') \<and> user w' = user w \<and>
    events w' = events w @ [Finish (s_id s) finally_no_such_cmd]"
  using conversation_unknown [OF assms(1-6)] assms(7,8) by (auto simp: concluded_def)

theorem value_future_of_unknown_command_stuck_witness:
  "\<exists>p1 p2 w'. conversation coder_default (future_scene [98]) (scene_world (future_scene [98])) = Inr (p1, p2, w') \<and>
     user w' = 0 \<and> events w' = [Finish 0 finally_no_such_cmd]"
  using value_future_of_unknown_command_stuck [OF default_coder.message_coder_axioms future_staged, of "[98]"
      "int_codec True 32" promise_set "s_req (sample_scene [98] False)"]
  by (simp add: coder_wire_def scene_msg_def empty_msg_def)

end
