(* ===== verification/Dispose.thy ===== *)
theory Dispose
  imports Calls
begin

text \<open>
  The class \<open>dispose\<close> of \<open>dispose.hpp\<close>: a list of weak pointers to requests, which are all canceled
  together, at the latest when the object is destroyed. A weak pointer is the number of a request; it
  has expired when the request is not in the world any more.
\<close>

section \<open>The code\<close>

record dispose =
  dispose_requests :: "nat list"

definition dispose_add :: "nat \<Rightarrow> dispose \<Rightarrow> dispose" where
  "dispose_add i d = d\<lparr>dispose_requests := dispose_requests d @ [i]\<rparr>"

text \<open>\<open>std::remove_if\<close>: the expired pointers go as well.\<close>

definition dispose_remove :: "nat \<Rightarrow> 'u world \<Rightarrow> dispose \<Rightarrow> dispose" where
  "dispose_remove i w d =
     d\<lparr>dispose_requests := [j \<leftarrow> dispose_requests d. \<not> (case reqs w j of None \<Rightarrow> True | Some _ \<Rightarrow> j = i)]\<rparr>"

text \<open>One turn of the loop: the pointer that \<open>lock\<close> gives lives until the end of the turn.\<close>

definition dismiss_one :: "nat \<Rightarrow> 'u world \<Rightarrow> 'u world res" where
  "dismiss_one i w =
     (case reqs w i of
        None \<Rightarrow> Inr w
      | Some r \<Rightarrow>
          bindr (on_req i (\<lambda>q. q\<lparr>refs := refs q + 1\<rparr>) w) (\<lambda>w.
          bindr (request_cancel i w) (drop_ref i)))"

fun dismiss_loop :: "nat list \<Rightarrow> 'u world \<Rightarrow> 'u world res" where
  "dismiss_loop [] w = Inr w"
| "dismiss_loop (i # is) w = bindr (dismiss_one i w) (dismiss_loop is)"

definition dispose_dismiss :: "dispose \<Rightarrow> 'u world \<Rightarrow> (dispose \<times> 'u world) res" where
  "dispose_dismiss d w =
     bindr (dismiss_loop (dispose_requests d) w) (\<lambda>w. Inr (d\<lparr>dispose_requests := []\<rparr>, w))"

definition dispose_destroy :: "dispose \<Rightarrow> 'u world \<Rightarrow> 'u world res" where
  "dispose_destroy d w = mapr snd (dispose_dismiss d w)"

text \<open>\<open>request::add_to\<close>.\<close>

definition request_add_to :: "nat \<Rightarrow> 'u world \<Rightarrow> dispose \<Rightarrow> dispose res" where
  "request_add_to i w d = with_req i w (\<lambda>q. Inr (dispose_add i d))"

section \<open>What dismissing does\<close>

text \<open>Whether a request is alive and waits for its call to end.\<close>

definition is_waiting :: "'u world \<Rightarrow> nat \<Rightarrow> bool" where
  "is_waiting w i = (case reqs w i of None \<Rightarrow> False | Some q \<Rightarrow> waiting_rsp q)"

text \<open>A dismissed request: canceled, at rest, and gone if only the library held it.\<close>

definition dismissed :: "'u request \<Rightarrow> 'u request option" where
  "dismissed q =
     (if refs q = 0 \<and> (waiting_rsp q \<or> \<not> self_keeper q) then None
      else if waiting_rsp q
      then Some (q\<lparr>canceled_flag := True, waiting_rsp := False, finally_type := canceled, self_keeper := False\<rparr>)
      else Some (q\<lparr>canceled_flag := True\<rparr>))"

lemma dismiss_one_effect:
  assumes "reqs w i = Some q"
  shows "\<exists>w'. dismiss_one i w = Inr w' \<and> reqs w' = (reqs w)(i := dismissed q) \<and>
    events w' = events w @ (if waiting_rsp q then [Finish i canceled] else []) \<and>
    conns w' = conns w \<and> rpcs w' = rpcs w"
proof -
  let ?q = "q\<lparr>refs := refs q + 1, canceled_flag := True\<rparr>"
  let ?w = "put_req i ?q w"
  have c: "dismiss_one i w = bindr (on_finish i canceled ?w) (drop_ref i)"
    using assms by (simp add: dismiss_one_def request_cancel_def on_req_def req_canceled_def put_req_def bindr_assoc)
  have q: "reqs ?w i = Some ?q" by (simp add: put_req_def)
  show ?thesis
  proof (cases "waiting_rsp q")
    case True
    with q have "on_finish i canceled ?w = Inr (finished i ?q canceled ?w)" by (intro on_finish_finished [OF q]) simp
    with c True show ?thesis
      by (auto simp: drop_ref_def finished_def put_req_def dismissed_def)
  next
    case False
    with q have "on_finish i canceled ?w = Inr ?w" by (intro on_finish_ignored [OF q]) simp
    with c False show ?thesis by (auto simp: drop_ref_def put_req_def dismissed_def)
  qed
qed

lemma dismiss_one_expired: "reqs w i = None \<Longrightarrow> dismiss_one i w = Inr w"
  by (simp add: dismiss_one_def)

text \<open>A second turn for the same request ends nothing more.\<close>

lemma dismissed_simps:
  "dismissed q = Some q' \<Longrightarrow> \<not> waiting_rsp q' \<and> canceled_flag q'"
  by (auto simp: dismissed_def split: if_splits)

text \<open>The numbers of a list, each at its first occurrence.\<close>

definition firsts :: "nat list \<Rightarrow> nat list" where
  "firsts xs = rev (remdups (rev xs))"

lemma remdups_snoc: "remdups (xs @ [x]) = filter (\<lambda>y. y \<noteq> x) (remdups xs) @ [x]"
  by (induction xs) auto

lemma firsts_simps [simp]:
  "firsts [] = []" "firsts (x # xs) = x # filter (\<lambda>y. y \<noteq> x) (firsts xs)"
  by (simp_all add: firsts_def remdups_snoc rev_filter)

lemma set_firsts [simp]: "set (firsts xs) = set xs"
  by (simp add: firsts_def)

lemma filter_firsts: "filter P (firsts xs) = firsts (filter P xs)"
proof (induction xs)
  case (Cons x xs)
  have "filter P (filter (\<lambda>y. y \<noteq> x) (firsts xs)) = filter (\<lambda>y. y \<noteq> x) (filter P (firsts xs))"
    by (simp add: conj_commute)
  also have "\<dots> = filter (\<lambda>y. y \<noteq> x) (firsts (filter P xs))" by (simp only: Cons)
  finally show ?case by (auto simp: filter_id_conv simp del: filter_filter)
qed simp

lemma dismiss_loop_effect:
  "\<exists>w'. dismiss_loop is w = Inr w' \<and>
     events w' = events w @ map (\<lambda>i. Finish i canceled) (filter (is_waiting w) (firsts is)) \<and>
     (\<forall>i. i \<notin> set is \<longrightarrow> reqs w' i = reqs w i) \<and>
     (\<forall>i\<in>set is. \<forall>q'. reqs w' i = Some q' \<longrightarrow> canceled_flag q' \<and> \<not> waiting_rsp q') \<and>
     conns w' = conns w \<and> rpcs w' = rpcs w"
proof (induction "is" arbitrary: w)
  case Nil
  then show ?case by simp
next
  case (Cons i "is")
  show ?case
  proof (cases "reqs w i")
    case None
    then have "\<not> is_waiting w i" by (simp add: is_waiting_def)
    then have "filter (is_waiting w) (firsts (i # is)) = filter (is_waiting w) (firsts is)"
      by (auto simp: intro!: filter_cong)
    with Cons.IH [of w] None show ?thesis by (fastforce simp: dismiss_one_expired)
  next
    case (Some q)
    obtain w1 where w1: "dismiss_one i w = Inr w1" "reqs w1 = (reqs w)(i := dismissed q)"
        "events w1 = events w @ (if waiting_rsp q then [Finish i canceled] else [])"
        "conns w1 = conns w" "rpcs w1 = rpcs w"
      using dismiss_one_effect [OF Some] by blast
    have "is_waiting w1 = (\<lambda>j. j \<noteq> i \<and> is_waiting w j)"
      using w1(2) dismissed_simps [of q] by (auto simp: is_waiting_def fun_eq_iff split: option.split)
    then have f: "filter (is_waiting w1) (firsts is) = filter (is_waiting w) (filter (\<lambda>y. y \<noteq> i) (firsts is))"
      by simp
    obtain w' where w': "dismiss_loop is w1 = Inr w'"
        "events w' = events w1 @ map (\<lambda>i. Finish i canceled) (filter (is_waiting w1) (firsts is))"
        "\<And>j. j \<notin> set is \<Longrightarrow> reqs w' j = reqs w1 j"
        "\<And>j q'. j \<in> set is \<Longrightarrow> reqs w' j = Some q' \<Longrightarrow> canceled_flag q' \<and> \<not> waiting_rsp q'"
        "conns w' = conns w1" "rpcs w' = rpcs w1"
      using Cons.IH [of w1] by blast
    have "events w' = events w @ map (\<lambda>i. Finish i canceled) (filter (is_waiting w) (firsts (i # is)))"
      using w'(2) w1(3) Some by (simp add: f is_waiting_def)
    moreover have "canceled_flag q' \<and> \<not> waiting_rsp q'" if "reqs w' i = Some q'" for q'
      using w'(3,4) [of i] w1(2) that dismissed_simps [of q q'] by (cases "i \<in> set is") auto
    ultimately show ?thesis using w1 w' by auto
  qed
qed

text \<open>A waiting request that only the library holds is destroyed.\<close>

lemma dismiss_loop_expired: "dismiss_loop is w = Inr w' \<Longrightarrow> reqs w i = None \<Longrightarrow> reqs w' i = None"
proof (induction "is" arbitrary: w)
  case (Cons j "is")
  then obtain w1 where w1: "dismiss_one j w = Inr w1" "dismiss_loop is w1 = Inr w'" by (auto simp: res_simps)
  have "reqs w1 i = None"
    using w1(1) dismiss_one_effect [of w j] dismiss_one_expired [of w j] Cons.prems(2)
    by (cases "reqs w j") (auto simp: fun_upd_def split: if_splits)
  with Cons.IH w1(2) show ?case by blast
qed simp

lemma dismiss_loop_destroys:
  "dismiss_loop is w = Inr w' \<Longrightarrow> i \<in> set is \<Longrightarrow> reqs w i = Some q \<Longrightarrow> waiting_rsp q \<Longrightarrow> refs q = 0 \<Longrightarrow>
     reqs w' i = None"
proof (induction "is" arbitrary: w)
  case (Cons j "is")
  then obtain w1 where w1: "dismiss_one j w = Inr w1" "dismiss_loop is w1 = Inr w'" by (auto simp: res_simps)
  show ?case
  proof (cases "j = i")
    case True
    with w1(1) dismiss_one_effect [of w i q] Cons.prems have "reqs w1 i = None" by (auto simp: dismissed_def)
    with w1(2) dismiss_loop_expired show ?thesis by blast
  next
    case False
    have "reqs w1 i = Some q"
      using w1(1) dismiss_one_effect [of w j] dismiss_one_expired [of w j] Cons.prems(3) False
      by (cases "reqs w j") auto
    with Cons.IH [OF w1(2)] Cons.prems False show ?thesis by simp
  qed
qed simp

section \<open>Properties\<close>

text \<open>
  C23: Dismissing, and so destroying a \<open>dispose\<close>, always returns, and ends exactly the calls that the
  added requests are waiting for: each once, with \<open>canceled\<close>, in the order in which they were added,
  even if one was added twice; every added request that is still alive is canceled and at rest, so
  that no callback of its response can run, and no other request is touched.
\<close>

theorem dismiss_cancels_the_added:
  "\<exists>w'. dispose_destroy d w = Inr w' \<and>
     events w' = events w @ map (\<lambda>i. Finish i canceled) (filter (is_waiting w) (firsts (dispose_requests d))) \<and>
     (\<forall>i. (i \<in> set (dispose_requests d) \<or> reqs w' i = reqs w i) \<and>
        (case reqs w' i of None \<Rightarrow> True
         | Some q \<Rightarrow> i \<notin> set (dispose_requests d) \<or> (canceled_flag q \<and> \<not> waiting_rsp q)))"
proof -
  obtain w' where w': "dismiss_loop (dispose_requests d) w = Inr w'"
      "events w' = events w @ map (\<lambda>i. Finish i canceled) (filter (is_waiting w) (firsts (dispose_requests d)))"
      "\<And>i. i \<notin> set (dispose_requests d) \<Longrightarrow> reqs w' i = reqs w i"
      "\<And>i q. i \<in> set (dispose_requests d) \<Longrightarrow> reqs w' i = Some q \<Longrightarrow> canceled_flag q \<and> \<not> waiting_rsp q"
    using dismiss_loop_effect [of "dispose_requests d" w] by blast
  then have "(i \<in> set (dispose_requests d) \<or> reqs w' i = reqs w i) \<and>
      (case reqs w' i of None \<Rightarrow> True
       | Some q \<Rightarrow> i \<notin> set (dispose_requests d) \<or> (canceled_flag q \<and> \<not> waiting_rsp q))" for i
    by (cases "i \<in> set (dispose_requests d)") (simp_all split: option.split)
  with w' show ?thesis by (auto simp: dispose_destroy_def dispose_dismiss_def)
qed

theorem dismiss_cancels_the_added_witness:
  "\<exists>w'. dispose_destroy \<lparr>dispose_requests = [0, 3, 0]\<rparr> (sample_world sample_cb 0) = Inr w' \<and>
     events w' = [event.Call 0, Finish 0 canceled]"
proof -
  have "reqs (sample_world sample_cb 0) 3 = None" by (simp add: sample_world_def)
  then have "is_waiting (sample_world sample_cb 0) 0" "\<not> is_waiting (sample_world sample_cb 0) 3"
    by (simp_all add: is_waiting_def sample_request_def)
  then show ?thesis
    using dismiss_cancels_the_added [of "\<lparr>dispose_requests = [0, 3, 0]\<rparr>" "sample_world sample_cb 0"] by auto
qed

text \<open>
  A request that was added and then removed survives the dismissal untouched, however often it
  was added before; the other added ones are still canceled.
\<close>

theorem removed_request_survives:
  assumes "dispose_destroy (dispose_remove i w (dispose_add i d)) w = Inr w'"
  shows "reqs w' i = reqs w i \<and>
    events w' = events w @ map (\<lambda>j. Finish j canceled)
      (filter (\<lambda>j. is_waiting w j \<and> j \<noteq> i) (firsts (dispose_requests d)))"
proof -
  let ?d = "dispose_requests (dispose_remove i w (dispose_add i d))"
  have d: "?d = [j \<leftarrow> dispose_requests d. reqs w j \<noteq> None \<and> j \<noteq> i]"
    by (auto simp: dispose_remove_def dispose_add_def intro: filter_cong split: option.split)
  have w': "dismiss_loop ?d w = Inr w'" using assms by (auto simp: dispose_destroy_def dispose_dismiss_def res_simps)
  have "i \<notin> set ?d" by (simp add: d)
  then have "reqs w' i = reqs w i" "events w' = events w @ map (\<lambda>i. Finish i canceled) (filter (is_waiting w) (firsts ?d))"
    using dismiss_loop_effect [of ?d w] w' by auto
  moreover have "filter (is_waiting w) (firsts ?d) = filter (\<lambda>j. is_waiting w j \<and> j \<noteq> i) (firsts (dispose_requests d))"
    by (auto simp: d filter_firsts [symmetric] is_waiting_def intro!: filter_cong split: option.splits)
  ultimately show ?thesis by simp
qed

theorem removed_request_survives_witness:
  "\<exists>w'. dispose_destroy (dispose_remove 0 (sample_world sample_cb 0) (dispose_add 0 \<lparr>dispose_requests = [0, 3]\<rparr>))
       (sample_world sample_cb 0) = Inr w' \<and>
     reqs w' 0 = Some (sample_request sample_cb) \<and> events w' = [event.Call 0]"
proof -
  have n: "reqs (sample_world sample_cb 0) 3 = None" by (simp add: sample_world_def)
  let ?d = "dispose_remove 0 (sample_world sample_cb 0) (dispose_add 0 \<lparr>dispose_requests = [0, 3]\<rparr>)"
  obtain w' where w': "dispose_destroy ?d (sample_world sample_cb 0) = Inr w'"
    using dismiss_loop_effect [of "dispose_requests ?d" "sample_world sample_cb 0"]
    by (auto simp: dispose_destroy_def dispose_dismiss_def)
  from removed_request_survives [OF w'] w' n show ?thesis by (auto simp: is_waiting_def)
qed

text \<open>
  C36: Dismissing a waiting request that only the library holds (its pointers were dropped after the
  call, as in a chain that ends with \<open>call()\<close>) destroys it while the dispatcher still has its closures:
  a response that arrives later, and the timer of the call, use the destroyed object.
\<close>

theorem dismissed_request_dangles:
  assumes "rpcs w r = Some x" "rsp_handle_map (dispatcher x) (m_seq msg) = Some (Some h)"
    and "reqs w (rh_this h) = Some q" "waiting_rsp q" "refs q = 0"
    and "rh_this h \<in> set (dispose_requests d)" "dispatch_kind (m_type msg) = response"
    and "t_dispatcher t = r" "t_seq t = m_seq msg" "t_cb t = Some tc" "tc_this tc = rh_this h"
  shows "\<exists>w'. dispose_destroy d w = Inr w' \<and>
    dispatch co r msg w' = Inl UseAfterFree \<and> fire_timer co t w' = Inl UseAfterFree"
proof -
  obtain w' where w': "dismiss_loop (dispose_requests d) w = Inr w'" "rpcs w' = rpcs w"
    using dismiss_loop_effect [of "dispose_requests d" w] by blast
  moreover have "reqs w' (rh_this h) = None"
    using dismiss_loop_destroys [OF w'(1) assms(6,3)] assms(4,5) by simp
  moreover have "reqs (case tc_cb tc of None \<Rightarrow> w' | Some f \<Rightarrow> log_event e (run_user f w')) = reqs w'" for e
    by (simp add: put_defs split: option.split)
  ultimately show ?thesis
    using assms
    by (auto simp: dispose_destroy_def dispose_dismiss_def dispatch_def Let_def dispatch_response_def
        run_rsp_handle_def with_req_def fire_timer_def run_timeout_closure_def)
qed

theorem dismissed_request_dangles_witness:
  "\<exists>w w'. drop_ref 0 (sample_world sample_cb 0) = Inr w \<and>
     dispose_destroy \<lparr>dispose_requests = [0]\<rparr> w = Inr w' \<and>
     dispatch coder_default 0 (empty_msg\<lparr>m_type := response\<rparr>) w' = Inl UseAfterFree \<and>
     fire_timer coder_default sample_timer w' = Inl UseAfterFree"
proof -
  let ?q = "(sample_request sample_cb)\<lparr>refs := 0\<rparr>"
  let ?w = "put_req 0 ?q (sample_world sample_cb 0)"
  have "drop_ref 0 (sample_world sample_cb 0) = Inr ?w"
    by (simp add: drop_ref_def sample_request_def new_request_def)
  moreover have "rpcs ?w 0 = rpcs (sample_world sample_cb 0) 0" "reqs ?w 0 = Some ?q"
    by (simp_all add: put_req_def)
  ultimately show ?thesis
    using dismissed_request_dangles [of ?w 0 _ "empty_msg\<lparr>m_type := response\<rparr>"
        "\<lparr>rh_this = 0, rh_cb = sample_cb\<rparr>" ?q "\<lparr>dispose_requests = [0]\<rparr>" sample_timer
        "\<lparr>tc_this = 0, tc_cb = None\<rparr>" coder_default]
    by (simp add: empty_msg_def sample_request_def new_request_def sample_timer_def)
qed

end
