(* ===== verification/SerializeProps.thy ===== *)
theory SerializeProps
  imports Coder
begin

text \<open>
  Properties of the serializer and of the two coders. The codec laws of the component theories do
  the work; here they are stated on \<open>serialize\<close> and \<open>deserialize\<close>, the functions a user calls,
  together with what happens where the laws' conditions fail.
\<close>

section \<open>Values that survive\<close>

text \<open>
  The value can be serialized, and deserializing the bytes into a fresh object succeeds and gives it
  back. Only a size of \<open>2^64\<close> bytes or more, which no memory holds, is excepted.
\<close>

definition restores :: "'a codec \<Rightarrow> 'a \<Rightarrow> bool" where
  "restores c v =
     (case serialize c v of
        Inl e \<Rightarrow> False
      | Inr b \<Rightarrow> 2 ^ 64 \<le> length b \<or> deserialize c b = Inr (True, v))"

lemma codec_restores: "codec c ok \<Longrightarrow> ok v \<Longrightarrow> restores c v"
  using codec.wr_total [of c ok v] codec.serialize_deserialize [of c ok v]
  by (force simp: restores_def serialize_def not_le [symmetric])

lemma seq_codec_restores: "seq_codec c ok \<Longrightarrow> ok v \<Longrightarrow> restores c v"
  by (rule codec_restores [OF seq_codec.axioms(1)])

text \<open>
  C24: The variable-length integers: whatever follows in memory, decoding an encoded value into a fresh
  object gives the value back and consumes exactly the encoding, which is never longer than nine
  bytes and has no leading zero byte in its magnitude.
\<close>

theorem auto_size_roundtrip:
  assumes "auto_serialize sg v = Inr bs"
  shows "auto_deserialize sg 0 (bs @ rest) = Inr (v, length bs) \<and> 0 < length bs \<and> length bs \<le> 9 \<and>
    (v = 0 \<or> 256 ^ (length bs - 2) \<le> unat (if is_neg sg v then - v else v))"
proof -
  have "v = 0 \<or> 256 ^ (length bs - 2) \<le> unat (if is_neg sg v then - v else v)"
  proof (cases "v = 0")
    case False
    with assms obtain m e where
      "m = (if is_neg sg v then - v else v)" "256 ^ (e - 1) \<le> unat m" "length bs = Suc e"
      by (rule auto_serialize_Inr) auto
    then show ?thesis by simp
  qed simp
  with auto_roundtrip [OF assms] auto_serialize_length [OF assms] show ?thesis by blast
qed

theorem auto_size_roundtrip_witness:
  "auto_deserialize True 0 ([0x82, 0x2c, 0x01] @ [7]) = Inr (- 300, 3)"
proof -
  have "auto_serialize True (- 300) = Inr [0x82, 0x2c, 0x01]" by code_simp
  from auto_size_roundtrip [OF this, of "[7]"] show ?thesis by simp
qed

text \<open>
  Vectors, lists, deques, forward lists and arrays come back with all their elements in order, for
  every element type whose own operators restore its values, nested to any depth.
\<close>

theorem sequences_restore:
  assumes "codec c ok" "list_all ok t" "length t < 2 ^ 64"
  shows "restores (list_like_codec c) t \<and> restores (forward_list_codec c) t \<and>
    restores (array_codec (length t) c) t \<and> restores (adaptor_codec (list_like_codec c)) t"
  using seq_codec_restores [OF codec.list_like_seq [OF assms(1)], of t]
    seq_codec_restores [OF codec.forward_list_seq [OF assms(1)], of t]
    seq_codec_restores [OF codec.array_seq [OF assms(1), of "length t"], of t]
    seq_codec_restores [OF adaptor_seq [OF codec.list_like_seq [OF assms(1)]], of t] assms(2,3)
  by simp

theorem sequences_restore_witness:
  "restores (list_like_codec (list_like_codec (string_codec 1))) [[[1, 2], []], []]"
proof -
  have i: "codec (list_like_codec (string_codec 1)) (\<lambda>t. list_all (\<lambda>s. 0 < (1 :: nat) \<and> 1 dvd length s) t \<and> length t < 2 ^ 64)"
    by (rule seq_codec.axioms(1) [OF codec.list_like_seq [OF string.codec_axioms]])
  show ?thesis using sequences_restore [OF i, of "[[[1, 2], []], []]"] by simp
qed

text \<open>
  Sets and maps, ordered or not, with unique or repeated keys, come back with exactly their
  elements in iteration order, whatever comparison their type was given.
\<close>

theorem keyed_containers_restore:
  assumes "codec ck okk" "codec cv okv"
    and "list_all okk t" "length t < 2 ^ 64" "well_ordered kind cmp (\<lambda>x. x) t"
    and "list_all (\<lambda>(k, v). okk k \<and> okv v) m" "length m < 2 ^ 64" "well_ordered kind cmp fst m"
  shows "restores (set_codec kind cmp ck) t \<and> restores (map_codec kind cmp ck cv) m"
  using seq_codec_restores [OF codec.set_seq [OF assms(1)], of t kind cmp]
    seq_codec_restores [OF map_seq [OF assms(1,2)], of m kind cmp] assms(3-8)
  by simp

theorem keyed_containers_restore_witness:
  "restores (map_codec Ordered \<lparr>key_less = (<), key_equal = (=)\<rparr> (int_codec True 32) (string_codec 1))
     [(- 5, [104, 105]), (300, [])]"
proof -
  have "auto_ok True 32 (- 5)" "auto_ok True 32 300" by (simp_all add: auto_ok_def int_range_def)
  then show ?thesis
    using keyed_containers_restore [OF int.codec_axioms string.codec_axioms, of True 32 "[]" Ordered
        "\<lparr>key_less = (<), key_equal = (=)\<rparr>" 1 "[(- 5, [104, 105]), (300, [])]"]
    by (simp add: well_ordered_def)
qed

text \<open>
  Structures declared with \<open>RPC_CORE_DEFINE_TYPE\<close>: if every field copies (which a field of a type
  with a codec does, as long as its default is the type's), the whole structure comes back.
\<close>

theorem structures_restore:
  assumes "fields_append fs" "fields_copy fs t d"
  shows "restores (define_type d fs) t"
  using codec_restores [OF define_type_codec [OF assms(1), of d]] assms(2) by simp

text \<open>A structure of an integer, a string, and a vector of integers, as a triple.\<close>

definition sample_fields :: "(int \<times> bytes \<times> int list) field list" where
  "sample_fields =
     [serialize_field fst (\<lambda>v (a, b, c). (v, b, c)) (int_codec True 32),
      serialize_field (\<lambda>(a, b, c). b) (\<lambda>v (a, b, c). (a, v, c)) (string_codec 1),
      serialize_field (\<lambda>(a, b, c). c) (\<lambda>v (a, b, c). (a, b, v)) (list_like_codec (int_codec False 64))]"

theorem structures_restore_witness:
  "restores (define_type (0, [], []) sample_fields) (- 7, [97, 98], [1, 70000])"
proof (rule structures_restore)
  let ?okl = "\<lambda>t. list_all (auto_ok False 64) t \<and> length t < 2 ^ 64"
  have l: "codec (list_like_codec (int_codec False 64)) ?okl"
    by (rule seq_codec.axioms(1) [OF codec.list_like_seq [OF int.codec_axioms]])
  show "fields_append sample_fields"
    by (simp add: sample_fields_def int.serialize_field_appends string.serialize_field_appends
        codec.serialize_field_appends [OF l])
  have d: "dflt (int_codec True 32) = 0" "dflt (string_codec 1) = []" "dflt (list_like_codec (int_codec False 64)) = []"
    by (simp_all add: int_codec_def string_codec_def list_like_codec_def)
  have o1: "auto_ok True 32 (- 7)" "?okl [1, 70000]" by (simp_all add: auto_ok_def int_range_def)
  have f1: "field_copies (serialize_field fst (\<lambda>v (a, b, c). (v, b, c)) (int_codec True 32))
      (- 7, [97, 98], [1, 70000]) (0, [], []) (- 7, [], [])"
    using int.serialize_field_copies [of True 32 fst "(- 7, [97, 98], [1, 70000])" "(0, [], [])"
        "\<lambda>v (a, b, c). (v, b, c)"] o1 d by simp
  have f2: "field_copies (serialize_field (\<lambda>(a, b, c). b) (\<lambda>v (a, b, c). (a, v, c)) (string_codec 1))
      (- 7, [97, 98], [1, 70000]) (- 7, [], []) (- 7, [97, 98], [])"
    using string.serialize_field_copies [of 1 "\<lambda>(a, b, c). b" "(- 7, [97, 98], [1, 70000])" "(- 7, [], [])"
        "\<lambda>v (a, b, c). (a, v, c)"] d by simp
  have f3: "field_copies (serialize_field (\<lambda>(a, b, c). c) (\<lambda>v (a, b, c). (a, b, v)) (list_like_codec (int_codec False 64)))
      (- 7, [97, 98], [1, 70000]) (- 7, [97, 98], []) (- 7, [97, 98], [1, 70000])"
    using codec.serialize_field_copies [OF l, of "\<lambda>(a, b, c). c" "(- 7, [97, 98], [1, 70000])" "(- 7, [97, 98], [])"
        "\<lambda>v (a, b, c). (a, b, v)"] o1 d by simp
  show "fields_copy sample_fields (- 7, [97, 98], [1, 70000]) (0, [], [])"
    unfolding sample_fields_def fields_copy.simps using f1 f2 f3 by blast
qed

section \<open>Where deserializing goes wrong\<close>

text \<open>
  A tuple, and so a pair, reports success although the deserialization of an element in a nested
  archive failed; a vector with the same element reports the error.
\<close>

theorem tuple_swallows_errors:
  assumes "\<not> is_fund c" "sub_archive ia = Inr (tmp, ia')" "rd c (dflt c) tmp = Inr (v, tmp')"
    and "ia_error tmp'" "\<not> ia_error ia'"
  shows "(\<exists>ia2. rd (tuple_one False c) (dflt c) ia = Inr (v, ia2) \<and> \<not> ia_error ia2) \<and>
    (\<exists>ia3. item_read c ia = Inr (None, ia3) \<and> ia_error ia3)"
  using assms
  by (simp add: tuple_one_def tuple_de_serialize_helper_impl_def tuple_serialize_type_check_def item_read_def)

text \<open>A type whose deserialization always fails.\<close>

definition failing_codec :: "unit codec" where
  "failing_codec = json_msg_codec (\<lambda>_. Inr []) (\<lambda>_. None) ()"

theorem tuple_swallows_errors_witness:
  "\<exists>ia2. rd (tuple_one False failing_codec) () \<lparr>ia_data = [0], ia_size = 1, ia_error = False\<rparr> = Inr ((), ia2) \<and>
     \<not> ia_error ia2"
proof -
  have a: "auto_deserialize False 0 [0] = Inr (0, 1)" by code_simp
  have s: "sub_archive \<lparr>ia_data = [0], ia_size = 1, ia_error = False\<rparr> =
      Inr (\<lparr>ia_data = [], ia_size = 0, ia_error = False\<rparr>, \<lparr>ia_data = [], ia_size = 0, ia_error = False\<rparr>)"
    by (simp add: sub_archive_def a advance_def)
  have r: "rd failing_codec (dflt failing_codec) \<lparr>ia_data = [], ia_size = 0, ia_error = False\<rparr> =
      Inr ((), \<lparr>ia_data = [], ia_size = 0, ia_error = True\<rparr>)"
    by (simp add: failing_codec_def json_msg_codec_def peek_def)
  have f: "\<not> is_fund failing_codec" by (simp add: failing_codec_def json_msg_codec_def)
  show ?thesis using tuple_swallows_errors [OF f s r] by simp
qed

text \<open>
  A null \<open>unique_ptr\<close> or \<open>shared_ptr\<close> is one byte, and deserializing it succeeds but leaves the
  target pointer as it was: into an object that holds a value, null does not arrive.
\<close>

theorem null_pointer_keeps_target:
  "serialize (unique_ptr_codec c) None = Inr [0] \<and>
   deserialize_into (unique_ptr_codec c) old [0] = Inr (True, old) \<and>
   serialize (shared_ptr_codec c) None = Inr [0] \<and>
   deserialize_into (shared_ptr_codec c) old [0] = Inr (True, old)"
  using bool_read_write [of False False "[0]" 1 False]
  by (simp add: shared_ptr_eq_unique_ptr serialize_def deserialize_into_def unique_ptr_codec_def bool_write)

context codec
begin

text \<open>The reading loop stops where storing an element faults.\<close>

lemma items_read_fault:
  assumes "list_all ok (us @ v # ws)" "items_write c (us @ v # ws) [] = Inr b" "length b < 2 ^ 64"
    and "\<And>xs y ys. us = xs @ y # ys \<Longrightarrow> put (acc xs) y = Inr (acc (xs @ [y]))" "put (acc us) v = Inl err"
  shows "items_read c (length (us @ v # ws)) put (acc []) \<lparr>ia_data = b @ rest, ia_size = s, ia_error = e\<rparr> = Inl err"
proof -
  have "items_read c (length (zs @ v # ws)) put (acc xs) \<lparr>ia_data = b @ rest, ia_size = s, ia_error = e\<rparr> = Inl err"
    if "us = xs @ zs" "items_write c (zs @ v # ws) [] = Inr b" "length b < 2 ^ 64" for xs zs b s
    using that
  proof (induction zs arbitrary: xs b s)
    case Nil
    then have "items_write c (v # ws) [] = Inr b" by simp
    then obtain b1 b2 where b: "item_write c v [] = Inr b1" "b = b1 @ b2" by (rule items_write_ConsE)
    have "ok v" using assms(1) by simp
    from item_read_write [OF this b(1), of "b2 @ rest" s e] b Nil assms(5) show ?case by simp
  next
    case (Cons y zs)
    have "items_write c (y # zs @ v # ws) [] = Inr b" using Cons.prems(2) by simp
    then obtain b1 b2 where
      b: "item_write c y [] = Inr b1" "items_write c (zs @ v # ws) [] = Inr b2" "b = b1 @ b2"
      by (rule items_write_ConsE)
    have "ok y" using assms(1) Cons.prems(1) by simp
    from item_read_write [OF this b(1), of "b2 @ rest" s e]
      Cons.IH [of "xs @ [y]" b2 "s - of_nat (length b1)"] Cons.prems b assms(4) [OF Cons.prems(1)]
    show ?case by simp
  qed
  from this [of "[]" us b s] assms(2,3) show ?thesis by simp
qed

lemma array_too_long:
  assumes "list_all ok t" "n < length t" "length t < 2 ^ 64" "wr (list_like_codec c) t [] = Inr b" "length b < 2 ^ 64"
  shows "rd (array_codec n c) (dflt (array_codec n c)) \<lparr>ia_data = b @ rest, ia_size = s, ia_error = e\<rparr> = Inl OutOfBounds"
proof -
  define us v ws where "us = take n t" and "v = t ! n" and "ws = drop (Suc n) t"
  have t: "t = us @ v # ws" "length us = n"
    using assms(2) by (simp_all add: us_def v_def ws_def id_take_nth_drop)
  let ?acc = "\<lambda>us. (length us, us @ drop (length us) (replicate n (dflt c)))"
  from assms(4) obtain h where h: "write_auto False (of_nat (length t)) [] = Inr h" "items_write c t h = Inr b"
    by (auto simp: list_like_codec_def)
  from appends_InrE [OF items_write_appends h(2)] obtain d where
    d: "items_write c t [] = Inr d" and b: "b = h @ d" .
  have "items_read c (length (us @ v # ws)) array_put (?acc []) \<lparr>ia_data = d @ rest, ia_size = s - of_nat (length h), ia_error = e\<rparr> =
      Inl OutOfBounds"
  proof (rule items_read_fault)
    show "array_put (?acc xs) y = Inr (?acc (xs @ [y]))" if "us = xs @ y # ys" for xs y ys
      using t(2) that by (intro array_put_step) simp
    show "array_put (?acc us) v = Inl OutOfBounds" by (simp add: array_put_def t(2))
  qed (use assms(1,5) d b t in simp_all)
  then show ?thesis
    using read_write_auto [OF h(1), of "d @ rest" s e] unat_of_nat_length [OF assms(3)] b
    by (simp add: array_codec_def t(1) [symmetric])
qed

end

text \<open>
  C39: An array of \<open>n\<close> elements that is deserialized from a longer sequence is written past its end:
  the announced size is not compared with the array's.
\<close>

theorem array_overflow:
  assumes "codec c ok" "list_all ok t" "n < length t" "length t < 2 ^ 64"
    and "serialize (list_like_codec c) t = Inr b" "length b < 2 ^ 64"
  shows "deserialize (array_codec n c) b = Inl OutOfBounds"
  using codec.array_too_long [OF assms(1-4), of b "[0]" "of_nat (length b)" False] assms(5,6)
  by (simp add: serialize_def deserialize_def deserialize_into_def)

theorem array_overflow_witness:
  "deserialize (array_codec 1 (int_codec True 32)) [1, 2, 1, 7, 1, 9] = Inl OutOfBounds"
proof (rule array_overflow [OF int.codec_axioms])
  show "serialize (list_like_codec (int_codec True 32)) [7, 9] = Inr [1, 2, 1, 7, 1, 9]" by code_simp
  show "list_all (auto_ok True 32) [7, 9]" by (simp add: auto_ok_def int_range_def)
qed simp_all

section \<open>Varints and coders\<close>

text \<open>
  C40: What comes back of a number sent through the varint functions is \<open>varint_value\<close>: never more
  than the number, and the number itself only if it is below 128 or each seven-bit group above the
  lowest is odd, down to the last. The encoder's guard looks at bit 7 alone: 256 is written as 0.
\<close>

theorem varint_roundtrip_exact:
  "(case to_varint v of
      Inl e \<Rightarrow> False
    | Inr b \<Rightarrow> from_varint (b @ rest) = Inr (of_nat (varint_value (unat v)), length b)) \<and>
   varint_value (unat v) \<le> unat v \<and>
   (varint_value n = n) = (n < 128 \<or> (odd (n div 128) \<and> varint_value (n div 128) = n div 128)) \<and>
   to_varint 256 = Inr [0]"
proof -
  have "to_varint 256 = Inr [0]" by code_simp
  then show ?thesis
    using varint_value_le [of "unat v"] varint_value_eq_iff [of n] from_to_varint [of v rest]
    by (simp add: to_varint_Inr)
qed

text \<open>
  C21: The default coder carries every message: what is deserialized is the message, its payload or
  data, and its command, cut to its length modulo 65536 (so unchanged below that).
\<close>

theorem coder_roundtrip:
  "bindr (coder_serialize m) coder_deserialize =
     Inr (Some (received (m\<lparr>m_cmd := take (length (m_cmd m) mod 65536) (m_cmd m)\<rparr>)))"
proof -
  obtain b where "coder_serialize m = Inr b" using coder_serialize_total by blast
  with coder_deserialize_serialize [OF this] show ?thesis by simp
qed

text \<open>
  C20: The default coder accepts only what it could have written: if bytes deserialize as a message,
  serializing this message gives the same bytes, so that two different packages are never the same
  message; all other bytes, truncated ones included, are rejected.
\<close>

theorem coder_canonical:
  assumes "coder_deserialize b = Inr (Some m)"
  shows "coder_serialize m = Inr b \<and> coder_wire m"
proof -
  let ?s = "take 4 b" and ?p = "drop 4 b"
  let ?n = "le_nat (take 2 ?p)"
  let ?q = "drop 2 ?p"
  from assms have len: "7 \<le> length b" "?n + 1 \<le> length ?q"
    and m: "m = empty_msg\<lparr>m_seq := of_nat (le_nat ?s), m_cmd := take ?n ?q, m_type := hd (drop ?n ?q),
      m_data := drop 1 (drop ?n ?q)\<rparr>"
    by (auto simp: coder_deserialize_def PayloadMinLen_def Let_def split: if_splits)
  have s: "le_bytes 4 (unat (of_nat (le_nat ?s) :: u32)) = ?s"
  proof -
    have l: "length ?s = 4" using len by simp
    then have "unat (of_nat (le_nat ?s) :: u32) = le_nat ?s"
      using le_nat_bound [of ?s] by (simp add: unat_of_nat)
    then show ?thesis using le_bytes_le_nat [of ?s] l by simp
  qed
  have l2: "length (take 2 ?p) = 2" using len by simp
  have n: "?n < 65536" using le_nat_bound [of "take 2 ?p"] l2 by simp
  have u: "unat (of_nat ?n :: u16) = ?n" using n by (simp add: unat_of_nat)
  have b2: "le_bytes 2 ?n = take 2 ?p" using le_bytes_le_nat [of "take 2 ?p"] l2 by simp
  have cl: "length (m_cmd m) = ?n" using len m by simp
  have rest: "hd (drop ?n ?q) # drop 1 (drop ?n ?q) = drop ?n ?q"
    using len by (cases "drop ?n ?q") auto
  have "coder_serialize m = Inr (?s @ take 2 ?p @ take ?n ?q @ hd (drop ?n ?q) # drop 1 (drop ?n ?q))"
    using cl u s b2 by (simp add: coder_serialize_def m Let_def empty_msg_def)
  also have "\<dots> = Inr b" unfolding rest by (simp only: append_take_drop_id)
  finally show ?thesis using cl n by (simp add: coder_wire_def)
qed

theorem coder_canonical_witness:
  "coder_serialize (empty_msg\<lparr>m_seq := 5, m_cmd := [98], m_type := 5, m_data := [1, 2]\<rparr>) =
     Inr [5, 0, 0, 0, 1, 0, 98, 5, 1, 2]"
proof -
  have "coder_deserialize [5, 0, 0, 0, 1, 0, 98, 5, 1, 2] =
      Inr (Some (empty_msg\<lparr>m_seq := 5, m_cmd := [98], m_type := 5, m_data := [1, 2]\<rparr>))"
    by (simp add: coder_deserialize_def PayloadMinLen_def Let_def empty_msg_def)
  from coder_canonical [OF this] show ?thesis by simp
qed

end
