(* ===== verification/Overloads.thy ===== *)
theory Overloads
  imports Structs
begin

text \<open>
  Which pair of overloads the compiler takes for a C++ type, and the codec it is then instantiated
  to. The headers under \<open>serialize/\<close> declare one function template per family of types, each behind
  an \<open>enable_if\<close> on a trait; the traits are the functions \<open>is_std_array\<close> and so on, and \<open>enabled\<close> is
  the condition of each overload. A type is a \<open>sty\<close>, its values are \<open>val\<close>s, and \<open>codec_of\<close> builds the
  codec of a type from the codecs of its parts the way the templates are instantiated. Sizes are those
  of the 64-bit Unix targets. The comparison classes in the types of sets and maps are numbers; what
  they compute is the parameter \<open>cmps\<close>.
\<close>

section \<open>C++ types\<close>

datatype fund =
  C_bool | C_char | C_schar | C_uchar | C_short | C_ushort | C_int | C_uint | C_long | C_ulong
  | C_llong | C_ullong | C_float | C_double | C_ldouble | C_wchar | C_char16 | C_char32 | C_nullptr

definition size_of :: "fund \<Rightarrow> nat" where
  "size_of a =
     (case a of
        C_bool \<Rightarrow> 1 | C_char \<Rightarrow> 1 | C_schar \<Rightarrow> 1 | C_uchar \<Rightarrow> 1 | C_short \<Rightarrow> 2 | C_ushort \<Rightarrow> 2
      | C_int \<Rightarrow> 4 | C_uint \<Rightarrow> 4 | C_long \<Rightarrow> 8 | C_ulong \<Rightarrow> 8 | C_llong \<Rightarrow> 8 | C_ullong \<Rightarrow> 8
      | C_float \<Rightarrow> 4 | C_double \<Rightarrow> 8 | C_ldouble \<Rightarrow> 16
      | C_wchar \<Rightarrow> 4 | C_char16 \<Rightarrow> 2 | C_char32 \<Rightarrow> 4 | C_nullptr \<Rightarrow> 8)"

text \<open>The class templates of the standard library, with their arguments that are not types.\<close>

datatype tmpl =
  Std_array nat | Std_basic_string | Std_bitset nat | Std_duration | Std_time_point | Std_complex
  | Std_stack | Std_queue | Std_priority_queue | Std_forward_list | Std_vector | Std_list | Std_deque
  | Std_map nat | Std_unordered_map nat | Std_multimap nat | Std_unordered_multimap nat
  | Std_pair | Std_set nat | Std_unordered_set nat | Std_multiset nat | Std_unordered_multiset nat
  | Std_shared_ptr | Std_tuple | Std_unique_ptr

text \<open>
  \<open>TEnum\<close> has the signedness and width of the underlying type; \<open>TStruct\<close> is a class declared with
  \<open>RPC_CORE_DEFINE_TYPE\<close>, its fields without initializers of their own; \<open>TClass\<close> is any other class;
  \<open>TInst\<close> is an instance of a template, an adaptor with its container as the argument.
\<close>

datatype sty =
  TFund fund | TVoid | TEnum bool nat | TPtr | TBinaryWrap | TAutoSize bool | TIgnore | TClass
  | TInst tmpl "sty list" | TStruct "sty list"

section \<open>The traits\<close>

text \<open>
  Each is a primary template that is false and its partial specializations that are true.
\<close>

definition is_instance :: "(tmpl \<Rightarrow> bool) \<Rightarrow> sty \<Rightarrow> bool" where
  "is_instance f T = (case T of TInst k _ \<Rightarrow> f k | _ \<Rightarrow> False)"

definition is_auto_size_type :: "sty \<Rightarrow> bool" where
  "is_auto_size_type T = (case T of TAutoSize _ \<Rightarrow> True | _ \<Rightarrow> False)"

definition is_std_array :: "sty \<Rightarrow> bool" where
  "is_std_array = is_instance (\<lambda>k. case k of Std_array _ \<Rightarrow> True | _ \<Rightarrow> False)"

definition is_std_basic_string :: "sty \<Rightarrow> bool" where
  "is_std_basic_string = is_instance (\<lambda>k. case k of Std_basic_string \<Rightarrow> True | _ \<Rightarrow> False)"

definition is_std_bitset :: "sty \<Rightarrow> bool" where
  "is_std_bitset = is_instance (\<lambda>k. case k of Std_bitset _ \<Rightarrow> True | _ \<Rightarrow> False)"

definition is_std_chrono_duration :: "sty \<Rightarrow> bool" where
  "is_std_chrono_duration = is_instance (\<lambda>k. case k of Std_duration \<Rightarrow> True | _ \<Rightarrow> False)"

definition is_std_chrono_time_point :: "sty \<Rightarrow> bool" where
  "is_std_chrono_time_point = is_instance (\<lambda>k. case k of Std_time_point \<Rightarrow> True | _ \<Rightarrow> False)"

definition is_std_complex :: "sty \<Rightarrow> bool" where
  "is_std_complex = is_instance (\<lambda>k. case k of Std_complex \<Rightarrow> True | _ \<Rightarrow> False)"

definition is_std_stack :: "sty \<Rightarrow> bool" where
  "is_std_stack = is_instance (\<lambda>k. case k of
     Std_stack \<Rightarrow> True | Std_queue \<Rightarrow> True | Std_priority_queue \<Rightarrow> True | _ \<Rightarrow> False)"

definition is_std_forward_list :: "sty \<Rightarrow> bool" where
  "is_std_forward_list = is_instance (\<lambda>k. case k of Std_forward_list \<Rightarrow> True | _ \<Rightarrow> False)"

definition is_std_list_like :: "sty \<Rightarrow> bool" where
  "is_std_list_like = is_instance (\<lambda>k. case k of
     Std_vector \<Rightarrow> True | Std_list \<Rightarrow> True | Std_deque \<Rightarrow> True | _ \<Rightarrow> False)"

definition is_std_map_like :: "sty \<Rightarrow> bool" where
  "is_std_map_like = is_instance (\<lambda>k. case k of
     Std_map _ \<Rightarrow> True | Std_unordered_map _ \<Rightarrow> True
   | Std_multimap _ \<Rightarrow> True | Std_unordered_multimap _ \<Rightarrow> True | _ \<Rightarrow> False)"

definition is_std_pair :: "sty \<Rightarrow> bool" where
  "is_std_pair = is_instance (\<lambda>k. case k of Std_pair \<Rightarrow> True | _ \<Rightarrow> False)"

definition is_std_set_like :: "sty \<Rightarrow> bool" where
  "is_std_set_like = is_instance (\<lambda>k. case k of
     Std_set _ \<Rightarrow> True | Std_unordered_set _ \<Rightarrow> True
   | Std_multiset _ \<Rightarrow> True | Std_unordered_multiset _ \<Rightarrow> True | _ \<Rightarrow> False)"

definition is_std_shared_ptr :: "sty \<Rightarrow> bool" where
  "is_std_shared_ptr = is_instance (\<lambda>k. case k of Std_shared_ptr \<Rightarrow> True | _ \<Rightarrow> False)"

definition is_tuple :: "sty \<Rightarrow> bool" where
  "is_tuple = is_instance (\<lambda>k. case k of Std_tuple \<Rightarrow> True | _ \<Rightarrow> False)"

definition is_std_ignore :: "sty \<Rightarrow> bool" where
  "is_std_ignore T = (T = TIgnore)"

definition is_std_unique_ptr :: "sty \<Rightarrow> bool" where
  "is_std_unique_ptr = is_instance (\<lambda>k. case k of Std_unique_ptr \<Rightarrow> True | _ \<Rightarrow> False)"

section \<open>The overloads\<close>

text \<open>
  The two macros of \<open>type_raw.hpp\<close> and the uses of them: how many bytes, or which of \<open>auto_intmax\<close>
  (\<open>True\<close>) and \<open>auto_uintmax\<close>.
\<close>

datatype raw_type = Define_raw_type nat | Define_raw_type_auto_size bool

definition raw_type_of :: "fund \<Rightarrow> raw_type option" where
  "raw_type_of a =
     (case a of
        C_bool \<Rightarrow> Some (Define_raw_type 1)
      | C_char \<Rightarrow> Some (Define_raw_type 1)
      | C_schar \<Rightarrow> Some (Define_raw_type 1)
      | C_uchar \<Rightarrow> Some (Define_raw_type 1)
      | C_short \<Rightarrow> Some (Define_raw_type 2)
      | C_ushort \<Rightarrow> Some (Define_raw_type 2)
      | C_int \<Rightarrow> Some (Define_raw_type_auto_size True)
      | C_uint \<Rightarrow> Some (Define_raw_type_auto_size False)
      | C_long \<Rightarrow> Some (Define_raw_type_auto_size True)
      | C_ulong \<Rightarrow> Some (Define_raw_type_auto_size False)
      | C_llong \<Rightarrow> Some (Define_raw_type_auto_size True)
      | C_ullong \<Rightarrow> Some (Define_raw_type_auto_size False)
      | C_float \<Rightarrow> Some (Define_raw_type 4)
      | C_double \<Rightarrow> Some (Define_raw_type 8)
      | C_ldouble \<Rightarrow> Some (Define_raw_type 16)
      | _ \<Rightarrow> None)"

datatype overload =
  Raw_overload | Auto_size_overload | Binary_wrap_overload | Array_overload | String_overload
  | Bitset_overload | Duration_overload | Time_point_overload | Complex_overload | Adaptor_overload
  | Forward_list_overload | List_like_overload | Map_overload | Pair_overload | Set_overload
  | Shared_ptr_overload | Tuple_overload | Unique_ptr_overload | Enum_overload | Pointer_overload
  | Struct_overload | Void_overload

text \<open>
  The order in which \<open>serialize.hpp\<close> includes them. Those of \<open>type_raw.hpp\<close> and
  \<open>RPC_CORE_DEFINE_TYPE\<close> are plain functions for one type each; \<open>operator<<\<close> binds its target by a
  reference that is not const, so for it no conversion brings another type to them.
\<close>

definition overloads :: "overload list" where
  "overloads =
     [Auto_size_overload, Raw_overload, Binary_wrap_overload, Array_overload, String_overload,
      Bitset_overload, Duration_overload, Time_point_overload, Complex_overload, Adaptor_overload,
      Forward_list_overload, List_like_overload, Map_overload, Pair_overload, Set_overload,
      Shared_ptr_overload, Tuple_overload, Unique_ptr_overload, Enum_overload, Pointer_overload,
      Struct_overload, Void_overload]"

definition enabled :: "overload \<Rightarrow> sty \<Rightarrow> bool" where
  "enabled ov T =
     (case ov of
        Raw_overload \<Rightarrow> (case T of TFund a \<Rightarrow> raw_type_of a \<noteq> None | _ \<Rightarrow> False)
      | Auto_size_overload \<Rightarrow> is_auto_size_type T
      | Binary_wrap_overload \<Rightarrow> T = TBinaryWrap
      | Array_overload \<Rightarrow> is_std_array T
      | String_overload \<Rightarrow> is_std_basic_string T
      | Bitset_overload \<Rightarrow> is_std_bitset T
      | Duration_overload \<Rightarrow> is_std_chrono_duration T
      | Time_point_overload \<Rightarrow> is_std_chrono_time_point T
      | Complex_overload \<Rightarrow> is_std_complex T
      | Adaptor_overload \<Rightarrow> is_std_stack T
      | Forward_list_overload \<Rightarrow> is_std_forward_list T
      | List_like_overload \<Rightarrow> is_std_list_like T
      | Map_overload \<Rightarrow> is_std_map_like T
      | Pair_overload \<Rightarrow> is_std_pair T
      | Set_overload \<Rightarrow> is_std_set_like T
      | Shared_ptr_overload \<Rightarrow> is_std_shared_ptr T
      | Tuple_overload \<Rightarrow> is_tuple T
      | Unique_ptr_overload \<Rightarrow> is_std_unique_ptr T
      | Enum_overload \<Rightarrow> (case T of TEnum _ _ \<Rightarrow> True | _ \<Rightarrow> False)
      | Pointer_overload \<Rightarrow> T = TPtr
      | Struct_overload \<Rightarrow> (case T of TStruct _ \<Rightarrow> True | _ \<Rightarrow> False)
      | Void_overload \<Rightarrow> T = TVoid)"

definition candidates :: "sty \<Rightarrow> overload list" where
  "candidates T = filter (\<lambda>ov. enabled ov T) overloads"

section \<open>Values\<close>

text \<open>
  Values of all types: a truth value, an object representation, an integer, text, bits, the elements
  of a container in iteration order, the parts of a tuple, pair, complex number or structure, a
  pointer that owns a value or is null, and the one value of \<open>std::ignore\<close>.
\<close>

datatype val =
  V_bool bool | V_raw bytes | V_int int | V_str bytes | V_bits "bool list"
  | V_seq "val list" | V_tup "val list" | V_opt "val option" | V_unit

fun un_bool :: "val \<Rightarrow> bool" where "un_bool (V_bool b) = b" | "un_bool _ = False"
fun un_raw :: "val \<Rightarrow> bytes" where "un_raw (V_raw b) = b" | "un_raw _ = []"
fun un_int :: "val \<Rightarrow> int" where "un_int (V_int i) = i" | "un_int _ = 0"
fun un_str :: "val \<Rightarrow> bytes" where "un_str (V_str b) = b" | "un_str _ = []"
fun un_bits :: "val \<Rightarrow> bool list" where "un_bits (V_bits b) = b" | "un_bits _ = []"
fun un_seq :: "val \<Rightarrow> val list" where "un_seq (V_seq vs) = vs" | "un_seq _ = []"
fun un_tup :: "val \<Rightarrow> val list" where "un_tup (V_tup vs) = vs" | "un_tup _ = []"
fun un_opt :: "val \<Rightarrow> val option" where "un_opt (V_opt v) = v" | "un_opt _ = None"

text \<open>A codec for values of a type, from the codec of the representation used for the type so far.\<close>

definition via :: "('v \<Rightarrow> 'a) \<Rightarrow> ('a \<Rightarrow> 'v) \<Rightarrow> 'a codec \<Rightarrow> 'v codec" where
  "via proj mk c =
     \<lparr>is_fund = is_fund c,
      wr = (\<lambda>v. wr c (proj v)),
      rd = (\<lambda>v ia. bindr (rd c (proj v) ia) (\<lambda>(t, ia'). Inr (mk t, ia'))),
      dflt = mk (dflt c)\<rparr>"

definition un_pair :: "val \<Rightarrow> val \<times> val" where
  "un_pair v = (case un_tup v of [a, b] \<Rightarrow> (a, b) | _ \<Rightarrow> (V_unit, V_unit))"

definition mk_pair :: "val \<times> val \<Rightarrow> val" where
  "mk_pair = (\<lambda>(a, b). V_tup [a, b])"

section \<open>Instantiating the templates\<close>

definition bool_val_codec :: "val codec" where
  "bool_val_codec = via un_bool V_bool bool_codec"

definition raw_val_codec :: "fund \<Rightarrow> raw_type \<Rightarrow> val codec" where
  "raw_val_codec a r =
     (case r of
        Define_raw_type n \<Rightarrow>
          if a = C_bool then bool_val_codec else via un_raw V_raw (raw_codec (size_of a) n)
      | Define_raw_type_auto_size sg \<Rightarrow> via un_int V_int (int_codec sg (8 * size_of a)))"

text \<open>A member of type \<open>auto_size_type\<close>; it is a class, not a fundamental type.\<close>

definition auto_codec :: "bool \<Rightarrow> int codec" where
  "auto_codec sg = (int_codec sg 64)\<lparr>is_fund := False\<rparr>"

text \<open>
  A tuple by its last element and the reversed list of those before it, each with the answer of
  \<open>is_std_ignore\<close>. \<open>std::ignore\<close> has no overloads; its codec here is never called.
\<close>

definition ignore_codec :: "val codec" where
  "ignore_codec = \<lparr>is_fund = False, wr = (\<lambda>_ oa. Inr oa), rd = (\<lambda>v ia. Inr (v, ia)), dflt = V_unit\<rparr>"

definition split_last :: "val \<Rightarrow> val \<times> val" where
  "split_last v = (V_tup (butlast (un_tup v)), last (un_tup v))"

definition join_last :: "val \<times> val \<Rightarrow> val" where
  "join_last = (\<lambda>(t, v). V_tup (un_tup t @ [v]))"

fun tuple_val_codec :: "bool \<times> val codec \<Rightarrow> (bool \<times> val codec) list \<Rightarrow> val codec" where
  "tuple_val_codec (ign, c) [] = via (\<lambda>v. hd (un_tup v)) (\<lambda>v. V_tup [v]) (tuple_one ign c)"
| "tuple_val_codec (ign, c) (e # es) =
     via split_last join_last (tuple_snoc (tuple_val_codec e es) ign c)"

definition tuple_element :: "sty \<Rightarrow> val codec option \<Rightarrow> (bool \<times> val codec) option" where
  "tuple_element T oc = (if is_std_ignore T then Some (True, ignore_codec) else map_option (Pair False) oc)"

text \<open>The field at position \<open>i\<close>, and the class of fields with these codecs.\<close>

definition nth_field :: "nat \<Rightarrow> val codec \<Rightarrow> val field" where
  "nth_field i c = serialize_field (\<lambda>v. un_tup v ! i) (\<lambda>x v. V_tup ((un_tup v)[i := x])) c"

fun nth_fields :: "nat \<Rightarrow> val codec list \<Rightarrow> val field list" where
  "nth_fields i [] = []"
| "nth_fields i (c # cs) = nth_field i c # nth_fields (Suc i) cs"

definition struct_val_codec :: "val codec list \<Rightarrow> val codec" where
  "struct_val_codec cs = define_type (V_tup (map dflt cs)) (nth_fields 0 cs)"

text \<open>Extents, the width of the count of a duration, and the order of sets and maps.\<close>

definition extent :: "sty \<Rightarrow> nat" where
  "extent T = (case T of TInst (Std_array n) _ \<Rightarrow> n | TInst (Std_bitset n) _ \<Rightarrow> n | _ \<Rightarrow> 0)"

definition rep_width :: "sty list \<Rightarrow> nat option" where
  "rep_width Ts =
     (case Ts of
        [TFund a] \<Rightarrow> if raw_type_of a = Some (Define_raw_type_auto_size True) then Some (8 * size_of a) else None
      | _ \<Rightarrow> None)"

definition key_order :: "sty \<Rightarrow> container_kind \<times> nat" where
  "key_order T =
     (case T of
        TInst k _ \<Rightarrow>
          (case k of
             Std_set n \<Rightarrow> (Ordered, n) | Std_unordered_set n \<Rightarrow> (Unordered, n)
           | Std_multiset n \<Rightarrow> (MultiOrdered, n) | Std_unordered_multiset n \<Rightarrow> (MultiUnordered, n)
           | Std_map n \<Rightarrow> (Ordered, n) | Std_unordered_map n \<Rightarrow> (Unordered, n)
           | Std_multimap n \<Rightarrow> (MultiOrdered, n) | Std_unordered_multimap n \<Rightarrow> (MultiUnordered, n)
           | _ \<Rightarrow> (MultiUnordered, 0))
      | _ \<Rightarrow> (MultiUnordered, 0))"

definition chars_size :: "sty list \<Rightarrow> nat option" where
  "chars_size Ts =
     (case Ts of
        [TFund a] \<Rightarrow> if a \<in> {C_char, C_wchar, C_char16, C_char32} then Some (size_of a) else None
      | _ \<Rightarrow> None)"

definition time_point_width :: "sty list \<Rightarrow> nat option" where
  "time_point_width Ts = (case Ts of [TInst Std_duration Us] \<Rightarrow> rep_width Us | _ \<Rightarrow> None)"

text \<open>
  The types among the arguments of \<open>T\<close> whose own overloads the template calls, with their codecs.
  The writer of \<open>std::vector<bool>\<close> does not compile, its elements are no lvalues; neither do those
  of an empty tuple and of a structure without fields; the macro chain ends at 63 fields. Durations
  count in a signed integer type, and complex numbers have a fundamental type.
\<close>

definition overload_codec ::
  "(nat \<Rightarrow> val comparison) \<Rightarrow> overload \<Rightarrow> sty \<Rightarrow> sty list \<Rightarrow> val codec option list \<Rightarrow> val codec option" where
  "overload_codec cmps ov T Ts cs =
     (let kind = fst (key_order T); cmp = cmps (snd (key_order T));
          one = (\<lambda>f. case cs of [Some c] \<Rightarrow> Some (f c) | _ \<Rightarrow> None);
          two = (\<lambda>f. case cs of [Some c, Some d] \<Rightarrow> Some (f c d) | _ \<Rightarrow> None);
          sequence = via un_seq V_seq
      in case ov of
        Raw_overload \<Rightarrow>
          (case T of TFund a \<Rightarrow> map_option (raw_val_codec a) (raw_type_of a) | _ \<Rightarrow> None)
      | Auto_size_overload \<Rightarrow>
          (case T of TAutoSize sg \<Rightarrow> Some (via un_int V_int (auto_codec sg)) | _ \<Rightarrow> None)
      | Binary_wrap_overload \<Rightarrow> Some (via un_str V_str binary_wrap_codec)
      | Array_overload \<Rightarrow> one (\<lambda>c. sequence (array_codec (extent T) c))
      | String_overload \<Rightarrow> map_option (\<lambda>n. via un_str V_str (string_codec n)) (chars_size Ts)
      | Bitset_overload \<Rightarrow> Some (via un_bits V_bits (bitset_codec (extent T)))
      | Duration_overload \<Rightarrow> map_option (\<lambda>w. via un_int V_int (duration_codec w)) (rep_width Ts)
      | Time_point_overload \<Rightarrow>
          map_option (\<lambda>w. via un_int V_int (time_point_codec w)) (time_point_width Ts)
      | Complex_overload \<Rightarrow>
          (case cs of
             [Some c] \<Rightarrow> if is_fund c then Some (via un_pair mk_pair (complex_codec c)) else None
           | _ \<Rightarrow> None)
      | Adaptor_overload \<Rightarrow>
          (case Ts of
             [C] \<Rightarrow> if is_std_list_like C then one adaptor_codec else None
           | _ \<Rightarrow> None)
      | Forward_list_overload \<Rightarrow> one (\<lambda>c. sequence (forward_list_codec c))
      | List_like_overload \<Rightarrow>
          if T = TInst Std_vector [TFund C_bool] then None else one (\<lambda>c. sequence (list_like_codec c))
      | Map_overload \<Rightarrow>
          two (\<lambda>ck cv. via (\<lambda>v. map un_pair (un_seq v)) (\<lambda>m. V_seq (map mk_pair m))
                  (map_codec kind cmp ck cv))
      | Pair_overload \<Rightarrow> two (\<lambda>c d. via un_pair mk_pair (pair_codec c d))
      | Set_overload \<Rightarrow> one (\<lambda>c. sequence (set_codec kind cmp c))
      | Shared_ptr_overload \<Rightarrow> one (\<lambda>c. via un_opt V_opt (shared_ptr_codec c))
      | Tuple_overload \<Rightarrow>
          (case those (map2 tuple_element Ts cs) of
             Some es \<Rightarrow> (case rev es of [] \<Rightarrow> None | e # es' \<Rightarrow> Some (tuple_val_codec e es'))
           | None \<Rightarrow> None)
      | Unique_ptr_overload \<Rightarrow> one (\<lambda>c. via un_opt V_opt (unique_ptr_codec c))
      | Enum_overload \<Rightarrow>
          (case T of
             TEnum sg w \<Rightarrow>
               if w \<in> {8, 16, 32, 64} then Some (via un_int V_int (enum_codec sg w)) else None
           | _ \<Rightarrow> None)
      | Pointer_overload \<Rightarrow> Some (via un_int V_int pointer_codec)
      | Struct_overload \<Rightarrow>
          (case those cs of
             Some cs' \<Rightarrow> if cs' \<noteq> [] \<and> length cs' \<le> 63 then Some (struct_val_codec cs') else None
           | None \<Rightarrow> None)
      | Void_overload \<Rightarrow> None)"

text \<open>Two overloads that apply are an ambiguity, none is an error. No object has type \<open>void\<close>.\<close>

definition select_overload ::
  "(nat \<Rightarrow> val comparison) \<Rightarrow> sty \<Rightarrow> sty list \<Rightarrow> val codec option list \<Rightarrow> val codec option" where
  "select_overload cmps T Ts cs =
     (case candidates T of [ov] \<Rightarrow> overload_codec cmps ov T Ts cs | _ \<Rightarrow> None)"

primrec codec_of :: "(nat \<Rightarrow> val comparison) \<Rightarrow> sty \<Rightarrow> val codec option" where
  "codec_of cmps (TFund a) = select_overload cmps (TFund a) [] []"
| "codec_of cmps TVoid = select_overload cmps TVoid [] []"
| "codec_of cmps (TEnum sg w) = select_overload cmps (TEnum sg w) [] []"
| "codec_of cmps TPtr = select_overload cmps TPtr [] []"
| "codec_of cmps TBinaryWrap = select_overload cmps TBinaryWrap [] []"
| "codec_of cmps (TAutoSize sg) = select_overload cmps (TAutoSize sg) [] []"
| "codec_of cmps TIgnore = select_overload cmps TIgnore [] []"
| "codec_of cmps TClass = select_overload cmps TClass [] []"
| "codec_of cmps (TInst k Ts) = select_overload cmps (TInst k Ts) Ts (map (codec_of cmps) Ts)"
| "codec_of cmps (TStruct Ts) = select_overload cmps (TStruct Ts) Ts (map (codec_of cmps) Ts)"

end
