(* ===== verification/Typed.thy ===== *)
theory Typed
  imports Overloads
begin

text \<open>
  The codec laws by induction on C++ types: which values belong to a type, that one overload is
  enabled for it, and that the codec the overload is instantiated to keeps the promise of the locale
  \<open>codec\<close> on all well-typed values.
\<close>

section \<open>Well-typed values\<close>

text \<open>
  With \<open>s\<close> true only the values a writer accepts: \<open>-2^63\<close> is beyond the signed encoder, and no size
  needs more than 64 bits.
\<close>

definition int_val :: "bool \<Rightarrow> bool \<Rightarrow> nat \<Rightarrow> int \<Rightarrow> bool" where
  "int_val s sg w i = (int_range sg w i \<and> (s \<longrightarrow> \<not> (sg \<and> i = - (2 ^ 63))))"

definition on_int :: "(int \<Rightarrow> bool) \<Rightarrow> val \<Rightarrow> bool" where
  "on_int P v = (case v of V_int i \<Rightarrow> P i | _ \<Rightarrow> False)"

definition on_str :: "(bytes \<Rightarrow> bool) \<Rightarrow> val \<Rightarrow> bool" where
  "on_str P v = (case v of V_str b \<Rightarrow> P b | _ \<Rightarrow> False)"

definition on_tup :: "(val list \<Rightarrow> bool) \<Rightarrow> val \<Rightarrow> bool" where
  "on_tup P v = (case v of V_tup vs \<Rightarrow> P vs | _ \<Rightarrow> False)"

definition on_seq :: "bool \<Rightarrow> (val \<Rightarrow> bool) \<Rightarrow> (val list \<Rightarrow> bool) \<Rightarrow> val \<Rightarrow> bool" where
  "on_seq s P Q v =
     (case v of V_seq vs \<Rightarrow> list_all P vs \<and> (s \<longrightarrow> length vs < 2 ^ 64) \<and> Q vs | _ \<Rightarrow> False)"

definition typed_fund :: "bool \<Rightarrow> fund \<Rightarrow> val \<Rightarrow> bool" where
  "typed_fund s a v =
     (case raw_type_of a of
        Some (Define_raw_type _) \<Rightarrow>
          (case v of
             V_bool _ \<Rightarrow> a = C_bool
           | V_raw b \<Rightarrow> a \<noteq> C_bool \<and> length b = size_of a
           | _ \<Rightarrow> False)
      | Some (Define_raw_type_auto_size sg) \<Rightarrow> on_int (int_val s sg (8 * size_of a)) v
      | None \<Rightarrow> False)"

definition typed_inst ::
  "bool \<Rightarrow> (nat \<Rightarrow> val comparison) \<Rightarrow> tmpl \<Rightarrow> sty list \<Rightarrow> (val \<Rightarrow> bool) list \<Rightarrow> val \<Rightarrow> bool" where
  "typed_inst s cmps k Ts Ps v =
     (let T = TInst k Ts; kind = fst (key_order T); cmp = cmps (snd (key_order T));
          elems = (\<lambda>Q. case Ps of [P] \<Rightarrow> on_seq s P Q v | _ \<Rightarrow> False);
          entries = (case Ps of
             [P, P'] \<Rightarrow> on_seq s (on_tup (\<lambda>es. list_all2 (\<lambda>R. R) [P, P'] es))
                          (\<lambda>vs. well_ordered kind cmp fst (map un_pair vs)) v
           | _ \<Rightarrow> False);
          parts = (\<lambda>n. length Ps = n \<and> on_tup (\<lambda>vs. list_all2 (\<lambda>R. R) Ps vs) v);
          owned = (case (Ps, v) of ([P], V_opt x) \<Rightarrow> pred_option P x | _ \<Rightarrow> False);
          count = (\<lambda>w. case w of Some n \<Rightarrow> on_int (int_val s True n) v | None \<Rightarrow> False)
      in case k of
        Std_array n \<Rightarrow> elems (\<lambda>vs. length vs = n)
      | Std_basic_string \<Rightarrow>
          (case chars_size Ts of Some n \<Rightarrow> on_str (\<lambda>b. n dvd length b) v | None \<Rightarrow> False)
      | Std_bitset n \<Rightarrow> (case v of V_bits b \<Rightarrow> length b = n | _ \<Rightarrow> False)
      | Std_duration \<Rightarrow> count (rep_width Ts)
      | Std_time_point \<Rightarrow> count (time_point_width Ts)
      | Std_complex \<Rightarrow>
          (case Ps of [P] \<Rightarrow> on_tup (\<lambda>vs. list_all2 (\<lambda>R. R) [P, P] vs) v | _ \<Rightarrow> False)
      | Std_stack \<Rightarrow> (case Ps of [P] \<Rightarrow> P v | _ \<Rightarrow> False)
      | Std_queue \<Rightarrow> (case Ps of [P] \<Rightarrow> P v | _ \<Rightarrow> False)
      | Std_priority_queue \<Rightarrow> (case Ps of [P] \<Rightarrow> P v | _ \<Rightarrow> False)
      | Std_forward_list \<Rightarrow> elems (\<lambda>_. True)
      | Std_vector \<Rightarrow> elems (\<lambda>_. True)
      | Std_list \<Rightarrow> elems (\<lambda>_. True)
      | Std_deque \<Rightarrow> elems (\<lambda>_. True)
      | Std_map _ \<Rightarrow> entries
      | Std_unordered_map _ \<Rightarrow> entries
      | Std_multimap _ \<Rightarrow> entries
      | Std_unordered_multimap _ \<Rightarrow> entries
      | Std_pair \<Rightarrow> parts 2
      | Std_set _ \<Rightarrow> elems (well_ordered kind cmp (\<lambda>x. x))
      | Std_unordered_set _ \<Rightarrow> elems (well_ordered kind cmp (\<lambda>x. x))
      | Std_multiset _ \<Rightarrow> elems (well_ordered kind cmp (\<lambda>x. x))
      | Std_unordered_multiset _ \<Rightarrow> elems (well_ordered kind cmp (\<lambda>x. x))
      | Std_shared_ptr \<Rightarrow> owned
      | Std_tuple \<Rightarrow> parts (length Ts)
      | Std_unique_ptr \<Rightarrow> owned)"

primrec typed :: "bool \<Rightarrow> (nat \<Rightarrow> val comparison) \<Rightarrow> sty \<Rightarrow> val \<Rightarrow> bool" where
  "typed s cmps (TFund a) v = typed_fund s a v"
| "typed s cmps TVoid v = False"
| "typed s cmps (TEnum sg w) v = on_int (int_range sg w) v"
| "typed s cmps TPtr v = on_int (int_val s True 64) v"
| "typed s cmps TBinaryWrap v = on_str (\<lambda>b. s \<longrightarrow> length b < 2 ^ 64) v"
| "typed s cmps (TAutoSize sg) v = on_int (int_val s sg 64) v"
| "typed s cmps TIgnore v = (v = V_unit)"
| "typed s cmps TClass v = False"
| "typed s cmps (TInst k Ts) v = typed_inst s cmps k Ts (map (typed s cmps) Ts) v"
| "typed s cmps (TStruct Ts) v = on_tup (\<lambda>vs. list_all2 (\<lambda>R. R) (map (typed s cmps) Ts) vs) v"

lemma int_val_strict: "int_val True = auto_ok"
  by (intro ext) (simp add: int_val_def auto_ok_def)

lemma on_int_iff: "on_int P v \<longleftrightarrow> (\<exists>i. v = V_int i \<and> P i)"
  by (cases v) (simp_all add: on_int_def)

lemma on_str_iff: "on_str P v \<longleftrightarrow> (\<exists>b. v = V_str b \<and> P b)"
  by (cases v) (simp_all add: on_str_def)

lemma on_tup_iff: "on_tup P v \<longleftrightarrow> (\<exists>vs. v = V_tup vs \<and> P vs)"
  by (cases v) (simp_all add: on_tup_def)

lemma on_seq_iff:
  "on_seq s P Q v \<longleftrightarrow> (\<exists>vs. v = V_seq vs \<and> list_all P vs \<and> (s \<longrightarrow> length vs < 2 ^ 64) \<and> Q vs)"
  by (cases v) (simp_all add: on_seq_def)

text \<open>What a writer accepts is in particular a value of the type.\<close>

lemma on_seq_mono:
  "on_seq True P Q v \<Longrightarrow> (\<And>x. P x \<Longrightarrow> P' x) \<Longrightarrow> (\<And>vs. Q vs \<Longrightarrow> Q' vs) \<Longrightarrow> on_seq False P' Q' v"
  by (auto simp: on_seq_iff list_all_iff)

lemma typed_inst_mono:
  assumes "list_all2 (\<lambda>P P'. \<forall>v. P v \<longrightarrow> P' v) Ps Ps'" "typed_inst True cmps k Ts Ps v"
  shows "typed_inst False cmps k Ts Ps' v"
proof -
  have parts: "list_all2 (\<lambda>R. R) Ps' vs" if "list_all2 (\<lambda>R. R) Ps vs" for vs
    using assms(1) that by (auto simp: list_all2_conv_all_nth)
  have len: "length Ps' = length Ps" using assms(1) by (simp add: list_all2_lengthD)
  have entry: "on_tup (list_all2 (\<lambda>R. R) [P', Q']) e"
    if "on_tup (list_all2 (\<lambda>R. R) [P, Q]) e" "\<forall>v. P v \<longrightarrow> P' v" "\<forall>v. Q v \<longrightarrow> Q' v" for P Q P' Q' e
    using that by (auto simp: on_tup_def list_all2_Cons1 split: val.splits)
  have weak: "list_all P' vs" if "list_all P vs" "\<forall>v. P v \<longrightarrow> P' v" for P P' and vs :: "val list"
    using that by (simp add: list_all_iff)
  note defs = typed_inst_def Let_def
  show ?thesis
    by (cases k)
      (use assms len in \<open>auto simp: defs on_seq_def on_tup_def on_int_def on_str_def int_val_def
        list_all2_Cons1 list_all2_Cons2 intro: parts weak entry option.pred_mono_strong
        split: list.splits val.splits option.splits\<close>)
qed

lemmas on_iff = on_int_iff on_str_iff on_tup_iff on_seq_iff

lemma typed_weaken: "typed True cmps T v \<Longrightarrow> typed False cmps T v"
proof (induction T arbitrary: v)
  case (TInst k Ts)
  have "list_all2 (\<lambda>P P'. \<forall>v. P v \<longrightarrow> P' v) (map (typed True cmps) Ts) (map (typed False cmps) Ts)"
    using TInst.IH by (auto simp: list_all2_conv_all_nth)
  from typed_inst_mono [OF this] TInst.prems show ?case by simp
next
  case (TStruct Ts)
  then show ?case by (auto simp: on_tup_iff list_all2_conv_all_nth)
qed (auto simp: typed_fund_def on_int_iff on_str_iff int_val_def split: option.splits raw_type.splits val.splits)

section \<open>One overload for every type\<close>

text \<open>The overload for a template, whatever its arguments.\<close>

definition overload_of :: "tmpl \<Rightarrow> overload" where
  "overload_of k =
     (case k of
        Std_array _ \<Rightarrow> Array_overload | Std_basic_string \<Rightarrow> String_overload
      | Std_bitset _ \<Rightarrow> Bitset_overload | Std_duration \<Rightarrow> Duration_overload
      | Std_time_point \<Rightarrow> Time_point_overload | Std_complex \<Rightarrow> Complex_overload
      | Std_stack \<Rightarrow> Adaptor_overload | Std_queue \<Rightarrow> Adaptor_overload
      | Std_priority_queue \<Rightarrow> Adaptor_overload | Std_forward_list \<Rightarrow> Forward_list_overload
      | Std_vector \<Rightarrow> List_like_overload | Std_list \<Rightarrow> List_like_overload
      | Std_deque \<Rightarrow> List_like_overload | Std_map _ \<Rightarrow> Map_overload
      | Std_unordered_map _ \<Rightarrow> Map_overload | Std_multimap _ \<Rightarrow> Map_overload
      | Std_unordered_multimap _ \<Rightarrow> Map_overload | Std_pair \<Rightarrow> Pair_overload
      | Std_set _ \<Rightarrow> Set_overload | Std_unordered_set _ \<Rightarrow> Set_overload
      | Std_multiset _ \<Rightarrow> Set_overload | Std_unordered_multiset _ \<Rightarrow> Set_overload
      | Std_shared_ptr \<Rightarrow> Shared_ptr_overload | Std_tuple \<Rightarrow> Tuple_overload
      | Std_unique_ptr \<Rightarrow> Unique_ptr_overload)"

lemmas trait_defs =
  is_instance_def is_auto_size_type_def is_std_array_def is_std_basic_string_def is_std_bitset_def
  is_std_chrono_duration_def is_std_chrono_time_point_def is_std_complex_def is_std_stack_def
  is_std_forward_list_def is_std_list_like_def is_std_map_like_def is_std_pair_def
  is_std_set_like_def is_std_shared_ptr_def is_tuple_def is_std_unique_ptr_def

lemmas candidates_defs = candidates_def overloads_def enabled_def trait_defs

lemma candidates_inst: "candidates (TInst k Ts) = [overload_of k]"
  by (cases k) (simp_all add: candidates_defs overload_of_def)

lemma candidates_simps:
  "candidates (TFund a) = (if raw_type_of a = None then [] else [Raw_overload])"
  "candidates TVoid = [Void_overload]"
  "candidates (TEnum sg w) = [Enum_overload]"
  "candidates TPtr = [Pointer_overload]"
  "candidates TBinaryWrap = [Binary_wrap_overload]"
  "candidates (TAutoSize sg) = [Auto_size_overload]"
  "candidates TIgnore = []"
  "candidates TClass = []"
  "candidates (TStruct Ts) = [Struct_overload]"
  by (simp_all add: candidates_defs)

lemmas codec_of_defs = select_overload_def candidates_simps candidates_inst overload_codec_def

section \<open>The codec laws, type by type\<close>

lemma codec_via:
  assumes "codec c ok" "\<And>v. okv v \<Longrightarrow> ok (proj v) \<and> mk (proj v) = v" "proj (mk (dflt c)) = dflt c"
  shows "codec (via proj mk c) okv"
proof
  fix v
  show "appends (wr (via proj mk c) v)"
    using codec.wr_appends [OF assms(1)] by (simp add: via_def)
next
  fix v assume "okv v"
  then show "\<exists>b. wr (via proj mk c) v [] = Inr b"
    using codec.wr_total [OF assms(1)] assms(2) by (simp add: via_def)
next
  fix v b rest
  assume "okv v" "wr (via proj mk c) v [] = Inr b" "length b < 2 ^ 64"
  then show "\<exists>ia'. rd (via proj mk c) (dflt (via proj mk c))
      \<lparr>ia_data = b @ rest, ia_size = of_nat (length b), ia_error = False\<rparr> = Inr (v, ia') \<and> \<not> ia_error ia'"
    using codec.rd_wr [OF assms(1), of "proj v" b rest] assms(2) [of v] by (auto simp: via_def assms(3))
next
  fix v b rest s e old
  assume "is_fund (via proj mk c)" "okv v" "wr (via proj mk c) v [] = Inr b"
  then show "rd (via proj mk c) old \<lparr>ia_data = b @ rest, ia_size = s, ia_error = e\<rparr> =
      Inr (v, \<lparr>ia_data = rest, ia_size = s - of_nat (length b), ia_error = e\<rparr>)"
    using codec.rd_wr_fund [OF assms(1), of "proj v" b "proj old" rest s e] assms(2) [of v]
    by (simp add: via_def)
qed

lemma seq_codec_via:
  assumes "seq_codec c ok" "\<And>v. okv v \<Longrightarrow> ok (proj v) \<and> mk (proj v) = v" "proj (mk (dflt c)) = dflt c"
  shows "seq_codec (via proj mk c) okv"
proof (intro seq_codec.intro seq_codec_axioms.intro)
  show "codec (via proj mk c) okv"
    by (rule codec_via [OF seq_codec.axioms(1) [OF assms(1)] assms(2,3)])
next
  fix v b rest s
  assume "okv v" "wr (via proj mk c) v [] = Inr b" "length b < 2 ^ 64"
  then show "rd (via proj mk c) (dflt (via proj mk c)) \<lparr>ia_data = b @ rest, ia_size = s, ia_error = False\<rparr> =
      Inr (v, \<lparr>ia_data = rest, ia_size = s - of_nat (length b), ia_error = False\<rparr>)"
    using seq_codec.rd_wr_seq [OF assms(1), of "proj v" b rest s] assms(2) [of v]
    by (auto simp: via_def assms(3))
qed

lemma codec_mono: "codec c ok \<Longrightarrow> (\<And>v. okv v \<Longrightarrow> ok v) \<Longrightarrow> codec c okv"
  by (simp add: codec_def)

lemma codec_auto: "codec (auto_codec sg) (auto_ok sg 64)"
  by (rule codec_autoI [of _ sg word_of_int "cast_int sg 64"])
    (auto simp: auto_codec_def int_codec_def cast_int_word_of_int dest: auto_ok_range auto_ok_not_min)

lemma codec_adaptor: "codec c ok \<Longrightarrow> codec (adaptor_codec c) ok"
  by unfold_locales (auto simp: adaptor_codec_def codec.wr_appends codec.wr_total codec.rd_wr)

text \<open>An element that is \<open>std::ignore\<close> takes no bytes.\<close>

lemma ignore_impl:
  "tuple_serialize_helper_impl (tuple_serialize_type_check (is_fund ignore_codec) True) ignore_codec v = Inr"
  by (rule ext) (simp add: tuple_serialize_helper_impl_def tuple_serialize_type_check_def ignore_codec_def)

lemma tuple_one_ignore: "seq_codec (tuple_one True ignore_codec) (\<lambda>v. v = V_unit)"
  by (rule seq_codecI)
    (auto simp: tuple_one_def tuple_serialize_helper_impl_def tuple_de_serialize_helper_impl_def
      tuple_serialize_type_check_def ignore_codec_def appends_def)

lemma tuple_snoc_ignore:
  fixes tc :: "'a codec"
  assumes "seq_codec tc okt"
  shows "seq_codec (tuple_snoc tc True ignore_codec) (\<lambda>(t, v). okt t \<and> v = V_unit)"
proof (rule seq_codecI)
  fix p :: "'a \<times> val"
  have "appends (wr tc (fst p))"
    by (rule codec.wr_appends [OF seq_codec.axioms(1) [OF assms]])
  then show "appends (wr (tuple_snoc tc True ignore_codec) p)"
    by (cases p) (simp add: tuple_snoc_def ignore_impl bindr_Inr)
next
  fix p :: "'a \<times> val"
  assume "case p of (t, v) \<Rightarrow> okt t \<and> v = V_unit"
  then show "\<exists>b. wr (tuple_snoc tc True ignore_codec) p [] = Inr b"
    using codec.wr_total [OF seq_codec.axioms(1) [OF assms], of "fst p"]
    by (auto simp: tuple_snoc_def ignore_impl bindr_Inr)
next
  fix p :: "'a \<times> val" and b rest s
  assume "case p of (t, v) \<Rightarrow> okt t \<and> v = V_unit" "wr (tuple_snoc tc True ignore_codec) p [] = Inr b"
    "length b < 2 ^ 64"
  then show "rd (tuple_snoc tc True ignore_codec) (dflt (tuple_snoc tc True ignore_codec))
      \<lparr>ia_data = b @ rest, ia_size = s, ia_error = False\<rparr> =
      Inr (p, \<lparr>ia_data = rest, ia_size = s - of_nat (length b), ia_error = False\<rparr>)"
    using seq_codec.rd_wr_seq [OF assms, of "fst p" b rest s]
    by (auto simp: tuple_snoc_def ignore_impl bindr_Inr)
      (simp add: tuple_de_serialize_helper_impl_def tuple_serialize_type_check_def ignore_codec_def)
qed (simp add: tuple_snoc_def)

text \<open>A tuple of elements that keep the promise, by the recursion of the template.\<close>

definition element_ok :: "bool \<times> val codec \<Rightarrow> (val \<Rightarrow> bool) \<Rightarrow> bool" where
  "element_ok e P =
     (if fst e then snd e = ignore_codec \<and> P = (\<lambda>v. v = V_unit) else codec (snd e) P)"

lemma element_tuple_one: "element_ok (ign, c) P \<Longrightarrow> seq_codec (tuple_one ign c) P"
  by (cases ign) (auto simp: element_ok_def tuple_one_ignore codec.tuple_one_seq)

lemma element_tuple_snoc:
  "element_ok (ign, c) P \<Longrightarrow> seq_codec tc okt \<Longrightarrow> seq_codec (tuple_snoc tc ign c) (\<lambda>(t, v). okt t \<and> P v)"
  by (cases ign) (auto simp: element_ok_def tuple_snoc_ignore codec.tuple_snoc_seq)

lemma tuple_val_dflt: "\<exists>vs. dflt (tuple_val_codec e es) = V_tup vs \<and> vs \<noteq> []"
  by (induction e es rule: tuple_val_codec.induct) (simp_all add: via_def join_last_def tuple_snoc_def)

lemma tuple_val_seq:
  "list_all2 element_ok (e # es) Ps \<Longrightarrow>
   seq_codec (tuple_val_codec e es) (on_tup (\<lambda>vs. list_all2 (\<lambda>P v. P v) (rev Ps) vs))"
proof (induction e es arbitrary: Ps rule: tuple_val_codec.induct)
  case (1 ign c)
  then obtain P where P: "Ps = [P]" "element_ok (ign, c) P" by (auto simp: list_all2_Cons1)
  show ?case
    unfolding tuple_val_codec.simps
    by (rule seq_codec_via [OF element_tuple_one [OF P(2)]])
      (auto simp: on_tup_iff P list_all2_Cons1)
next
  case (2 ign c e es)
  then obtain P Ps' where P: "Ps = P # Ps'" "element_ok (ign, c) P" "list_all2 element_ok (e # es) Ps'"
    by (auto simp: list_all2_Cons1)
  note IH = "2.IH" [OF P(3)]
  show ?case
    unfolding tuple_val_codec.simps
  proof (rule seq_codec_via [OF element_tuple_snoc [OF P(2) IH]])
    fix v
    assume "on_tup (list_all2 (\<lambda>P v. P v) (rev Ps)) v"
    then obtain us x where "v = V_tup (us @ [x])" "list_all2 (\<lambda>P v. P v) (rev Ps') us" "P x"
      by (auto simp: on_tup_iff P list_all2_append1 list_all2_Cons1)
    then show "(case split_last v of (t, v) \<Rightarrow> on_tup (list_all2 (\<lambda>P v. P v) (rev Ps')) t \<and> P v) \<and>
        join_last (split_last v) = v"
      by (simp add: split_last_def join_last_def on_tup_iff)
  next
    show "split_last (join_last (dflt (tuple_snoc (tuple_val_codec e es) ign c))) =
        dflt (tuple_snoc (tuple_val_codec e es) ign c)"
      using tuple_val_dflt [of e es] by (auto simp: split_last_def join_last_def tuple_snoc_def)
  qed
qed

text \<open>The fields of a structure, from the first that has not been read.\<close>

lemma nth_fields_append: "list_all2 codec cs Ps \<Longrightarrow> fields_append (nth_fields i cs)"
  by (induction cs Ps arbitrary: i rule: list_all2_induct)
    (simp_all add: nth_field_def codec.serialize_field_appends)

lemma nth_fields_copy:
  "list_all2 codec cs Ps \<Longrightarrow> list_all2 (\<lambda>P v. P v) Ps vs \<Longrightarrow> i = length us \<Longrightarrow>
   fields_copy (nth_fields i cs) (V_tup (us @ vs)) (V_tup (us @ map dflt cs))"
proof (induction cs Ps arbitrary: i us vs rule: list_all2_induct)
  case Nil
  then show ?case by simp
next
  case (Cons c cs P Ps)
  then obtain v vs' where v: "vs = v # vs'" "P v" "list_all2 (\<lambda>P v. P v) Ps vs'"
    by (auto simp: list_all2_Cons1)
  have "field_copies (nth_field i c) (V_tup (us @ vs)) (V_tup (us @ map dflt (c # cs)))
      (V_tup ((us @ [v]) @ map dflt cs))"
    using codec.serialize_field_copies [OF Cons.hyps(1), of "\<lambda>v. un_tup v ! i" "V_tup (us @ vs)"
        "V_tup (us @ map dflt (c # cs))" "\<lambda>x v. V_tup ((un_tup v)[i := x])"] Cons.prems v
    by (simp add: nth_field_def list_update_append nth_append)
  moreover have "fields_copy (nth_fields (Suc i) cs) (V_tup ((us @ [v]) @ vs')) (V_tup ((us @ [v]) @ map dflt cs))"
    by (rule Cons.IH) (use v Cons.prems in auto)
  ultimately show ?case unfolding nth_fields.simps fields_copy.simps using v by auto
qed

lemma struct_val:
  assumes "list_all2 codec cs Ps"
  shows "codec (struct_val_codec cs) (on_tup (\<lambda>vs. list_all2 (\<lambda>P v. P v) Ps vs))"
  unfolding struct_val_codec_def
  by (rule codec_mono [OF define_type_codec [OF nth_fields_append [OF assms]]])
    (use nth_fields_copy [OF assms, of _ 0 "[]"] in \<open>auto simp: on_tup_iff\<close>)

text \<open>The representations used by the scalars, sequences, pairs and pointers.\<close>

lemma via_int: "codec c (auto_ok sg w) \<Longrightarrow> codec (via un_int V_int c) (on_int (int_val True sg w))"
  by (erule codec_via) (auto simp: on_int_iff int_val_strict)

lemma via_seq:
  assumes "codec c (\<lambda>vs. list_all P vs \<and> length vs < 2 ^ 64 \<and> Q vs)"
  shows "codec (via un_seq V_seq c) (on_seq True P Q)"
  by (rule codec_via [OF assms]) (auto simp: on_seq_iff)

lemma via_opt:
  assumes "codec c (pred_option P)"
  shows "codec (via un_opt V_opt c) (\<lambda>v. case v of V_opt x \<Rightarrow> pred_option P x | _ \<Rightarrow> False)"
  by (rule codec_via [OF assms]) (auto split: val.splits)

lemma via_pair:
  assumes "codec c (\<lambda>(x, y). P x \<and> Q y)"
  shows "codec (via un_pair mk_pair c) (on_tup (\<lambda>vs. list_all2 (\<lambda>R. R) [P, Q] vs))"
  by (rule codec_via [OF assms])
    (auto simp: on_tup_iff list_all2_Cons1 un_pair_def mk_pair_def split: prod.splits)

lemma un_mk_pair [simp]: "un_pair (mk_pair p) = p"
  by (cases p) (simp add: un_pair_def mk_pair_def)

lemma via_map:
  assumes "codec c (\<lambda>t. list_all (\<lambda>(k, v). P k \<and> Q v) t \<and> length t < 2 ^ 64 \<and> W t)"
  shows "codec (via (\<lambda>v. map un_pair (un_seq v)) (\<lambda>m. V_seq (map mk_pair m)) c)
    (on_seq True (on_tup (\<lambda>es. list_all2 (\<lambda>R. R) [P, Q] es)) (\<lambda>vs. W (map un_pair vs)))"
proof (rule codec_via [OF assms])
  fix v
  assume "on_seq True (on_tup (\<lambda>es. list_all2 (\<lambda>R. R) [P, Q] es)) (\<lambda>vs. W (map un_pair vs)) v"
  then obtain vs where v: "v = V_seq vs" "length vs < 2 ^ 64" "W (map un_pair vs)"
    and es: "list_all (on_tup (\<lambda>es. list_all2 (\<lambda>R. R) [P, Q] es)) vs" by (auto simp: on_seq_iff)
  have e: "\<exists>a b. x = V_tup [a, b] \<and> P a \<and> Q b" if "x \<in> set vs" for x
    using es that by (auto simp: list_all_iff on_tup_iff list_all2_Cons1)
  have "map (\<lambda>x. mk_pair (un_pair x)) vs = vs"
    by (rule map_idI) (use e in \<open>fastforce simp: un_pair_def mk_pair_def\<close>)
  moreover have "list_all (\<lambda>(k, v). P k \<and> Q v) (map un_pair vs)"
    using e by (fastforce simp: list_all_iff un_pair_def)
  ultimately show "(list_all (\<lambda>(k, v). P k \<and> Q v) (map un_pair (un_seq v)) \<and>
      length (map un_pair (un_seq v)) < 2 ^ 64 \<and> W (map un_pair (un_seq v))) \<and>
      V_seq (map mk_pair (map un_pair (un_seq v))) = v"
    using v by (simp add: o_def)
qed (simp add: o_def)

lemma raw_val:
  assumes "raw_type_of a = Some r"
  shows "codec (raw_val_codec a r) (typed_fund True a)"
proof (cases r)
  case (Define_raw_type n)
  then have n: "n = size_of a" using assms by (cases a) (auto simp: raw_type_of_def size_of_def)
  have b: "codec (via un_bool V_bool bool_codec) (\<lambda>v. \<exists>b. v = V_bool b)"
    by (rule codec_via [OF bool.codec_axioms]) auto
  have c: "codec (via un_raw V_raw (raw_codec (size_of a) n)) (\<lambda>v. \<exists>b. v = V_raw b \<and> length b = size_of a)"
    unfolding n by (rule codec_via [OF raw.codec_axioms]) auto
  have "typed_fund True a v \<Longrightarrow> if a = C_bool then \<exists>b. v = V_bool b else \<exists>b. v = V_raw b \<and> length b = size_of a" for v
    using assms Define_raw_type by (auto simp: typed_fund_def split: val.splits)
  then show ?thesis
    using codec_mono [OF b] codec_mono [OF c] Define_raw_type
    by (simp add: raw_val_codec_def bool_val_codec_def split: if_splits)
next
  case (Define_raw_type_auto_size sg)
  then have "typed_fund True a = on_int (int_val True sg (8 * size_of a))"
    using assms by (intro ext) (simp add: typed_fund_def)
  with Define_raw_type_auto_size show ?thesis
    by (simp add: raw_val_codec_def via_int codec_int)
qed

text \<open>The tuples of a type, with \<open>std::ignore\<close> where the type has it.\<close>

lemma tuple_elements_ok:
  assumes "\<And>T c. T \<in> set Ts \<Longrightarrow> codec_of cmps T = Some c \<Longrightarrow> codec c (typed True cmps T)"
    and "those (map2 tuple_element Ts (map (codec_of cmps) Ts)) = Some es"
  shows "list_all2 element_ok es (map (typed True cmps) Ts)"
  using assms
proof (induction Ts arbitrary: es)
  case Nil
  then show ?case by simp
next
  case (Cons T Ts)
  from Cons.prems(2) obtain e es' where e: "tuple_element T (codec_of cmps T) = Some e"
    and es': "those (map2 tuple_element Ts (map (codec_of cmps) Ts)) = Some es'" "es = e # es'"
    by (auto split: option.splits)
  have "element_ok e (typed True cmps T)"
    using e Cons.prems(1) [of T]
    by (auto simp: tuple_element_def element_ok_def is_std_ignore_def split: if_splits)
  with Cons.IH [OF Cons.prems(1) es'(1)] es'(2) show ?case by simp
qed

lemma those_codecs_ok:
  assumes "\<And>T c. T \<in> set Ts \<Longrightarrow> codec_of cmps T = Some c \<Longrightarrow> codec c (typed True cmps T)"
    and "those (map (codec_of cmps) Ts) = Some cs"
  shows "list_all2 codec cs (map (typed True cmps) Ts)"
  using assms
proof (induction Ts arbitrary: cs)
  case Nil
  then show ?case by simp
next
  case (Cons T Ts)
  then show ?case by (auto split: option.splits)
qed

lemma one_iff:
  "(case map f Ts of [Some c] \<Rightarrow> Some (g c) | _ \<Rightarrow> None) = Some d \<longleftrightarrow>
     (\<exists>T c. Ts = [T] \<and> f T = Some c \<and> d = g c)"
  by (auto split: list.splits option.splits)

lemma two_iff:
  "(case map f Ts of [Some c, Some c'] \<Rightarrow> Some (g c c') | _ \<Rightarrow> None) = Some d \<longleftrightarrow>
     (\<exists>T U c c'. Ts = [T, U] \<and> f T = Some c \<and> f U = Some c' \<and> d = g c c')"
  by (auto split: list.splits option.splits)

lemma typed_inst_seq:
  "typed_inst s cmps (Std_array n) Ts [P] = on_seq s P (\<lambda>vs. length vs = n)"
  "typed_inst s cmps Std_forward_list Ts [P] = on_seq s P (\<lambda>_. True)"
  "typed_inst s cmps Std_vector Ts [P] = on_seq s P (\<lambda>_. True)"
  "typed_inst s cmps Std_list Ts [P] = on_seq s P (\<lambda>_. True)"
  "typed_inst s cmps Std_deque Ts [P] = on_seq s P (\<lambda>_. True)"
  "typed_inst s cmps Std_stack Ts [P] = P"
  "typed_inst s cmps Std_queue Ts [P] = P"
  "typed_inst s cmps Std_priority_queue Ts [P] = P"
  by (auto simp: typed_inst_def fun_eq_iff)

lemma typed_inst_parts:
  "typed_inst s cmps Std_pair Ts [P, Q] = on_tup (\<lambda>vs. list_all2 (\<lambda>R. R) [P, Q] vs)"
  "typed_inst s cmps Std_complex Ts [P] = on_tup (\<lambda>vs. list_all2 (\<lambda>R. R) [P, P] vs)"
  "length Ps = length Ts \<Longrightarrow> typed_inst s cmps Std_tuple Ts Ps = on_tup (\<lambda>vs. list_all2 (\<lambda>R. R) Ps vs)"
  by (auto simp: typed_inst_def fun_eq_iff)

lemma typed_inst_owned:
  "typed_inst s cmps Std_unique_ptr Ts [P] = (\<lambda>v. case v of V_opt x \<Rightarrow> pred_option P x | _ \<Rightarrow> False)"
  "typed_inst s cmps Std_shared_ptr Ts [P] = (\<lambda>v. case v of V_opt x \<Rightarrow> pred_option P x | _ \<Rightarrow> False)"
  by (auto simp: typed_inst_def fun_eq_iff)

lemma typed_inst_scalar:
  "chars_size Ts = Some n \<Longrightarrow> typed_inst s cmps Std_basic_string Ts Ps = on_str (\<lambda>b. n dvd length b)"
  "typed_inst s cmps (Std_bitset n) Ts Ps = (\<lambda>v. case v of V_bits b \<Rightarrow> length b = n | _ \<Rightarrow> False)"
  "rep_width Ts = Some n \<Longrightarrow> typed_inst s cmps Std_duration Ts Ps = on_int (int_val s True n)"
  "time_point_width Ts = Some n \<Longrightarrow> typed_inst s cmps Std_time_point Ts Ps = on_int (int_val s True n)"
  by (auto simp: typed_inst_def fun_eq_iff)

text \<open>The sets and maps, each with its order.\<close>

definition keyed :: "tmpl \<Rightarrow> overload \<Rightarrow> bool" where
  "keyed k ov = (overload_of k = ov \<and> (ov = Set_overload \<or> ov = Map_overload))"

lemma typed_inst_keyed:
  "keyed k Set_overload \<Longrightarrow> typed_inst s cmps k Ts [P] =
     on_seq s P (well_ordered (fst (key_order (TInst k Ts))) (cmps (snd (key_order (TInst k Ts)))) (\<lambda>x. x))"
  "keyed k Map_overload \<Longrightarrow> typed_inst s cmps k Ts [P, Q] =
     on_seq s (on_tup (\<lambda>es. list_all2 (\<lambda>R. R) [P, Q] es))
       (\<lambda>vs. well_ordered (fst (key_order (TInst k Ts))) (cmps (snd (key_order (TInst k Ts)))) fst (map un_pair vs))"
  by (cases k; simp add: keyed_def overload_of_def; rule ext; simp add: typed_inst_def key_order_def)+

lemmas typed_inst_eqs = typed_inst_seq typed_inst_parts typed_inst_owned typed_inst_scalar

text \<open>What the chosen overload is instantiated to, from the codecs of the arguments.\<close>

lemmas inst_defs = overload_of_def overload_codec_def Let_def extent_def keyed_def

lemma overload_of_inst:
  "overload_of k \<notin> {Raw_overload, Auto_size_overload, Binary_wrap_overload, Enum_overload,
     Pointer_overload, Struct_overload, Void_overload}"
  by (cases k) (simp_all add: overload_of_def)

lemma inst_cases [consumes 1, case_names sequence_like adaptor set map_like pair complex owned tuple scalar]:
  assumes "overload_codec cmps (overload_of k) (TInst k Ts) Ts (map f Ts) = Some c"
  obtains
    (sequence_like) T d g Q where "Ts = [T]" "f T = Some d" "c = via un_seq V_seq (g d)"
      "\<And>s P. typed_inst s cmps k Ts [P] = on_seq s P Q"
      "(\<exists>n. g = array_codec n \<and> Q = (\<lambda>vs. length vs = n)) \<or> g = forward_list_codec \<and> Q = (\<lambda>_. True) \<or>
       g = list_like_codec \<and> Q = (\<lambda>_. True)"
      "overload_of k \<in> {Array_overload, Forward_list_overload, List_like_overload}"
  | (adaptor) T d where "Ts = [T]" "f T = Some d" "is_std_list_like T" "c = adaptor_codec d"
      "\<And>s P. typed_inst s cmps k Ts [P] = P" "overload_of k = Adaptor_overload"
  | (set) T d kind n where "Ts = [T]" "f T = Some d" "c = via un_seq V_seq (set_codec kind (cmps n) d)"
      "\<And>s P. typed_inst s cmps k Ts [P] = on_seq s P (well_ordered kind (cmps n) (\<lambda>x. x))"
      "overload_of k = Set_overload"
  | (map_like) T U d e kind n where "Ts = [T, U]" "f T = Some d" "f U = Some e"
      "c = via (\<lambda>v. map un_pair (un_seq v)) (\<lambda>m. V_seq (map mk_pair m)) (map_codec kind (cmps n) d e)"
      "\<And>s P Q. typed_inst s cmps k Ts [P, Q] = on_seq s (on_tup (\<lambda>es. list_all2 (\<lambda>R. R) [P, Q] es))
         (\<lambda>vs. well_ordered kind (cmps n) fst (map un_pair vs))"
      "overload_of k = Map_overload"
  | (pair) T U d e where "Ts = [T, U]" "f T = Some d" "f U = Some e"
      "c = via un_pair mk_pair (pair_codec d e)"
      "\<And>s P Q. typed_inst s cmps k Ts [P, Q] = on_tup (\<lambda>vs. list_all2 (\<lambda>R. R) [P, Q] vs)"
      "overload_of k = Pair_overload"
  | (complex) T d where "Ts = [T]" "f T = Some d" "is_fund d" "c = via un_pair mk_pair (complex_codec d)"
      "\<And>s P. typed_inst s cmps k Ts [P] = on_tup (\<lambda>vs. list_all2 (\<lambda>R. R) [P, P] vs)"
      "overload_of k = Complex_overload"
  | (owned) T d where "Ts = [T]" "f T = Some d" "c = via un_opt V_opt (unique_ptr_codec d)"
      "\<And>s P. typed_inst s cmps k Ts [P] = (\<lambda>v. case v of V_opt x \<Rightarrow> pred_option P x | _ \<Rightarrow> False)"
      "overload_of k \<in> {Shared_ptr_overload, Unique_ptr_overload}"
  | (tuple) e es es' where "those (map2 tuple_element Ts (map f Ts)) = Some es'" "rev es' = e # es"
      "c = tuple_val_codec e es"
      "\<And>s Ps. length Ps = length Ts \<Longrightarrow> typed_inst s cmps k Ts Ps = on_tup (\<lambda>vs. list_all2 (\<lambda>R. R) Ps vs)"
      "overload_of k = Tuple_overload"
  | (scalar) "overload_of k \<in> {String_overload, Bitset_overload, Duration_overload, Time_point_overload}"
proof (cases "overload_of k")
  case Array_overload
  then obtain n where k: "k = Std_array n" by (cases k) (auto simp: overload_of_def)
  show ?thesis using assms by (auto simp: k inst_defs one_iff typed_inst_eqs intro: that(1))
next
  case Forward_list_overload
  then have k: "k = Std_forward_list" by (cases k) (auto simp: overload_of_def)
  show ?thesis using assms by (auto simp: k inst_defs one_iff typed_inst_eqs intro: that(1))
next
  case List_like_overload
  then have "k = Std_vector \<or> k = Std_list \<or> k = Std_deque" by (cases k) (auto simp: overload_of_def)
  moreover from this have "\<exists>T d. Ts = [T] \<and> f T = Some d \<and> c = via un_seq V_seq (list_like_codec d)"
    using assms by (elim disjE) (simp_all add: inst_defs one_iff split: if_splits)
  moreover from this obtain T d where "Ts = [T]" "f T = Some d" "c = via un_seq V_seq (list_like_codec d)"
    by blast
  ultimately show ?thesis
    by (intro that(1) [of T d list_like_codec "\<lambda>_. True"]) (auto simp: typed_inst_eqs overload_of_def)
next
  case Adaptor_overload
  then have k: "k = Std_stack \<or> k = Std_queue \<or> k = Std_priority_queue" by (cases k) (auto simp: overload_of_def)
  from assms Adaptor_overload have "\<exists>T d. Ts = [T] \<and> f T = Some d \<and> is_std_list_like T \<and> c = adaptor_codec d"
    by (cases Ts) (auto simp: overload_codec_def split: if_splits list.splits option.splits)
  with k show ?thesis by (elim disjE exE conjE) (auto simp: typed_inst_eqs overload_of_def intro: that(2))
next
  case Set_overload
  then have "keyed k Set_overload" by (simp add: keyed_def)
  note this [THEN typed_inst_keyed(1)]
  with Set_overload assms show ?thesis
    by (auto simp: overload_codec_def Let_def one_iff intro: that(3))
next
  case Map_overload
  then have "keyed k Map_overload" by (simp add: keyed_def)
  note this [THEN typed_inst_keyed(2)]
  with Map_overload assms show ?thesis
    by (auto simp: overload_codec_def Let_def two_iff intro: that(4))
next
  case Pair_overload
  then have k: "k = Std_pair" by (cases k) (auto simp: overload_of_def)
  show ?thesis using assms by (auto simp: k inst_defs two_iff typed_inst_eqs intro: that(5))
next
  case Complex_overload
  then have k: "k = Std_complex" by (cases k) (auto simp: overload_of_def)
  show ?thesis using assms
    by (auto simp: k inst_defs typed_inst_eqs split: if_splits list.splits option.splits intro: that(6))
next
  case Shared_ptr_overload
  then have k: "k = Std_shared_ptr" by (cases k) (auto simp: overload_of_def)
  show ?thesis using assms
    by (auto simp: k inst_defs one_iff typed_inst_eqs shared_ptr_eq_unique_ptr intro: that(7))
next
  case Unique_ptr_overload
  then have k: "k = Std_unique_ptr" by (cases k) (auto simp: overload_of_def)
  show ?thesis using assms by (auto simp: k inst_defs one_iff typed_inst_eqs intro: that(7))
next
  case Tuple_overload
  then have k: "k = Std_tuple" by (cases k) (auto simp: overload_of_def)
  show ?thesis using assms
    by (auto simp: k inst_defs typed_inst_eqs split: list.splits option.splits intro: that(8))
qed (use that(9) overload_of_inst [of k] in simp_all)

lemma scalar_cases [consumes 2, case_names string bitset duration time_point]:
  assumes "overload_codec cmps (overload_of k) (TInst k Ts) Ts cs = Some c"
    "overload_of k \<in> {String_overload, Bitset_overload, Duration_overload, Time_point_overload}"
  obtains
    (string) n where "k = Std_basic_string" "chars_size Ts = Some n" "c = via un_str V_str (string_codec n)" "0 < n"
  | (bitset) n where "k = Std_bitset n" "c = via un_bits V_bits (bitset_codec n)"
  | (duration) w where "k = Std_duration" "rep_width Ts = Some w" "c = via un_int V_int (duration_codec w)"
  | (time_point) w where "k = Std_time_point" "time_point_width Ts = Some w"
      "c = via un_int V_int (time_point_codec w)"
proof -
  have pos: "0 < n" if "chars_size Ts = Some n" for n
    using that by (auto simp: chars_size_def size_of_def split: list.splits sty.splits if_splits fund.splits)
  consider "k = Std_basic_string" | n where "k = Std_bitset n" | "k = Std_duration" | "k = Std_time_point"
    using assms(2) by (cases k) (auto simp: overload_of_def)
  then show ?thesis
    using assms(1) pos by cases (auto simp: inst_defs intro: that)
qed

lemma inst_codec:
  assumes IH: "\<And>T c. T \<in> set Ts \<Longrightarrow> codec_of cmps T = Some c \<Longrightarrow> codec c (typed True cmps T)"
    and c: "overload_codec cmps (overload_of k) (TInst k Ts) Ts (map (codec_of cmps) Ts) = Some c"
  shows "codec c (typed_inst True cmps k Ts (map (typed True cmps) Ts))"
proof -
  have weaken: "codec d R" if "seq_codec d R'" "\<And>v. R v \<Longrightarrow> R' v" for d :: "val list codec" and R R'
    by (rule codec_mono [OF seq_codec.axioms(1) [OF that(1)]]) (rule that(2))
  from c show ?thesis
  proof (cases rule: inst_cases)
    case (sequence_like T d g Q)
    note d = IH [of T d]
    have "codec (g d) (\<lambda>vs. list_all (typed True cmps T) vs \<and> length vs < 2 ^ 64 \<and> Q vs)"
      using sequence_like(5)
    proof (elim disjE exE conjE)
      fix n
      assume g: "g = array_codec n" "Q = (\<lambda>vs. length vs = n)"
      show ?thesis unfolding g by (rule weaken [OF codec.array_seq [OF d]]) (use sequence_like in auto)
    next
      assume g: "g = forward_list_codec" "Q = (\<lambda>_. True)"
      show ?thesis unfolding g by (rule weaken [OF codec.forward_list_seq [OF d]]) (use sequence_like in auto)
    next
      assume g: "g = list_like_codec" "Q = (\<lambda>_. True)"
      show ?thesis unfolding g by (rule weaken [OF codec.list_like_seq [OF d]]) (use sequence_like in auto)
    qed
    then show ?thesis using sequence_like by (simp add: via_seq)
  next
    case (adaptor T d)
    then show ?thesis using IH [of T d] by (simp add: codec_adaptor)
  next
    case (set T d kind n)
    then have "codec (set_codec kind (cmps n) d) (\<lambda>vs. list_all (typed True cmps T) vs \<and> length vs < 2 ^ 64 \<and>
        well_ordered kind (cmps n) (\<lambda>x. x) vs)"
      by (intro seq_codec.axioms(1) [OF codec.set_seq] IH) auto
    then show ?thesis using set by (simp add: via_seq)
  next
    case (map_like T U d e kind n)
    have "codec c (on_seq True (on_tup (\<lambda>es. list_all2 (\<lambda>R. R) [typed True cmps T, typed True cmps U] es))
        (\<lambda>vs. well_ordered kind (cmps n) fst (map un_pair vs)))"
      unfolding map_like(4)
      by (intro via_map [where W = "well_ordered kind (cmps n) fst"] seq_codec.axioms(1) [OF map_seq] IH)
        (use map_like in auto)
    then show ?thesis using map_like by simp
  next
    case (pair T U d e)
    then show ?thesis
      using via_pair [OF seq_codec.axioms(1) [OF pair_seq], OF IH [of T d] IH [of U e]] by simp
  next
    case (complex T d)
    then show ?thesis
      using via_pair [OF seq_codec.axioms(1) [OF codec.complex_seq], OF IH [of T d]] by simp
  next
    case (owned T d)
    then show ?thesis
      using via_opt [OF codec.unique_ptr_codec [OF IH [of T d]]] by simp
  next
    case (tuple e es es')
    have "list_all2 element_ok (e # es) (rev (map (typed True cmps) Ts))"
      using tuple_elements_ok [OF IH tuple(1)] by (metis list_all2_rev tuple(2))
    from seq_codec.axioms(1) [OF tuple_val_seq [OF this]] show ?thesis using tuple by simp
  next
    case scalar
    with c show ?thesis
    proof (cases rule: scalar_cases)
      case (string n)
      have "codec (via un_str V_str (string_codec n)) (on_str (\<lambda>b. n dvd length b))"
        by (rule codec_via [OF string.codec_axioms [of n]]) (use string in \<open>auto simp: on_str_iff\<close>)
      then show ?thesis using string by (simp add: typed_inst_scalar)
    next
      case (bitset n)
      have "codec (via un_bits V_bits (bitset_codec n)) (\<lambda>v. case v of V_bits b \<Rightarrow> length b = n | _ \<Rightarrow> False)"
        by (rule codec_via [OF bitset.codec_axioms [of n]]) (auto split: val.splits)
      then show ?thesis using bitset by (simp add: typed_inst_scalar)
    next
      case (duration w)
      then show ?thesis by (simp add: typed_inst_scalar via_int codec_duration)
    next
      case (time_point w)
      then show ?thesis by (simp add: typed_inst_scalar via_int codec_time_point)
    qed
  qed
qed

lemma codec_of_codec: "codec_of cmps T = Some c \<Longrightarrow> codec c (typed True cmps T)"
proof (induction T arbitrary: c)
  case (TFund a)
  then show ?case
    by (auto simp: codec_of_defs split: if_splits intro: codec_mono [OF raw_val])
next
  case (TEnum sg w)
  have "codec (via un_int V_int (enum_codec sg w)) (on_int (int_range sg w))"
    by (rule codec_via [OF codec_enum [of sg w]]) (auto simp: on_int_iff)
  then show ?case using TEnum codec_mono by (auto simp: codec_of_defs split: if_splits)
next
  case TPtr
  then show ?case using codec_mono [OF via_int [OF codec_pointer]] by (simp add: codec_of_defs)
next
  case TBinaryWrap
  have "codec (via un_str V_str binary_wrap_codec) (on_str (\<lambda>b. length b < 2 ^ 64))"
    by (rule codec_via [OF binary_wrap.codec_axioms]) (auto simp: on_str_iff)
  then show ?case using TBinaryWrap codec_mono by (auto simp: codec_of_defs)
next
  case (TAutoSize sg)
  then show ?case using via_int [OF codec_auto [of sg]] codec_mono by (auto simp: codec_of_defs)
next
  case (TInst k Ts)
  have t: "typed True cmps (TInst k Ts) = typed_inst True cmps k Ts (map (typed True cmps) Ts)"
    by (rule ext) simp
  have c: "overload_codec cmps (overload_of k) (TInst k Ts) Ts (map (codec_of cmps) Ts) = Some c"
    using TInst.prems by (simp add: select_overload_def candidates_inst)
  show ?case unfolding t by (rule inst_codec [OF TInst.IH c])
next
  case (TStruct Ts)
  from TStruct.prems obtain cs where cs: "those (map (codec_of cmps) Ts) = Some cs" "c = struct_val_codec cs"
    by (auto simp: codec_of_defs split: option.splits if_splits)
  have "list_all2 codec cs (map (typed True cmps) Ts)"
    by (rule those_codecs_ok [OF TStruct.IH cs(1)])
  from codec_mono [OF struct_val [OF this]] show ?case by (simp add: cs)
qed (simp_all add: codec_of_defs)

end
