(* ===== verification/Sound.thy ===== *)
theory Sound
  imports Typed
begin

text \<open>
  What deserialization leaves in its target when the bytes were not written by the matching
  serializer. The locale \<open>sound\<close> is this contract: the default value has a property, and reading any
  bytes into an object that has it leaves an object that has it, also when reading stops at an
  error. It is interpreted for the scalar types and handed on by every container, so that a
  deserialized object is always a value of its type.
\<close>

section \<open>The contract\<close>

locale sound =
  fixes c :: "'a codec" and P :: "'a \<Rightarrow> bool"
  assumes dflt_sound: "P (dflt c)"
    and rd_sound: "P old \<Longrightarrow> rd c old ia = Inr (t, ia') \<Longrightarrow> P t"
begin

lemma item_read_sound: "item_read c ia = Inr (Some v, ia') \<Longrightarrow> P v"
  using rd_sound [OF dflt_sound]
  by (auto simp: item_read_def res_simps split: if_splits)

lemma items_read_sound:
  assumes "\<And>t v t'. Q t \<Longrightarrow> P v \<Longrightarrow> put t v = Inr t' \<Longrightarrow> Q t'"
  shows "Q t \<Longrightarrow> items_read c n put t ia = Inr (t', ia') \<Longrightarrow> Q t'"
proof (induction n arbitrary: t ia)
  case 0
  then show ?case by simp
next
  case (Suc n)
  from Suc.prems(2) obtain item ia1 where item: "item_read c ia = Inr (item, ia1)"
    and rest: "(case item of None \<Rightarrow> Inr (t, ia1)
      | Some v \<Rightarrow> bindr (put t v) (\<lambda>t'. items_read c n put t' ia1)) = Inr (t', ia')"
    by (auto simp: res_simps)
  show ?case
  proof (cases item)
    case None
    with rest Suc.prems(1) show ?thesis by simp
  next
    case (Some v)
    with rest obtain t1 where "put t v = Inr t1" "items_read c n put t1 ia1 = Inr (t', ia')"
      by (auto simp: res_simps)
    with Suc.IH assms [OF Suc.prems(1)] item_read_sound item Some show ?thesis by blast
  qed
qed

text \<open>The sequences: their elements are sound, and an array keeps its length.\<close>

lemma list_like_sound: "sound (list_like_codec c) (list_all P)"
  by unfold_locales
    (auto simp: list_like_codec_def res_simps elim!: items_read_sound [rotated -1])

lemma forward_list_sound: "sound (forward_list_codec c) (list_all P)"
proof
  fix old ia t ia'
  assume old: "list_all P old" and rd: "rd (forward_list_codec c) old ia = Inr (t, ia')"
  then obtain n t' ia1 where r: "items_read c n (\<lambda>t v. Inr (v # t)) old ia1 = Inr (t', ia')" "t = rev t'"
    by (auto simp: forward_list_codec_def res_simps)
  have "list_all P t'" by (rule items_read_sound [where Q = "list_all P", OF _ old r(1)]) auto
  with r(2) show "list_all P t" by simp
qed (simp add: forward_list_codec_def)

lemma array_sound: "sound (array_codec n c) (\<lambda>t. list_all P t \<and> length t = n)"
proof
  fix old ia t ia'
  let ?Q = "\<lambda>(i :: nat, t). list_all P t \<and> length t = n"
  assume old: "list_all P old \<and> length old = n" and rd: "rd (array_codec n c) old ia = Inr (t, ia')"
  then obtain m i ia1 where r: "items_read c m array_put (0, old) ia1 = Inr ((i, t), ia')"
    by (auto simp: array_codec_def res_simps)
  have "?Q (i, t)"
  proof (rule items_read_sound [OF _ _ r])
    show "?Q p'" if "?Q p" "P v" "array_put p v = Inr p'" for p v p'
      using that by (auto simp: array_put_def list_all_length nth_list_update split: if_splits prod.splits)
  qed (use old in simp)
  then show "list_all P t \<and> length t = n" by simp
qed (simp add: array_codec_def list_all_iff dflt_sound)

end

section \<open>The order of sets and maps\<close>

text \<open>
  A comparison that the standard accepts for an ordered container is irreflexive and transitive.
  (It also asks that equivalence be transitive, which is not needed here.)
\<close>

definition strict_order :: "'k comparison \<Rightarrow> bool" where
  "strict_order cmp =
     ((\<forall>x. \<not> key_less cmp x x) \<and> (\<forall>x y z. key_less cmp x y \<and> key_less cmp y z \<longrightarrow> key_less cmp x z))"

lemma strict_orderD:
  assumes "strict_order cmp"
  shows "\<not> key_less cmp x x" "key_less cmp x y \<Longrightarrow> key_less cmp y z \<Longrightarrow> key_less cmp x z"
    "key_less cmp x y \<Longrightarrow> \<not> key_less cmp y x"
  using assms unfolding strict_order_def by blast+

lemma set_emplace: "set (emplace kind cmp key t v) \<subseteq> insert v (set t)"
proof -
  have "set (takeWhile R t) \<subseteq> set t" "set (dropWhile R t) \<subseteq> set t" for R
    by (auto dest: set_takeWhileD set_dropWhileD)
  then show ?thesis by (auto simp: emplace_def Let_def split: container_kind.splits)
qed

text \<open>
  The place where \<open>emplace\<close> inserts: nothing before it is greater, everything from there on is.
\<close>

lemma dropWhile_greater:
  assumes "strict_order cmp" "sorted_wrt (\<lambda>x y. \<not> key_less cmp (key y) (key x)) t"
    "y \<in> set (dropWhile (\<lambda>x. \<not> key_less cmp (key v) (key x)) t)"
  shows "\<not> key_less cmp (key y) (key v)"
proof (cases "dropWhile (\<lambda>x. \<not> key_less cmp (key v) (key x)) t")
  case Nil
  with assms(3) show ?thesis by simp
next
  case (Cons z zs)
  then have z: "key_less cmp (key v) (key z)" by (meson dropWhile_eq_Cons_conv)
  have "sorted_wrt (\<lambda>x y. \<not> key_less cmp (key y) (key x)) (z # zs)"
    unfolding Cons [symmetric] by (metis assms(2) sorted_wrt_append takeWhile_dropWhile_id)
  then have "y = z \<or> \<not> key_less cmp (key y) (key z)" using assms(3) Cons by auto
  with z strict_orderD [OF assms(1)] show ?thesis by blast
qed

lemma sorted_wrt_insert:
  "sorted_wrt R p \<Longrightarrow> sorted_wrt R s \<Longrightarrow> \<forall>x\<in>set p. \<forall>y\<in>set s. R x y \<Longrightarrow>
   \<forall>x\<in>set p. R x v \<Longrightarrow> \<forall>y\<in>set s. R v y \<Longrightarrow> sorted_wrt R (p @ v # s)"
  by (simp add: sorted_wrt_append)

lemma emplace_well_ordered:
  assumes cmp: "strict_order cmp" and t: "well_ordered kind cmp key t"
  shows "well_ordered kind cmp key (emplace kind cmp key t v)"
proof -
  let ?less = "\<lambda>x y. key_less cmp (key x) (key y)"
  let ?p = "takeWhile (\<lambda>x. \<not> ?less v x) t" and ?s = "dropWhile (\<lambda>x. \<not> ?less v x) t"
  have split: "sorted_wrt R ?p \<and> sorted_wrt R ?s \<and> (\<forall>x\<in>set ?p. \<forall>y\<in>set ?s. R x y)"
    if "sorted_wrt R t" for R
    by (metis that sorted_wrt_append takeWhile_dropWhile_id)
  have before: "\<not> ?less v x" if "x \<in> set ?p" for x using that by (auto dest: set_takeWhileD)
  have sub: "x \<in> set t" if "x \<in> set ?p \<or> x \<in> set ?s" for x
    using that by (auto dest: set_takeWhileD set_dropWhileD)
  have weak: "sorted_wrt (\<lambda>x y. \<not> ?less y x) t" if "kind = Ordered \<or> kind = MultiOrdered"
    using t that by (auto simp: well_ordered_def intro: sorted_wrt_mono_rel [rotated])
  note after = dropWhile_greater [OF cmp weak]
  show ?thesis
  proof (cases kind)
    case Ordered
    show ?thesis
    proof (cases "list_ex (\<lambda>x. \<not> ?less x v \<and> \<not> ?less v x) t")
      case True
      with Ordered t show ?thesis by (simp add: emplace_def)
    next
      case False
      then have differ: "?less x v \<or> ?less v x" if "x \<in> set t" for x
        using that by (auto simp: list_ex_iff)
      have p: "?less x v \<and> \<not> ?less v x" if "x \<in> set ?p" for x
        using before [OF that] differ sub that by blast
      have s: "?less v y \<and> \<not> ?less y v" if "y \<in> set ?s" for y
        using after [of y] Ordered differ sub that by blast
      have "sorted_wrt (\<lambda>x y. ?less x y \<and> \<not> ?less y x) t"
        using t Ordered by (simp add: well_ordered_def)
      from split [OF this] have "sorted_wrt (\<lambda>x y. ?less x y \<and> \<not> ?less y x) (?p @ v # ?s)"
        by (intro sorted_wrt_insert) (use p s in blast)+
      with Ordered False show ?thesis by (simp add: emplace_def well_ordered_def)
    qed
  next
    case MultiOrdered
    have "sorted_wrt (\<lambda>x y. \<not> ?less y x) t" using weak MultiOrdered by blast
    from split [OF this] have "sorted_wrt (\<lambda>x y. \<not> ?less y x) (?p @ v # ?s)"
      by (intro sorted_wrt_insert) (use before after MultiOrdered in blast)+
    with MultiOrdered show ?thesis by (simp add: emplace_def well_ordered_def)
  next
    case Unordered
    with t show ?thesis
      by (auto simp: emplace_def well_ordered_def Let_def sorted_wrt_append list_ex_iff)
  next
    case MultiUnordered
    then show ?thesis by (simp add: well_ordered_def)
  qed
qed

section \<open>Containers, pairs, tuples, pointers, structures\<close>

context sound
begin

lemma set_sound:
  assumes "strict_order cmp"
  shows "sound (set_codec kind cmp c) (\<lambda>t. list_all P t \<and> well_ordered kind cmp (\<lambda>x. x) t)"
proof
  fix old ia t ia'
  let ?Q = "\<lambda>t. list_all P t \<and> well_ordered kind cmp (\<lambda>x. x) t"
  assume old: "?Q old" and "rd (set_codec kind cmp c) old ia = Inr (t, ia')"
  then obtain n ia1 where
    r: "items_read c n (\<lambda>t v. Inr (emplace kind cmp (\<lambda>x. x) t v)) old ia1 = Inr (t, ia')"
    by (auto simp: set_codec_def res_simps)
  show "?Q t"
  proof (rule items_read_sound [where Q = ?Q, OF _ old r])
    fix t v t'
    assume "?Q t" "P v" "Inr (emplace kind cmp (\<lambda>x. x) t v) = (Inr t' :: 'a list res)"
    then show "?Q t'"
      using set_emplace [of kind cmp "\<lambda>x. x" t v] emplace_well_ordered [OF assms, of kind "\<lambda>x. x" t v]
      by (auto simp: list_all_iff)
  qed
qed (simp add: set_codec_def well_ordered_def split: container_kind.splits)

lemma tuple_impl_sound:
  "P v \<Longrightarrow> tuple_de_serialize_helper_impl ty c v ia = Inr (v', ia') \<Longrightarrow> P v'"
  using rd_sound by (cases ty) (auto simp: tuple_de_serialize_helper_impl_def res_simps)

lemma tuple_one_sound: "sound (tuple_one ign c) P"
  by unfold_locales (auto simp: tuple_one_def dflt_sound dest: tuple_impl_sound)

lemma tuple_snoc_sound:
  assumes "sound tc Q"
  shows "sound (tuple_snoc tc ign c) (\<lambda>(t, v). Q t \<and> P v)"
proof
  show "case dflt (tuple_snoc tc ign c) of (t, v) \<Rightarrow> Q t \<and> P v"
    by (simp add: tuple_snoc_def dflt_sound sound.dflt_sound [OF assms])
next
  fix old ia t ia'
  assume "case old of (t, v) \<Rightarrow> Q t \<and> P v" "rd (tuple_snoc tc ign c) old ia = Inr (t, ia')"
  then show "case t of (t, v) \<Rightarrow> Q t \<and> P v"
    by (auto simp: tuple_snoc_def res_simps split: if_splits
        dest: sound.rd_sound [OF assms] tuple_impl_sound)
qed

lemma complex_sound: "sound (complex_codec c) (\<lambda>(x, y). P x \<and> P y)"
  using rd_sound [OF dflt_sound]
  by unfold_locales (auto simp: complex_codec_def res_simps dflt_sound)

lemma unique_ptr_sound: "sound (unique_ptr_codec c) (pred_option P)"
  using rd_sound [OF dflt_sound]
  by unfold_locales (auto simp: unique_ptr_codec_def res_simps split: if_splits)

lemma amp_read_sound: "P v \<Longrightarrow> amp_read c v ia = Inr (v', ia') \<Longrightarrow> P v'"
  using rd_sound by (auto simp: amp_read_def res_simps split: if_splits)

lemma adaptor_sound: "sound (adaptor_codec c) P"
  using rd_sound by unfold_locales (auto simp: adaptor_codec_def dflt_sound)

text \<open>Another representation of the values.\<close>

lemma via_sound:
  assumes "\<And>v. Q v \<Longrightarrow> P (proj v)" "\<And>x. P x \<Longrightarrow> Q (mk x)"
  shows "sound (via proj mk c) Q"
  by unfold_locales (auto simp: via_def res_simps dflt_sound assms dest: rd_sound [OF assms(1)])

end

lemma sound_mono: "sound c P \<Longrightarrow> P = Q \<Longrightarrow> sound c Q"
  by simp

lemma pair_sound:
  assumes "sound c P" "sound d Q"
  shows "sound (pair_codec c d) (\<lambda>(x, y). P x \<and> Q y)"
proof -
  have "sound (tuple_snoc (tuple_one False c) False d) (\<lambda>(x, y). P x \<and> Q y)"
    by (rule sound.tuple_snoc_sound [OF assms(2) sound.tuple_one_sound [OF assms(1)]])
  note tup = sound.dflt_sound [OF this] sound.rd_sound [OF this sound.dflt_sound [OF this]]
  show ?thesis
    by unfold_locales (use tup in \<open>auto simp: pair_codec_def Let_def tuple_snoc_def tuple_one_def\<close>)
qed

lemma map_sound:
  assumes "sound ck P" "sound cv Q" "strict_order cmp"
  shows "sound (map_codec kind cmp ck cv)
    (\<lambda>t. list_all (\<lambda>(k, v). P k \<and> Q v) t \<and> well_ordered kind cmp fst t)"
proof
  fix old ia t ia'
  let ?P = "\<lambda>(k, v). P k \<and> Q v"
  let ?Q = "\<lambda>t. list_all ?P t \<and> well_ordered kind cmp fst t"
  assume old: "?Q old" and "rd (map_codec kind cmp ck cv) old ia = Inr (t, ia')"
  then obtain n ia1 where
    r: "items_read (pair_codec ck cv) n (\<lambda>t v. Inr (emplace kind cmp fst t v)) old ia1 = Inr (t, ia')"
    by (auto simp: map_codec_def res_simps)
  show "?Q t"
  proof (rule sound.items_read_sound [where Q = ?Q, OF pair_sound [OF assms(1,2)] _ old r])
    fix t v t'
    assume "?Q t" "?P v" "Inr (emplace kind cmp fst t v) = (Inr t' :: ('a \<times> 'b) list res)"
    then show "?Q t'"
      using set_emplace [of kind cmp fst t v] emplace_well_ordered [OF assms(3), of kind fst t v]
      by (fastforce simp: list_all_iff)
  qed
qed (simp add: map_codec_def well_ordered_def split: container_kind.splits)

lemma tuple_val_sound:
  "list_all2 (\<lambda>e P. sound (snd e) P) (e # es) Ps \<Longrightarrow>
   sound (tuple_val_codec e es) (on_tup (\<lambda>vs. list_all2 (\<lambda>P v. P v) (rev Ps) vs))"
proof (induction e es arbitrary: Ps rule: tuple_val_codec.induct)
  case (1 ign c)
  then obtain P where P: "Ps = [P]" "sound c P" by (auto simp: list_all2_Cons1)
  show ?case
    unfolding tuple_val_codec.simps
    by (rule sound.via_sound [OF sound.tuple_one_sound [OF P(2)]])
      (auto simp: on_tup_iff P list_all2_Cons1)
next
  case (2 ign c e es)
  then obtain P Ps' where P: "Ps = P # Ps'" "sound c P" "list_all2 (\<lambda>e P. sound (snd e) P) (e # es) Ps'"
    by (auto simp: list_all2_Cons1)
  note IH = "2.IH" [OF P(3)]
  show ?case
    unfolding tuple_val_codec.simps
  proof (rule sound.via_sound [OF sound.tuple_snoc_sound [OF P(2) IH]])
    fix v
    assume "on_tup (list_all2 (\<lambda>P v. P v) (rev Ps)) v"
    then obtain us x where "v = V_tup (us @ [x])" "list_all2 (\<lambda>P v. P v) (rev Ps') us" "P x"
      by (auto simp: on_tup_iff P list_all2_append1 list_all2_Cons1)
    then show "case split_last v of (t, v) \<Rightarrow> on_tup (list_all2 (\<lambda>P v. P v) (rev Ps')) t \<and> P v"
      by (simp add: split_last_def on_tup_iff)
  next
    fix x
    assume "case x of (t, v) \<Rightarrow> on_tup (list_all2 (\<lambda>P v. P v) (rev Ps')) t \<and> P v"
    then show "on_tup (list_all2 (\<lambda>P v. P v) (rev Ps)) (join_last x)"
      by (auto simp: join_last_def on_tup_iff P list_all2_appendI)
  qed
qed

text \<open>Reading a field replaces one part by another of the same type.\<close>

lemma nth_fields_sound:
  "list_all2 sound cs Ps \<Longrightarrow> on_tup (list_all2 (\<lambda>P v. P v) (Qs @ Ps)) t \<Longrightarrow> i = length Qs \<Longrightarrow>
   struct_read (nth_fields i cs) t ia = Inr (t', ia') \<Longrightarrow> on_tup (list_all2 (\<lambda>P v. P v) (Qs @ Ps)) t'"
proof (induction cs Ps arbitrary: Qs i t ia rule: list_all2_induct)
  case Nil
  then show ?case by simp
next
  case (Cons c cs P Ps)
  from Cons.prems(1) obtain vs where t: "t = V_tup vs" and vs: "list_all2 (\<lambda>P v. P v) (Qs @ P # Ps) vs"
    by (auto simp: on_tup_iff)
  then have i: "i < length vs" "P (vs ! i)"
    using list_all2_lengthD [OF vs] list_all2_nthD [OF vs, of i] Cons.prems(2) by auto
  from Cons.prems(3) obtain x ia1 where x: "amp_read c (vs ! i) ia = Inr (x, ia1)"
    and r: "struct_read (nth_fields (Suc i) cs) (V_tup (vs[i := x])) ia1 = Inr (t', ia')"
    by (auto simp: nth_field_def serialize_field_def res_simps t)
  have "P x" by (rule sound.amp_read_sound [OF Cons.hyps(1) i(2) x])
  then have "list_all2 (\<lambda>P v. P v) ((Qs @ P # Ps)[i := P]) (vs[i := x])"
    by (intro list_all2_update_cong vs)
  moreover have "(Qs @ P # Ps)[i := P] = (Qs @ [P]) @ Ps"
    using Cons.prems(2) by (simp add: list_update_append)
  ultimately have "on_tup (list_all2 (\<lambda>P v. P v) ((Qs @ [P]) @ Ps)) (V_tup (vs[i := x]))"
    by (simp add: on_tup_iff)
  from Cons.IH [OF this _ r] Cons.prems(2) show ?case by simp
qed

lemma struct_val_sound:
  assumes "list_all2 sound cs Ps"
  shows "sound (struct_val_codec cs) (on_tup (list_all2 (\<lambda>P v. P v) Ps))"
proof
  have "list_all2 (\<lambda>P v. P v) Ps (map dflt cs)"
    using assms by (induction rule: list_all2_induct) (auto simp: sound.dflt_sound)
  then show "on_tup (list_all2 (\<lambda>P v. P v) Ps) (dflt (struct_val_codec cs))"
    by (simp add: struct_val_codec_def define_type_def on_tup_iff Let_def)
next
  fix old ia t ia'
  assume "on_tup (list_all2 (\<lambda>P v. P v) Ps) old" "rd (struct_val_codec cs) old ia = Inr (t, ia')"
  then show "on_tup (list_all2 (\<lambda>P v. P v) Ps) t"
    using nth_fields_sound [OF assms, of "[]" old 0 ia t ia']
    by (simp add: struct_val_codec_def define_type_def Let_def)
qed

section \<open>Scalar types\<close>

text \<open>The conversion from 64 bits lands in the range of the target type.\<close>

lemma cast_int_range:
  assumes "0 < w" "w \<le> 64"
  shows "int_range sg w (cast_int sg w v)"
proof (cases sg)
  case True
  with assms signed_take_bit_int_greater_eq_minus_exp [of "w - 1" "sint v"]
    signed_take_bit_int_less_exp [of "w - 1" "sint v"]
  show ?thesis by (simp add: int_range_def cast_int_def)
next
  case False
  with assms show ?thesis by (simp add: int_range_def cast_int_def)
qed

lemma auto_sound:
  assumes "0 < w" "w \<le> 64" "dflt c = 0"
    and "rd c = (\<lambda>_ ia. bindr (read_auto sg' ia) (\<lambda>(v, ia'). Inr (cast_int sg w v, ia')))"
  shows "sound c (int_range sg w)"
proof
  show "int_range sg w (dflt c)" using assms(1-3) by (simp add: int_range_def)
next
  fix old ia t ia'
  assume "rd c old ia = Inr (t, ia')"
  then show "int_range sg w t"
    using cast_int_range [OF assms(1,2), of sg] by (auto simp: assms(4) res_simps)
qed

lemma int_sound: "0 < w \<Longrightarrow> w \<le> 64 \<Longrightarrow> sound (int_codec sg w) (int_range sg w)"
  by (rule auto_sound) (simp_all add: int_codec_def)

lemma enum_sound: "0 < w \<Longrightarrow> w \<le> 64 \<Longrightarrow> sound (enum_codec sg w) (int_range sg w)"
  by (rule auto_sound) (simp_all add: enum_codec_def)

lemma duration_sound: "0 < w \<Longrightarrow> w \<le> 64 \<Longrightarrow> sound (duration_codec w) (int_range True w)"
  by (rule auto_sound) (simp_all add: duration_codec_def)

lemma time_point_sound: "0 < w \<Longrightarrow> w \<le> 64 \<Longrightarrow> sound (time_point_codec w) (int_range True w)"
  by (rule auto_sound) (simp_all add: time_point_codec_def duration_codec_def)

interpretation pointer_sound: sound pointer_codec "int_range True 64"
  by (rule auto_sound) (simp_all add: pointer_codec_def int_codec_def)

interpretation auto_size_sound: sound "auto_codec sg" "int_range sg 64" for sg
  by (rule auto_sound) (simp_all add: auto_codec_def int_codec_def)

interpretation bool_sound: sound bool_codec "\<lambda>_. True"
  by unfold_locales auto

interpretation raw_sound: sound "raw_codec n n" "\<lambda>t. length t = n" for n
  by unfold_locales (auto simp: raw_codec_def peek_def res_simps split: if_splits)

interpretation string_sound: sound "string_codec vt" "\<lambda>t. vt dvd length t" for vt
  by unfold_locales (auto simp: string_codec_def peek_def res_simps split: if_splits)

interpretation bitset_sound: sound "bitset_codec n" "\<lambda>t. length t = n" for n
  by unfold_locales (auto simp: bitset_codec_def res_simps split: if_splits)

interpretation binary_wrap_sound: sound binary_wrap_codec "\<lambda>_. True"
  by unfold_locales auto

interpretation ignore_sound: sound ignore_codec "\<lambda>v. v = V_unit"
  by unfold_locales (auto simp: ignore_codec_def)

section \<open>All types\<close>

lemma via_int_sound: "sound c (int_range sg w) \<Longrightarrow> sound (via un_int V_int c) (on_int (int_val False sg w))"
  by (erule sound.via_sound) (auto simp: on_int_iff int_val_def)

lemma via_seq_sound:
  assumes "sound c (\<lambda>vs. list_all P vs \<and> Q vs)"
  shows "sound (via un_seq V_seq c) (on_seq False P Q)"
  by (rule sound.via_sound [OF assms]) (auto simp: on_seq_iff)

lemma via_opt_sound:
  assumes "sound c (pred_option P)"
  shows "sound (via un_opt V_opt c) (\<lambda>v. case v of V_opt x \<Rightarrow> pred_option P x | _ \<Rightarrow> False)"
  by (rule sound.via_sound [OF assms]) (auto split: val.splits)

lemma via_pair_sound:
  assumes "sound c (\<lambda>(x, y). P x \<and> Q y)"
  shows "sound (via un_pair mk_pair c) (on_tup (\<lambda>vs. list_all2 (\<lambda>R. R) [P, Q] vs))"
  by (rule sound.via_sound [OF assms])
    (auto simp: on_tup_iff list_all2_Cons1 un_pair_def mk_pair_def split: prod.splits)

lemma via_map_sound:
  assumes "sound c (\<lambda>t. list_all (\<lambda>(k, v). P k \<and> Q v) t \<and> W t)"
  shows "sound (via (\<lambda>v. map un_pair (un_seq v)) (\<lambda>m. V_seq (map mk_pair m)) c)
    (on_seq False (on_tup (\<lambda>es. list_all2 (\<lambda>R. R) [P, Q] es)) (\<lambda>vs. W (map un_pair vs)))"
proof (rule sound.via_sound [OF assms])
  fix v
  assume "on_seq False (on_tup (\<lambda>es. list_all2 (\<lambda>R. R) [P, Q] es)) (\<lambda>vs. W (map un_pair vs)) v"
  then obtain vs where v: "v = V_seq vs" "W (map un_pair vs)"
    and es: "\<forall>x\<in>set vs. on_tup (\<lambda>es. list_all2 (\<lambda>R. R) [P, Q] es) x"
    by (auto simp: on_seq_iff list_all_iff)
  have "case un_pair x of (k, v) \<Rightarrow> P k \<and> Q v" if "x \<in> set vs" for x
    using es that by (force simp: on_tup_iff list_all2_Cons1 un_pair_def)
  with v show "list_all (\<lambda>(k, v). P k \<and> Q v) (map un_pair (un_seq v)) \<and> W (map un_pair (un_seq v))"
    by (simp add: list_all_iff)
next
  fix m
  assume m: "list_all (\<lambda>(k, v). P k \<and> Q v) m \<and> W m"
  have "on_tup (\<lambda>es. list_all2 (\<lambda>R. R) [P, Q] es) (mk_pair x)" if "x \<in> set m" for x
    using m that by (auto simp: list_all_iff on_tup_iff mk_pair_def)
  with m show "on_seq False (on_tup (\<lambda>es. list_all2 (\<lambda>R. R) [P, Q] es)) (\<lambda>vs. W (map un_pair vs)) (V_seq (map mk_pair m))"
    by (simp add: on_seq_iff list_all_iff o_def)
qed

lemma raw_val_sound:
  assumes "raw_type_of a = Some r"
  shows "sound (raw_val_codec a r) (typed_fund False a)"
proof (cases r)
  case (Define_raw_type n)
  then have n: "n = size_of a" using assms by (cases a) (auto simp: raw_type_of_def size_of_def)
  have "sound (via un_bool V_bool bool_codec) (typed_fund False a)" if "a = C_bool"
    by (rule bool_sound.via_sound) (use assms Define_raw_type that in \<open>simp_all add: typed_fund_def\<close>)
  moreover have "sound (via un_raw V_raw (raw_codec (size_of a) n)) (typed_fund False a)" if "a \<noteq> C_bool"
    unfolding n by (rule raw_sound.via_sound) (auto simp: typed_fund_def assms Define_raw_type that split: val.splits)
  ultimately show ?thesis using Define_raw_type by (simp add: raw_val_codec_def bool_val_codec_def)
next
  case (Define_raw_type_auto_size sg)
  have "typed_fund False a = on_int (int_val False sg (8 * size_of a))"
    using assms Define_raw_type_auto_size by (intro ext) (simp add: typed_fund_def)
  moreover have "0 < 8 * size_of a" "8 * size_of a \<le> 64"
    using assms Define_raw_type_auto_size by (cases a; simp add: raw_type_of_def size_of_def)+
  ultimately show ?thesis
    using Define_raw_type_auto_size by (simp add: raw_val_codec_def via_int_sound int_sound)
qed

lemma tuple_elements_sound:
  assumes "\<And>T c. T \<in> set Ts \<Longrightarrow> codec_of cmps T = Some c \<Longrightarrow> sound c (typed False cmps T)"
    and "those (map2 tuple_element Ts (map (codec_of cmps) Ts)) = Some es"
  shows "list_all2 (\<lambda>e P. sound (snd e) P) es (map (typed False cmps) Ts)"
  using assms
proof (induction Ts arbitrary: es)
  case Nil
  then show ?case by simp
next
  case (Cons T Ts)
  from Cons.prems(2) obtain e es' where e: "tuple_element T (codec_of cmps T) = Some e"
    and es': "those (map2 tuple_element Ts (map (codec_of cmps) Ts)) = Some es'" "es = e # es'"
    by (auto split: option.splits)
  have ign: "typed False cmps TIgnore = (\<lambda>v. v = V_unit)" by (rule ext) simp
  have "sound (snd e) (typed False cmps T)"
    using e Cons.prems(1) [of T] ignore_sound.sound_axioms
    by (auto simp: tuple_element_def is_std_ignore_def ign split: if_splits)
  with Cons.IH [OF Cons.prems(1) es'(1)] es'(2) show ?case by simp
qed

lemma those_codecs_sound:
  assumes "\<And>T c. T \<in> set Ts \<Longrightarrow> codec_of cmps T = Some c \<Longrightarrow> sound c (typed False cmps T)"
    and "those (map (codec_of cmps) Ts) = Some cs"
  shows "list_all2 sound cs (map (typed False cmps) Ts)"
  using assms
proof (induction Ts arbitrary: cs)
  case Nil
  then show ?case by simp
next
  case (Cons T Ts)
  then show ?case by (auto split: option.splits)
qed

lemma inst_sound:
  assumes cmp: "\<And>n. strict_order (cmps n)"
    and IH: "\<And>T c. T \<in> set Ts \<Longrightarrow> codec_of cmps T = Some c \<Longrightarrow> sound c (typed False cmps T)"
    and c: "overload_codec cmps (overload_of k) (TInst k Ts) Ts (map (codec_of cmps) Ts) = Some c"
  shows "sound c (typed_inst False cmps k Ts (map (typed False cmps) Ts))"
  using c
proof (cases rule: inst_cases)
  case (sequence_like T d g Q)
  have d: "sound d (typed False cmps T)" by (rule IH) (use sequence_like in auto)
  have "sound (g d) (\<lambda>vs. list_all (typed False cmps T) vs \<and> Q vs)"
    using sequence_like(5) sound.array_sound [OF d] sound.forward_list_sound [OF d] sound.list_like_sound [OF d]
    by auto
  then show ?thesis using sequence_like by (simp add: via_seq_sound)
next
  case (adaptor T d)
  then show ?thesis using IH [of T d] by (simp add: sound.adaptor_sound)
next
  case (set T d kind n)
  have "sound (set_codec kind (cmps n) d)
      (\<lambda>vs. list_all (typed False cmps T) vs \<and> well_ordered kind (cmps n) (\<lambda>x. x) vs)"
    by (intro sound.set_sound IH cmp) (use set in auto)
  then show ?thesis using set by (simp add: via_seq_sound)
next
  case (map_like T U d e kind n)
  have "sound c (on_seq False (on_tup (\<lambda>es. list_all2 (\<lambda>R. R) [typed False cmps T, typed False cmps U] es))
      (\<lambda>vs. well_ordered kind (cmps n) fst (map un_pair vs)))"
    unfolding map_like(4)
    by (intro via_map_sound [where W = "well_ordered kind (cmps n) fst"] map_sound IH cmp)
      (use map_like in auto)
  then show ?thesis using map_like by simp
next
  case (pair T U d e)
  then show ?thesis using via_pair_sound [OF pair_sound, OF IH [of T d] IH [of U e]] by simp
next
  case (complex T d)
  then show ?thesis using via_pair_sound [OF sound.complex_sound, OF IH [of T d]] by simp
next
  case (owned T d)
  then show ?thesis using via_opt_sound [OF sound.unique_ptr_sound [OF IH [of T d]]] by simp
next
  case (tuple e es es')
  have "list_all2 (\<lambda>e P. sound (snd e) P) (e # es) (rev (map (typed False cmps) Ts))"
    using tuple_elements_sound [OF IH tuple(1)] by (metis list_all2_rev tuple(2))
  from tuple_val_sound [OF this] show ?thesis using tuple by simp
next
  case scalar
  have w: "0 < w" "w \<le> 64" if "rep_width Us = Some w" for Us w
    using that
    by (auto simp: rep_width_def raw_type_of_def size_of_def split: list.splits sty.splits if_splits fund.splits)
  from c scalar show ?thesis
  proof (cases rule: scalar_cases)
    case (string n)
    have "sound (via un_str V_str (string_codec n)) (on_str (\<lambda>b. n dvd length b))"
      by (rule string_sound.via_sound) (auto simp: on_str_iff)
    then show ?thesis using string by (simp add: typed_inst_scalar)
  next
    case (bitset n)
    have "sound (via un_bits V_bits (bitset_codec n)) (\<lambda>v. case v of V_bits b \<Rightarrow> length b = n | _ \<Rightarrow> False)"
      by (rule bitset_sound.via_sound) (auto split: val.splits)
    then show ?thesis using bitset by (simp add: typed_inst_scalar)
  next
    case (duration n)
    then show ?thesis using via_int_sound [OF duration_sound] w by (simp add: typed_inst_scalar)
  next
    case (time_point n)
    from this(2) obtain Us where "rep_width Us = Some n"
      by (auto simp: time_point_width_def split: list.splits sty.splits tmpl.splits)
    from via_int_sound [OF time_point_sound [OF w [OF this]]] show ?thesis
      using time_point by (simp add: typed_inst_scalar)
  qed
qed

lemma codec_of_sound:
  assumes cmp: "\<And>n. strict_order (cmps n)"
  shows "codec_of cmps T = Some c \<Longrightarrow> sound c (typed False cmps T)"
proof (induction T arbitrary: c)
  case (TFund a)
  have "typed False cmps (TFund a) = typed_fund False a" by (rule ext) simp
  with TFund raw_val_sound [of a] show ?case by (auto simp: codec_of_defs split: if_splits)
next
  case (TEnum sg w)
  have "typed False cmps (TEnum sg w) = on_int (int_range sg w)" by (rule ext) simp
  moreover have "sound (via un_int V_int (enum_codec sg w)) (on_int (int_range sg w))" if "0 < w" "w \<le> 64"
    by (rule sound.via_sound [OF enum_sound [OF that]]) (auto simp: on_int_iff)
  ultimately show ?case using TEnum by (auto simp: codec_of_defs split: if_splits)
next
  case TPtr
  have "typed False cmps TPtr = on_int (int_val False True 64)" by (rule ext) simp
  with TPtr via_int_sound [OF pointer_sound.sound_axioms] show ?case by (simp add: codec_of_defs)
next
  case TBinaryWrap
  have "typed False cmps TBinaryWrap = on_str (\<lambda>_. True)" by (rule ext) simp
  moreover have "sound (via un_str V_str binary_wrap_codec) (on_str (\<lambda>_. True))"
    by (rule binary_wrap_sound.via_sound) (auto simp: on_str_iff)
  ultimately show ?case using TBinaryWrap by (simp add: codec_of_defs)
next
  case (TAutoSize sg)
  have "typed False cmps (TAutoSize sg) = on_int (int_val False sg 64)" by (rule ext) simp
  with TAutoSize via_int_sound [OF auto_size_sound.sound_axioms, of sg] show ?case
    by (simp add: codec_of_defs)
next
  case (TInst k Ts)
  have t: "typed False cmps (TInst k Ts) = typed_inst False cmps k Ts (map (typed False cmps) Ts)"
    by (rule ext) simp
  have c: "overload_codec cmps (overload_of k) (TInst k Ts) Ts (map (codec_of cmps) Ts) = Some c"
    using TInst.prems by (simp add: select_overload_def candidates_inst)
  show ?case unfolding t by (rule inst_sound [OF cmp TInst.IH c])
next
  case (TStruct Ts)
  from TStruct.prems obtain cs where cs: "those (map (codec_of cmps) Ts) = Some cs" "c = struct_val_codec cs"
    by (auto simp: codec_of_defs split: option.splits if_splits)
  have t: "typed False cmps (TStruct Ts) = on_tup (list_all2 (\<lambda>P v. P v) (map (typed False cmps) Ts))"
    by (rule ext) simp
  show ?case unfolding t cs by (rule struct_val_sound [OF those_codecs_sound [OF TStruct.IH cs(1)]])
qed (simp_all add: codec_of_defs)

end
