(* ===== verification/Wire.thy ===== *)
theory Wire
  imports Typed
begin

text \<open>
  The format of the serializer, as a function of its own. A C++ type has a shape on the wire, \<open>wire\<close>,
  that forgets what no byte depends on: which container, the width of an integer, the order of a set,
  who owns a pointee. \<open>encode\<close> writes a value of a shape, and every writer of the library is shown to
  be \<open>encode\<close> for the shape of its type; so two types of the same shape read each other's bytes.
\<close>

section \<open>Shapes\<close>

text \<open>
  \<open>W_auto\<close> has whether the type is fundamental and whether it is signed; \<open>W_none\<close> stands for
  \<open>std::ignore\<close> and for types without overloads.
\<close>

datatype wire =
  W_raw nat | W_bool | W_auto bool bool | W_str | W_bits | W_sized
  | W_seq wire | W_tup "wire list" | W_opt wire | W_none

definition wire_inst :: "tmpl \<Rightarrow> wire list \<Rightarrow> wire" where
  "wire_inst k ws =
     (case overload_of k of
        String_overload \<Rightarrow> W_str
      | Bitset_overload \<Rightarrow> W_bits
      | Duration_overload \<Rightarrow> W_auto False True
      | Time_point_overload \<Rightarrow> W_auto False True
      | Complex_overload \<Rightarrow> W_tup [hd ws, hd ws]
      | Adaptor_overload \<Rightarrow> hd ws
      | Map_overload \<Rightarrow> W_seq (W_tup ws)
      | Pair_overload \<Rightarrow> W_tup ws
      | Tuple_overload \<Rightarrow> W_tup ws
      | Shared_ptr_overload \<Rightarrow> W_opt (hd ws)
      | Unique_ptr_overload \<Rightarrow> W_opt (hd ws)
      | _ \<Rightarrow> W_seq (hd ws))"

primrec wire_of :: "sty \<Rightarrow> wire" where
  "wire_of (TFund a) =
     (case raw_type_of a of
        Some (Define_raw_type n) \<Rightarrow> if a = C_bool then W_bool else W_raw n
      | Some (Define_raw_type_auto_size sg) \<Rightarrow> W_auto True sg
      | None \<Rightarrow> W_none)"
| "wire_of TVoid = W_none"
| "wire_of (TEnum sg w) = W_auto False False"
| "wire_of TPtr = W_auto False True"
| "wire_of TBinaryWrap = W_sized"
| "wire_of (TAutoSize sg) = W_auto False sg"
| "wire_of TIgnore = W_none"
| "wire_of TClass = W_none"
| "wire_of (TInst k Ts) = wire_inst k (map wire_of Ts)"
| "wire_of (TStruct Ts) = W_tup (map wire_of Ts)"

section \<open>The encoder of a shape\<close>

fun fundamental :: "wire \<Rightarrow> bool" where
  "fundamental (W_raw n) = True"
| "fundamental W_bool = True"
| "fundamental (W_auto f sg) = f"
| "fundamental _ = False"

definition with_size :: "bytes \<Rightarrow> bytes res" where
  "with_size t = mapr (\<lambda>h. h @ t) (auto_serialize False (of_nat (length t)))"

text \<open>A part of a compound value: in place, with its size in front, or not at all.\<close>

definition nested :: "wire \<Rightarrow> bytes res \<Rightarrow> bytes res" where
  "nested w m = (if fundamental w then m else if w = W_none then Inr [] else bindr m with_size)"

fun concat_res :: "bytes res list \<Rightarrow> bytes res" where
  "concat_res [] = Inr []"
| "concat_res (m # ms) = bindr m (\<lambda>b. mapr ((@) b) (concat_res ms))"

primrec encode :: "wire \<Rightarrow> val \<Rightarrow> bytes res" where
  "encode (W_raw n) v = peek n (un_raw v)"
| "encode W_bool v = Inr [if un_bool v then 1 else 0]"
| "encode (W_auto f sg) v = auto_serialize sg (word_of_int (un_int v))"
| "encode W_str v = Inr (un_str v)"
| "encode W_bits v = Inr (map (\<lambda>b. if b then 49 else 48) (un_bits v))"
| "encode W_sized v = with_size (un_str v)"
| "encode (W_seq w) v =
     bindr (auto_serialize False (of_nat (length (un_seq v))))
       (\<lambda>h. mapr ((@) h) (concat_res (map (\<lambda>x. nested w (encode w x)) (un_seq v))))"
| "encode (W_tup ws) v =
     concat_res (map2 (\<lambda>(w, f) x. nested w (f x)) (zip ws (map encode ws)) (un_tup v))"
| "encode (W_opt w) v = (case un_opt v of None \<Rightarrow> Inr [0] | Some x \<Rightarrow> mapr ((#) 1) (encode w x))"
| "encode W_none v = Inr []"

section \<open>Writers as concatenations\<close>

lemma mapr_append: "mapr ((@) a) (mapr ((@) b) m) = mapr ((@) (a @ b)) m"
  by (cases m) simp_all

lemma concat_res_snoc: "concat_res (ms @ [m]) = bindr (concat_res ms) (\<lambda>b. mapr ((@) b) m)"
proof (induction ms)
  case Nil
  then show ?case by (cases m) simp_all
next
  case (Cons x xs)
  then show ?case
    by (cases x; cases "concat_res xs"; cases m) simp_all
qed

lemma appends_bindr: "appends f \<Longrightarrow> bindr m f = bindr m (\<lambda>b. mapr ((@) b) (f []))"
  by (cases m) (simp_all, rule appendsD)

lemma write_sub_empty: "write_sub t [] = with_size t"
  by (cases "auto_serialize False (of_nat (length t))") (simp_all add: write_sub_def with_size_def)

lemma items_write_concat:
  assumes "codec c ok"
  shows "items_write c vs [] = concat_res (map (\<lambda>v. item_write c v []) vs)"
proof (induction vs)
  case Nil
  then show ?case by simp
next
  case (Cons v vs)
  then show ?case
    using appends_bindr [OF codec.items_write_appends [OF assms, of vs], of "item_write c v []"] by simp
qed

lemma sized_items_concat:
  assumes "codec c ok"
  shows "bindr (write_auto False n []) (items_write c vs) =
     bindr (auto_serialize False n) (\<lambda>h. mapr ((@) h) (concat_res (map (\<lambda>v. item_write c v []) vs)))"
  using appends_bindr [OF codec.items_write_appends [OF assms, of vs], of "write_auto False n []"]
  by (cases "auto_serialize False n") (simp_all add: write_auto_def items_write_concat [OF assms])

text \<open>A tuple, the elements in the order of the type, and a structure.\<close>

definition element_bytes :: "bool \<times> val codec \<Rightarrow> val \<Rightarrow> bytes res" where
  "element_bytes e v = (if fst e then Inr [] else item_write (snd e) v [])"

definition element_appends :: "bool \<times> val codec \<Rightarrow> bool" where
  "element_appends e =
     (if fst e then \<not> is_fund (snd e) else \<forall>v. appends (item_write (snd e) v))"

lemma tuple_impl_bytes:
  assumes "element_appends (ign, c)"
  shows "bindr m (tuple_serialize_helper_impl (tuple_serialize_type_check (is_fund c) ign) c v) =
    bindr m (\<lambda>b. mapr ((@) b) (element_bytes (ign, c) v))"
proof (cases ign)
  case True
  with assms show ?thesis
    by (cases m) (simp_all add: element_bytes_def element_appends_def tuple_serialize_helper_impl_def
        tuple_serialize_type_check_def)
next
  case False
  with assms appends_bindr [of "item_write c v" m] show ?thesis
    by (simp add: element_bytes_def element_appends_def tuple_impl_write)
qed

lemma tuple_val_concat:
  "list_all element_appends (e # es) \<Longrightarrow> length vs = length (e # es) \<Longrightarrow>
   wr (tuple_val_codec e es) (V_tup vs) [] = concat_res (map2 element_bytes (rev (e # es)) vs)"
proof (induction e es arbitrary: vs rule: tuple_val_codec.induct)
  case (1 ign c)
  then obtain v where "vs = [v]" by (cases vs) auto
  with 1 tuple_impl_bytes [of ign c "Inr []" v] show ?case
    by (cases "element_bytes (ign, c) v") (auto simp: via_def tuple_one_def)
next
  case (2 ign c e es)
  from "2.prems"(2) obtain us v where vs: "vs = us @ [v]" "length us = length (e # es)"
    by (cases vs rule: rev_cases) auto
  from "2.IH" [of us] "2.prems" tuple_impl_bytes [of ign c] vs
  have "wr (tuple_val_codec (ign, c) (e # es)) (V_tup vs) [] =
      concat_res (map2 element_bytes (rev (e # es)) us @ [element_bytes (ign, c) v])"
    by (simp add: via_def tuple_snoc_def split_last_def concat_res_snoc)
  moreover have "zip (rev (e # es) @ [(ign, c)]) vs = zip (rev (e # es)) us @ [((ign, c), v)]"
    unfolding vs(1) by (subst zip_append) (simp_all add: vs(2))
  ultimately show ?case by (simp only: rev.simps(2) [of "(ign, c)"]) simp
qed

lemma amp_write_eq: "amp_write c = item_write c"
  by (intro ext) (simp add: amp_write_def item_write_def)

lemma nth_fields_appends: "\<forall>c\<in>set cs. \<forall>v. appends (item_write c v) \<Longrightarrow> fields_append (nth_fields i cs)"
  by (induction cs arbitrary: i) (simp_all add: nth_field_def serialize_field_def amp_write_eq)

lemma struct_write_concat:
  "\<forall>c\<in>set cs. \<forall>v. appends (item_write c v) \<Longrightarrow> length vs = length cs \<Longrightarrow> i = length us \<Longrightarrow>
   struct_write (nth_fields i cs) (V_tup (us @ vs)) [] = concat_res (map2 (\<lambda>c v. item_write c v []) cs vs)"
proof (induction cs arbitrary: i us vs)
  case Nil
  then show ?case by simp
next
  case (Cons c cs)
  then obtain v vs' where vs: "vs = v # vs'" by (cases vs) auto
  have "f_write (nth_field i c) (V_tup (us @ vs)) = item_write c v"
    using Cons.prems vs by (simp add: nth_field_def serialize_field_def amp_write_eq nth_append)
  moreover have "fields_append (nth_fields (Suc i) cs)"
    using Cons.prems(1) by (simp add: nth_fields_appends)
  note appends_bindr [OF struct_write_appends [OF this, of "V_tup (us @ vs)"], of "item_write c v []"]
  ultimately show ?case
    using Cons.IH [of vs' "Suc i" "us @ [v]"] Cons.prems vs by simp
qed

section \<open>Every writer is the encoder\<close>

definition emits :: "val codec \<Rightarrow> wire \<Rightarrow> (val \<Rightarrow> bool) \<Rightarrow> bool" where
  "emits c w P \<longleftrightarrow>
     is_fund c = fundamental w \<and> w \<noteq> W_none \<and> (\<forall>v. P v \<longrightarrow> wr c v [] = encode w v)"

lemma emits_item:
  assumes "emits c w P" "P v"
  shows "item_write c v [] = nested w (encode w v)"
proof -
  have "bindr m (\<lambda>t. write_sub t []) = bindr m with_size" for m
    by (cases m) (simp_all add: write_sub_empty)
  with assms show ?thesis by (simp add: emits_def item_write_def nested_def)
qed

lemma emits_items:
  assumes "emits c w P" "list_all P vs"
  shows "map (\<lambda>v. item_write c v []) vs = map (\<lambda>v. nested w (encode w v)) vs"
  using assms(2) emits_item [OF assms(1)] by (simp add: list_all_iff)

lemma emits_mono: "emits c w P \<Longrightarrow> (\<And>v. Q v \<Longrightarrow> P v) \<Longrightarrow> emits c w Q"
  by (auto simp: emits_def)

text \<open>A sequence, whatever the reader of its container does.\<close>

lemma emits_seq:
  assumes "codec d ok" "emits d w P" "\<not> is_fund c"
    and "\<And>vs. wr c (V_seq vs) [] = bindr (write_auto False (of_nat (length vs)) []) (items_write d vs)"
  shows "emits c (W_seq w) (on_seq s P Q)"
  using assms
  by (auto simp: emits_def [of c] on_seq_iff sized_items_concat [OF assms(1)] emits_items [OF assms(2)])

lemma emits_pair:
  assumes "codec c ok" "codec d ok'" "emits c w P" "emits d u Q" "P x" "Q y"
  shows "wr (pair_codec c d) (x, y) [] = encode (W_tup [w, u]) (V_tup [x, y])"
proof -
  have "wr (pair_codec c d) (x, y) [] =
      bindr (item_write c x []) (\<lambda>b. mapr ((@) b) (item_write d y []))"
    by (simp add: pair_codec_def Let_def tuple_write_defs
        appends_bindr [OF codec.item_write_appends [OF assms(2)]])
  also have "\<dots> = encode (W_tup [w, u]) (V_tup [x, y])"
    using emits_item [OF assms(3,5)] emits_item [OF assms(4,6)]
    by (cases "nested w (encode w x)"; cases "nested u (encode u y)") simp_all
  finally show ?thesis .
qed

text \<open>Lists of elements and of fields, against the shapes of their types.\<close>

definition writes_part :: "(nat \<Rightarrow> val comparison) \<Rightarrow> (val \<Rightarrow> bytes res) \<Rightarrow> sty \<Rightarrow> bool" where
  "writes_part cmps g T \<longleftrightarrow>
     (\<forall>v. typed False cmps T v \<longrightarrow> g v = nested (wire_of T) (encode (wire_of T) v))"

lemma writes_part_item:
  "emits c (wire_of T) (typed False cmps T) \<Longrightarrow> writes_part cmps (\<lambda>v. item_write c v []) T"
  by (simp add: writes_part_def emits_item)

lemma parts_concat:
  assumes "list_all2 (writes_part cmps) gs Ts" "list_all2 (\<lambda>R. R) (map (typed False cmps) Ts) vs"
  shows "concat_res (map2 (\<lambda>g v. g v) gs vs) = encode (W_tup (map wire_of Ts)) (V_tup vs)"
proof -
  have "map2 (\<lambda>g v. g v) gs vs =
      map2 (\<lambda>(w, f) x. nested w (f x)) (zip (map wire_of Ts) (map encode (map wire_of Ts))) vs"
    using assms
  proof (induction gs Ts arbitrary: vs rule: list_all2_induct)
    case Nil
    then show ?case by simp
  next
    case (Cons g gs T Ts)
    from Cons.prems obtain v vs' where "vs = v # vs'" "typed False cmps T v"
      "list_all2 (\<lambda>R. R) (map (typed False cmps) Ts) vs'"
      by (auto simp: list_all2_Cons1)
    with Cons.hyps(1) Cons.IH show ?case by (simp add: writes_part_def)
  qed
  then show ?thesis by simp
qed

lemma tuple_elements_parts:
  assumes "\<And>T c. T \<in> set Ts \<Longrightarrow> codec_of cmps T = Some c \<Longrightarrow> emits c (wire_of T) (typed False cmps T)"
    and "those (map2 tuple_element Ts (map (codec_of cmps) Ts)) = Some es"
  shows "list_all2 (writes_part cmps) (map element_bytes es) Ts \<and> list_all element_appends es"
  using assms
proof (induction Ts arbitrary: es)
  case Nil
  then show ?case by simp
next
  case (Cons T Ts)
  from Cons.prems(2) obtain e es' where e: "tuple_element T (codec_of cmps T) = Some e"
    and es': "those (map2 tuple_element Ts (map (codec_of cmps) Ts)) = Some es'" "es = e # es'"
    by (auto split: option.splits)
  have "writes_part cmps (element_bytes e) T \<and> element_appends e"
  proof (cases "is_std_ignore T")
    case True
    with e have "e = (True, ignore_codec)" "wire_of T = W_none"
      by (auto simp: tuple_element_def is_std_ignore_def)
    then show ?thesis
      by (simp add: writes_part_def element_bytes_def element_appends_def nested_def ignore_codec_def)
  next
    case False
    with e obtain c where c: "codec_of cmps T = Some c" "e = (False, c)" by (auto simp: tuple_element_def)
    have "element_bytes e = (\<lambda>v. item_write c v [])" by (rule ext) (simp add: c element_bytes_def)
    with writes_part_item [OF Cons.prems(1) [of T c]] codec.item_write_appends [OF codec_of_codec [OF c(1)]] c
    show ?thesis by (simp add: element_appends_def)
  qed
  with Cons.IH [OF Cons.prems(1) es'(1)] es'(2) show ?case by simp
qed

lemma those_codecs_parts:
  assumes "\<And>T c. T \<in> set Ts \<Longrightarrow> codec_of cmps T = Some c \<Longrightarrow> emits c (wire_of T) (typed False cmps T)"
    and "those (map (codec_of cmps) Ts) = Some cs"
  shows "list_all2 (writes_part cmps) (map (\<lambda>c v. item_write c v []) cs) Ts \<and>
    (\<forall>c\<in>set cs. \<forall>v. appends (item_write c v))"
  using assms
proof (induction Ts arbitrary: cs)
  case Nil
  then show ?case by simp
next
  case (Cons T Ts)
  from Cons.prems(2) obtain c cs' where c: "codec_of cmps T = Some c"
    and cs': "those (map (codec_of cmps) Ts) = Some cs'" "cs = c # cs'"
    by (auto split: option.splits)
  with Cons.IH [OF Cons.prems(1) cs'(1)] writes_part_item [OF Cons.prems(1) [OF _ c]]
    codec.item_write_appends [OF codec_of_codec [OF c]]
  show ?case by simp
qed

lemma list_like_not_fund:
  assumes "is_std_list_like T" "codec_of cmps T = Some d"
  shows "\<not> is_fund d"
proof -
  from assms(1) obtain k Ts where T: "T = TInst k Ts" and k: "overload_of k = List_like_overload"
    by (auto simp: is_std_list_like_def is_instance_def overload_of_def split: sty.splits tmpl.splits)
  with assms(2) have "overload_codec cmps (overload_of k) (TInst k Ts) Ts (map (codec_of cmps) Ts) = Some d"
    by (simp add: select_overload_def candidates_inst)
  then show ?thesis
    by (cases rule: inst_cases)
      (use k in \<open>auto simp: via_def array_codec_def forward_list_codec_def list_like_codec_def\<close>)
qed

lemma map_entries:
  assumes "codec d ok" "codec e ok'" "emits d w P" "emits e u Q"
    and "list_all (on_tup (\<lambda>es. list_all2 (\<lambda>R. R) [P, Q] es)) vs"
  shows "map ((\<lambda>p. item_write (pair_codec d e) p []) \<circ> un_pair) vs =
    map (\<lambda>x. nested (W_tup [w, u]) (encode (W_tup [w, u]) x)) vs"
proof -
  have "item_write (pair_codec d e) (un_pair x) [] = nested (W_tup [w, u]) (encode (W_tup [w, u]) x)"
    if "x \<in> set vs" for x
  proof -
    from assms(5) that obtain a b where x: "x = V_tup [a, b]" "P a" "Q b"
      by (auto simp: list_all_iff on_tup_iff list_all2_Cons1)
    have "bindr m (\<lambda>t. write_sub t []) = bindr m with_size" for m
      by (cases m) (simp_all add: write_sub_empty)
    moreover have "\<not> is_fund (pair_codec d e)" by (simp add: pair_codec_def Let_def)
    ultimately show ?thesis
      using emits_pair [OF assms(1-4) x(2,3)] by (simp add: item_write_def nested_def x(1) un_pair_def del: encode.simps)
  qed
  then show ?thesis by simp
qed

lemma inst_emits:
  assumes IH: "\<And>T c. T \<in> set Ts \<Longrightarrow> codec_of cmps T = Some c \<Longrightarrow> emits c (wire_of T) (typed False cmps T)"
    and c: "overload_codec cmps (overload_of k) (TInst k Ts) Ts (map (codec_of cmps) Ts) = Some c"
  shows "emits c (wire_inst k (map wire_of Ts)) (typed_inst False cmps k Ts (map (typed False cmps) Ts))"
  using c
proof (cases rule: inst_cases)
  case (sequence_like T d g Q)
  have "emits c (W_seq (wire_of T)) (on_seq False (typed False cmps T) Q)"
    by (rule emits_seq [OF codec_of_codec IH])
      (use sequence_like in \<open>auto simp: via_def array_codec_def forward_list_codec_def list_like_codec_def\<close>)
  then show ?thesis using sequence_like by (auto simp: wire_inst_def)
next
  case (adaptor T d)
  then have "\<not> is_fund d" by (simp add: list_like_not_fund)
  with adaptor IH [of T d] show ?thesis by (simp add: wire_inst_def emits_def adaptor_codec_def)
next
  case (set T d kind n)
  have "emits c (W_seq (wire_of T)) (on_seq False (typed False cmps T) (well_ordered kind (cmps n) (\<lambda>x. x)))"
    by (rule emits_seq [OF codec_of_codec IH]) (use set in \<open>auto simp: via_def set_codec_def\<close>)
  then show ?thesis using set by (simp add: wire_inst_def)
next
  case (map_like T U d e kind n)
  have cd: "codec d (typed True cmps T)" "codec e (typed True cmps U)"
    using map_like codec_of_codec by blast+
  have em: "emits d (wire_of T) (typed False cmps T)" "emits e (wire_of U) (typed False cmps U)"
    by (rule IH; use map_like in simp)+
  note p = seq_codec.axioms(1) [OF pair_seq [OF cd]]
  have "emits c (W_seq (W_tup [wire_of T, wire_of U]))
      (on_seq False (on_tup (\<lambda>es. list_all2 (\<lambda>R. R) [typed False cmps T, typed False cmps U] es))
        (\<lambda>vs. well_ordered kind (cmps n) fst (map un_pair vs)))"
    unfolding emits_def
  proof (intro conjI allI impI)
    fix v
    assume "on_seq False (on_tup (\<lambda>es. list_all2 (\<lambda>R. R) [typed False cmps T, typed False cmps U] es))
        (\<lambda>vs. well_ordered kind (cmps n) fst (map un_pair vs)) v"
    then obtain vs where v: "v = V_seq vs"
      and es: "list_all (on_tup (\<lambda>es. list_all2 (\<lambda>R. R) [typed False cmps T, typed False cmps U] es)) vs"
      by (auto simp: on_seq_iff)
    show "wr c v [] = encode (W_seq (W_tup [wire_of T, wire_of U])) v"
      by (simp add: v map_like(4) via_def map_codec_def sized_items_concat [OF p] map_entries [OF cd em es]
          del: encode.simps(8))
  qed (simp_all add: map_like(4) via_def map_codec_def)
  then show ?thesis using map_like by (simp add: wire_inst_def)
next
  case (pair T U d e)
  have cd: "codec d (typed True cmps T)" "codec e (typed True cmps U)"
    using pair codec_of_codec by blast+
  have em: "emits d (wire_of T) (typed False cmps T)" "emits e (wire_of U) (typed False cmps U)"
    by (rule IH; use pair in simp)+
  have "emits c (W_tup [wire_of T, wire_of U])
      (on_tup (\<lambda>vs. list_all2 (\<lambda>R. R) [typed False cmps T, typed False cmps U] vs))"
    using emits_pair [OF cd em]
    by (auto simp: emits_def on_tup_iff list_all2_Cons1 pair(4) via_def un_pair_def simp del: encode.simps(8))
      (simp add: pair_codec_def Let_def)
  then show ?thesis using pair by (simp add: wire_inst_def)
next
  case (complex T d)
  have cd: "appends (wr d v)" for v
    using complex codec.wr_appends [OF codec_of_codec] by blast
  have em: "emits d (wire_of T) (typed False cmps T)" by (rule IH) (use complex in auto)
  have "wr (complex_codec d) (x, y) [] = encode (W_tup [wire_of T, wire_of T]) (V_tup [x, y])"
    if "typed False cmps T x" "typed False cmps T y" for x y
    using em that appends_bindr [OF cd [of y], of "wr d x []"] complex(3)
    by (cases "encode (wire_of T) x"; cases "encode (wire_of T) y")
      (simp_all add: emits_def complex_codec_def nested_def)
  then have "emits c (W_tup [wire_of T, wire_of T])
      (on_tup (\<lambda>vs. list_all2 (\<lambda>R. R) [typed False cmps T, typed False cmps T] vs))"
    by (auto simp: emits_def on_tup_iff list_all2_Cons1 complex(4) via_def un_pair_def simp del: encode.simps(8))
      (simp add: complex_codec_def)
  then show ?thesis using complex by (simp add: wire_inst_def)
next
  case (owned T d)
  have cd: "appends (wr d v)" for v
    using owned codec.wr_appends [OF codec_of_codec] by blast
  have em: "emits d (wire_of T) (typed False cmps T)" by (rule IH) (use owned in auto)
  have "wr d x [1] = mapr ((#) 1) (encode (wire_of T) x)" if "typed False cmps T x" for x
    using em that appendsD [OF cd [of x], of "[1]"] by (cases "wr d x []") (auto simp: emits_def)
  with owned show ?thesis
    by (auto simp: wire_inst_def emits_def via_def unique_ptr_codec_def bool_write split: val.splits option.splits)
next
  case (tuple e es es')
  note parts = tuple_elements_parts [OF IH tuple(1)]
  have es: "es' = rev (e # es)" using tuple(2) by (simp add: rev_swap)
  have "wr c (V_tup vs) [] = encode (W_tup (map wire_of Ts)) (V_tup vs)"
    if vs: "list_all2 (\<lambda>R. R) (map (typed False cmps) Ts) vs" for vs
  proof -
    have "length vs = length (e # es)"
      using list_all2_lengthD [OF vs] list_all2_lengthD [OF conjunct1 [OF parts]] es by simp
    moreover have "list_all element_appends (e # es)" using parts es by (auto simp: list_all_iff)
    ultimately have "wr c (V_tup vs) [] = concat_res (map2 element_bytes es' vs)"
      using tuple_val_concat [of e es vs] by (simp add: tuple(3) es)
    also have "\<dots> = concat_res (map2 (\<lambda>g v. g v) (map element_bytes es') vs)"
      by (simp add: zip_map1 o_def case_prod_unfold)
    also have "\<dots> = encode (W_tup (map wire_of Ts)) (V_tup vs)"
      by (rule parts_concat [OF conjunct1 [OF parts] vs])
    finally show ?thesis .
  qed
  moreover have "\<not> is_fund c"
    unfolding tuple(3) by (cases e; cases es) (simp_all add: via_def tuple_one_def tuple_snoc_def)
  ultimately show ?thesis
    using tuple by (auto simp: wire_inst_def emits_def on_tup_iff simp del: encode.simps(8))
next
  case scalar
  from c scalar show ?thesis
    by (cases rule: scalar_cases)
     (auto simp: wire_inst_def overload_of_def emits_def typed_inst_scalar on_iff via_def string_codec_def bitset_codec_def
      duration_codec_def time_point_codec_def write_auto_def bindr_Inr split: val.splits)
qed

lemma codec_of_emits: "codec_of cmps T = Some c \<Longrightarrow> emits c (wire_of T) (typed False cmps T)"
proof (induction T arbitrary: c)
  case (TFund a)
  then obtain r where r: "raw_type_of a = Some r" "c = raw_val_codec a r"
    by (auto simp: codec_of_defs split: if_splits)
  have f: "is_fund bool_codec" by (simp add: bool_codec_def)
  have "emits (raw_val_codec a r) (wire_of (TFund a)) (typed_fund False a)"
    by (cases r; cases "a = C_bool")
      (use r(1) in \<open>auto simp: emits_def raw_val_codec_def bool_val_codec_def typed_fund_def via_def bool_write f
        raw_codec_def int_codec_def write_auto_def bindr_Inr split: val.splits\<close>)
  moreover have "typed False cmps (TFund a) = typed_fund False a" by (rule ext) simp
  ultimately show ?case by (simp add: r(2))
next
  case (TEnum sg w)
  then show ?case
    by (auto simp: codec_of_defs emits_def via_def enum_codec_def write_auto_def bindr_Inr split: if_splits)
next
  case TPtr
  then show ?case
    by (auto simp: codec_of_defs emits_def via_def pointer_codec_def int_codec_def write_auto_def bindr_Inr)
next
  case TBinaryWrap
  have "wr binary_wrap_codec t [] = with_size t" for t
    by (cases "auto_serialize False (of_nat (length t))")
      (simp_all add: binary_wrap_codec_def int_codec_def write_auto_def with_size_def)
  with TBinaryWrap show ?case
    by (auto simp: codec_of_defs emits_def via_def) (simp add: binary_wrap_codec_def)
next
  case (TAutoSize sg)
  then show ?case
    by (auto simp: codec_of_defs emits_def via_def auto_codec_def int_codec_def write_auto_def bindr_Inr)
next
  case (TInst k Ts)
  have t: "typed False cmps (TInst k Ts) = typed_inst False cmps k Ts (map (typed False cmps) Ts)"
    by (rule ext) simp
  have c: "overload_codec cmps (overload_of k) (TInst k Ts) Ts (map (codec_of cmps) Ts) = Some c"
    using TInst.prems by (simp add: select_overload_def candidates_inst)
  show ?case unfolding t wire_of.simps by (rule inst_emits [OF TInst.IH c])
next
  case (TStruct Ts)
  from TStruct.prems obtain cs where cs: "those (map (codec_of cmps) Ts) = Some cs" "c = struct_val_codec cs"
    by (auto simp: codec_of_defs split: option.splits if_splits)
  note parts = those_codecs_parts [OF TStruct.IH cs(1)]
  have "wr c (V_tup vs) [] = encode (W_tup (map wire_of Ts)) (V_tup vs)"
    if vs: "list_all2 (\<lambda>R. R) (map (typed False cmps) Ts) vs" for vs
  proof -
    have l1: "length (map (typed False cmps) Ts) = length vs"
      by (rule list_all2_lengthD [OF vs])
    have l2: "length (map (\<lambda>c v. item_write c v []) cs) = length Ts"
      by (rule list_all2_lengthD [OF conjunct1 [OF parts]])
    have l: "length vs = length cs" using l1 l2 by (simp only: length_map)
    have i: "0 = length ([] :: val list)" by simp
    note w = struct_write_concat [OF conjunct2 [OF parts] l i]
    have "struct_write (nth_fields 0 cs) (V_tup vs) [] = concat_res (map2 (\<lambda>c v. item_write c v []) cs vs)"
      by (rule w [unfolded append_Nil])
    then have "wr c (V_tup vs) [] = concat_res (map2 (\<lambda>c v. item_write c v []) cs vs)"
      by (simp add: cs(2) struct_val_codec_def define_type_def Let_def)
    also have "\<dots> = concat_res (map2 (\<lambda>g v. g v) (map (\<lambda>c v. item_write c v []) cs) vs)"
      by (simp add: zip_map1 o_def case_prod_unfold)
    also have "\<dots> = encode (W_tup (map wire_of Ts)) (V_tup vs)"
      by (rule parts_concat [OF conjunct1 [OF parts] vs])
    finally show ?thesis .
  qed
  then show ?case
    by (auto simp: emits_def on_tup_iff cs(2) struct_val_codec_def define_type_def Let_def simp del: encode.simps(8))
qed (simp_all add: codec_of_defs)

end
