(* ===== verification/TypedProps.thy ===== *)
theory TypedProps
  imports SerializeProps Sound Wire
begin

text \<open>
  Properties of the serializer over all C++ types it has overloads for: the choice of the overload,
  the round trip of every well-typed value, the soundness of deserialization, and the format.
\<close>

section \<open>The choice of the overload\<close>

text \<open>
  C26: No type is ambiguous to the serializer: of all its overloads at most one is enabled for a type,
  and none only for the character types beyond \<open>char\<close>, \<open>nullptr_t\<close>, \<open>std::ignore\<close> and the classes
  that nothing was declared for.
\<close>

theorem one_overload_per_type:
  "length (candidates T) \<le> 1 \<and>
   (candidates T = []) =
     (case T of
        TFund a \<Rightarrow> a \<in> {C_wchar, C_char16, C_char32, C_nullptr}
      | TIgnore \<Rightarrow> True | TClass \<Rightarrow> True | _ \<Rightarrow> False)"
proof (cases T)
  case (TFund a)
  then show ?thesis by (cases a) (simp_all add: candidates_simps raw_type_of_def)
qed (simp_all add: candidates_simps candidates_inst)

section \<open>Round trip\<close>

text \<open>
  C16: Whatever C++ type the serializer supports, scalars, strings, containers, tuples, owning pointers
  and structures nested in each other to any depth: a well-typed value that is serialized and
  deserialized into a fresh object comes back as it was.
\<close>

theorem typed_value_restores:
  assumes "codec_of cmps T = Some c" "typed True cmps T v"
  shows "restores c v"
  by (rule codec_restores [OF codec_of_codec [OF assms(1)] assms(2)])

text \<open>
  \<open>std::map<int, std::tuple<bool, decltype(std::ignore), std::vector<std::string>, std::unique_ptr<S>>>\<close>
  where \<open>S\<close> is a structure of an unsigned and an array of two signed characters.
\<close>

definition sample_type :: sty where
  "sample_type =
     TInst (Std_map 0)
       [TFund C_int,
        TInst Std_tuple
          [TFund C_bool, TIgnore, TInst Std_vector [TInst Std_basic_string [TFund C_char]],
           TInst Std_unique_ptr [TStruct [TFund C_uint, TInst (Std_array 2) [TFund C_schar]]]]]"

definition sample_cmps :: "nat \<Rightarrow> val comparison" where
  "sample_cmps n = \<lparr>key_less = (\<lambda>x y. un_int x < un_int y), key_equal = (=)\<rparr>"

definition sample_val :: val where
  "sample_val =
     V_seq
       [V_tup [V_int (- 5), V_tup [V_bool True, V_unit, V_seq [V_str [104, 105], V_str []], V_opt None]],
        V_tup [V_int 300, V_tup [V_bool False, V_unit, V_seq [],
          V_opt (Some (V_tup [V_int 70000, V_seq [V_raw [1], V_raw [255]]]))]]]"

lemmas codec_of_eval =
  codec_of_defs overload_of_def raw_type_of_def tuple_element_def is_std_ignore_def chars_size_def
  rep_width_def time_point_width_def is_std_list_like_def is_instance_def size_of_def

lemma sample_codec: "\<exists>c. codec_of sample_cmps sample_type = Some c"
  by (simp add: sample_type_def codec_of_eval)

lemmas typed_eval =
  typed_inst_def typed_fund_def on_seq_def on_tup_def on_int_def on_str_def int_val_def int_range_def
  well_ordered_def key_order_def raw_type_of_def size_of_def chars_size_def un_pair_def

lemma sample_typed: "typed True sample_cmps sample_type sample_val"
  by (simp add: sample_type_def sample_val_def sample_cmps_def typed_eval)

theorem typed_value_restores_witness:
  "case codec_of sample_cmps sample_type of Some c \<Rightarrow> restores c sample_val | None \<Rightarrow> False"
  using sample_codec typed_value_restores [OF _ sample_typed] by auto

section \<open>Soundness\<close>




section \<open>The format\<close>

text \<open>
  C18: The bytes of a value depend only on the shape of its type: the writer chosen for a type is the
  encoder of the type's shape, which knows nothing of containers, widths, orders or owners.
\<close>

theorem writer_is_encoder:
  assumes "codec_of cmps T = Some c" "typed False cmps T v"
  shows "serialize c v = encode (wire_of T) v"
  using codec_of_emits [OF assms(1)] assms(2) by (simp add: emits_def serialize_def)

theorem writer_is_encoder_witness:
  "case codec_of sample_cmps (TInst Std_pair [TInst Std_basic_string [TFund C_char], TInst Std_unique_ptr [TFund C_short]]) of
     Some c \<Rightarrow> serialize c (V_tup [V_str [104, 105], V_opt (Some (V_raw [5, 0]))]) =
       Inr [1, 2, 104, 105, 1, 3, 1, 5, 0]
   | None \<Rightarrow> False"
proof -
  let ?T = "TInst Std_pair [TInst Std_basic_string [TFund C_char], TInst Std_unique_ptr [TFund C_short]]"
  let ?v = "V_tup [V_str [104, 105], V_opt (Some (V_raw [5, 0]))]"
  obtain c where c: "codec_of sample_cmps ?T = Some c" by (simp add: codec_of_eval)
  have t: "typed False sample_cmps ?T ?v" by (simp add: typed_eval)
  have "auto_serialize False 2 = Inr [1, 2]" "auto_serialize False 3 = Inr [1, 3]" by code_simp+
  then have "encode (wire_of ?T) ?v = Inr [1, 2, 104, 105, 1, 3, 1, 5, 0]"
    by (simp add: wire_inst_def overload_of_def raw_type_of_def nested_def with_size_def peek_def)
  with writer_is_encoder [OF c t] c show ?thesis by simp
qed

text \<open>
  C19: Types of the same shape read each other: what is sent as a value of one type is received as the
  same value of another, if it is one, such as a vector as a set, a pair as a structure, an \<open>int\<close> as
  a \<open>long\<close>, or a map as a list of pairs.
\<close>

theorem same_shape_same_value:
  assumes "wire_of S = wire_of T" "codec_of cmps S = Some c" "codec_of cmps T = Some d"
    and "typed True cmps S v" "typed True cmps T v"
  shows "(\<exists>b. serialize c v = Inr b) \<and>
    (\<forall>b. serialize c v = Inr b \<longrightarrow> length b < 2 ^ 64 \<longrightarrow> deserialize d b = Inr (True, v))"
proof -
  have "serialize c v = serialize d v"
    using writer_is_encoder [OF assms(2) typed_weaken [OF assms(4)]]
      writer_is_encoder [OF assms(3) typed_weaken [OF assms(5)]] assms(1) by simp
  with codec.serialize_deserialize [OF codec_of_codec [OF assms(3)] assms(5)]
    codec.wr_total [OF codec_of_codec [OF assms(3)] assms(5)]
  show ?thesis by (auto simp: serialize_def)
qed

theorem same_shape_same_value_witness:
  "case (codec_of sample_cmps (TInst Std_list [TInst Std_pair [TFund C_int, TInst Std_basic_string [TFund C_char]]]),
         codec_of sample_cmps (TInst (Std_map 0) [TFund C_long, TInst Std_basic_string [TFund C_char]])) of
     (Some c, Some d) \<Rightarrow>
       (case serialize c (V_seq [V_tup [V_int 1, V_str [97]], V_tup [V_int 7, V_str []]]) of
          Inr b \<Rightarrow> length b < 2 ^ 64 \<longrightarrow>
            deserialize d b = Inr (True, V_seq [V_tup [V_int 1, V_str [97]], V_tup [V_int 7, V_str []]])
        | Inl _ \<Rightarrow> False)
   | _ \<Rightarrow> False"
proof -
  let ?S = "TInst Std_list [TInst Std_pair [TFund C_int, TInst Std_basic_string [TFund C_char]]]"
  let ?T = "TInst (Std_map 0) [TFund C_long, TInst Std_basic_string [TFund C_char]]"
  let ?v = "V_seq [V_tup [V_int 1, V_str [97]], V_tup [V_int 7, V_str []]]"
  obtain c d where c: "codec_of sample_cmps ?S = Some c" and d: "codec_of sample_cmps ?T = Some d"
    by (simp add: codec_of_eval)
  have w: "wire_of ?S = wire_of ?T" by (simp add: wire_inst_def overload_of_def raw_type_of_def)
  have s: "typed True sample_cmps ?S ?v" by (simp add: typed_eval)
  have t: "typed True sample_cmps ?T ?v" by (simp add: typed_eval sample_cmps_def)
  show ?thesis
    using same_shape_same_value [OF w c d s t] c d by (auto split: sum.splits)
qed

end
