(* ===== verification/Callable.thy ===== *)
theory Callable
  imports Prelude
begin

text \<open>
  The headers under \<open>detail/callable\<close>, and how \<open>request::rsp\<close> and \<open>rpc::subscribe\<close> choose an
  overload for a callback with them. This code runs in the compiler: a class template is a function
  on types, its specializations are the equations, and \<open>None\<close> is a type that is not defined, so that
  using it does not compile. The traits are those of a C++17 build, in which \<open>noexcept\<close> belongs to the
  type of a function.
\<close>

section \<open>Types of C++\<close>

datatype ref_qual = no_ref | lref | rref

datatype fun_quals = Quals (q_const: bool) (q_volatile: bool) (q_ref: ref_qual) (q_noexcept: bool)

text \<open>
  A function type has qualifiers (those of a member function are part of its type); \<open>MemPtr\<close> is a
  pointer to a member function of a class. Of a class only its call operator matters: \<open>None\<close> if it has
  none, or several, or a template. \<open>Rr\<close> is \<open>std::shared_ptr<request_response_impl<Req, Rsp>>\<close>.
\<close>

datatype ty =
    Void
  | Named string
  | Cv bool bool ty
  | LRef ty
  | RRef ty
  | Ptr ty
  | Fun ty "ty list" fun_quals
  | MemPtr ty ty
  | Class string "ty option"
  | Rr ty ty

abbreviation plain :: fun_quals where
  "plain \<equiv> Quals False False no_ref False"

text \<open>\<open>std::function<Ret(Args...)>\<close>, whose call operator is const.\<close>

definition std_function :: "ty \<Rightarrow> ty option" where
  "std_function f =
     (case f of Fun r as (Quals False False no_ref False) \<Rightarrow>
        Some (Class ''std::function'' (Some (Fun r as (Quals True False no_ref False))))
      | _ \<Rightarrow> None)"

section \<open>helpers.hpp\<close>

fun remove_reference :: "ty \<Rightarrow> ty" where
  "remove_reference (LRef t) = t"
| "remove_reference (RRef t) = t"
| "remove_reference t = t"

fun remove_cv :: "ty \<Rightarrow> ty" where
  "remove_cv (Cv c v t) = remove_cv t"
| "remove_cv t = t"

definition remove_cvref :: "ty \<Rightarrow> ty" where
  "remove_cvref t = remove_cv (remove_reference t)"

fun types_count :: "'t list \<Rightarrow> nat" where
  "types_count [] = 0"
| "types_count (t # ts) = types_count ts + 1"

fun types_n :: "nat \<Rightarrow> 't list \<Rightarrow> 't option" where
  "types_n n [] = None"
| "types_n (Suc n) (t # ts) = types_n n ts"
| "types_n 0 (t # ts) = Some t"

fun types_has :: "'t \<Rightarrow> 't list \<Rightarrow> bool" where
  "types_has q [] = False"
| "types_has q (t # ts) = (if t = q then True else types_has q ts)"

section \<open>function.hpp\<close>

record fun_traits =
  function_type :: ty
  return_type :: ty
  argc :: nat
  arg_types :: "ty list"

definition argument_type :: "nat \<Rightarrow> 'a fun_traits_scheme \<Rightarrow> ty option" where
  "argument_type n t = types_n n (arg_types t)"

fun function_traits :: "ty \<Rightarrow> fun_traits option" where
  "function_traits (Fun r as (Quals False False no_ref False)) =
     Some \<lparr>function_type = Fun r as plain, return_type = r, argc = types_count as, arg_types = as\<rparr>"
| "function_traits t = None"

text \<open>The trait of the same name outside \<open>detail\<close>.\<close>

fun function_traits_cvref :: "ty \<Rightarrow> fun_traits option" where
  "function_traits_cvref (Ptr f) = function_traits (remove_cvref f)"
| "function_traits_cvref f = function_traits (remove_cvref f)"

section \<open>member_function.hpp\<close>

datatype qual_tag = const_tag | volatile_tag | lref_tag | rref_tag | noexcept_tag

record mem_traits = fun_traits +
  class_type :: ty
  is_const :: bool
  is_volatile :: bool
  is_lref :: bool
  is_rref :: bool
  is_noexcept :: bool

definition member_function_traits_q :: "ty \<Rightarrow> ty \<Rightarrow> qual_tag list \<Rightarrow> mem_traits option" where
  "member_function_traits_q c f qs =
     map_option (\<lambda>t. fun_traits.extend t
       \<lparr>class_type = c, is_const = types_has const_tag qs, is_volatile = types_has volatile_tag qs,
        is_lref = types_has lref_tag qs, is_rref = types_has rref_tag qs,
        is_noexcept = types_has noexcept_tag qs\<rparr>) (function_traits f)"

text \<open>The twenty-four specializations, by the qualifiers they match, in the order of the code.\<close>

fun qual_tags :: "fun_quals \<Rightarrow> qual_tag list" where
  "qual_tags (Quals False False no_ref False) = []"
| "qual_tags (Quals True False no_ref False) = [const_tag]"
| "qual_tags (Quals False True no_ref False) = [volatile_tag]"
| "qual_tags (Quals True True no_ref False) = [const_tag, volatile_tag]"
| "qual_tags (Quals False False lref False) = [lref_tag]"
| "qual_tags (Quals True False lref False) = [const_tag, lref_tag]"
| "qual_tags (Quals False True lref False) = [volatile_tag, lref_tag]"
| "qual_tags (Quals True True lref False) = [const_tag, volatile_tag, lref_tag]"
| "qual_tags (Quals False False rref False) = [rref_tag]"
| "qual_tags (Quals True False rref False) = [const_tag, rref_tag]"
| "qual_tags (Quals False True rref False) = [volatile_tag, rref_tag]"
| "qual_tags (Quals True True rref False) = [const_tag, volatile_tag, rref_tag]"
| "qual_tags (Quals False False no_ref True) = [noexcept_tag]"
| "qual_tags (Quals True False no_ref True) = [const_tag, noexcept_tag]"
| "qual_tags (Quals False True no_ref True) = [volatile_tag, noexcept_tag]"
| "qual_tags (Quals True True no_ref True) = [const_tag, volatile_tag, noexcept_tag]"
| "qual_tags (Quals False False lref True) = [lref_tag, noexcept_tag]"
| "qual_tags (Quals True False lref True) = [const_tag, lref_tag, noexcept_tag]"
| "qual_tags (Quals False True lref True) = [volatile_tag, lref_tag, noexcept_tag]"
| "qual_tags (Quals True True lref True) = [const_tag, volatile_tag, lref_tag, noexcept_tag]"
| "qual_tags (Quals False False rref True) = [rref_tag, noexcept_tag]"
| "qual_tags (Quals True False rref True) = [const_tag, rref_tag, noexcept_tag]"
| "qual_tags (Quals False True rref True) = [volatile_tag, rref_tag, noexcept_tag]"
| "qual_tags (Quals True True rref True) = [const_tag, volatile_tag, rref_tag, noexcept_tag]"

fun member_function_traits :: "ty \<Rightarrow> mem_traits option" where
  "member_function_traits (MemPtr c (Fun r as q)) = member_function_traits_q c (Fun r as plain) (qual_tags q)"
| "member_function_traits t = None"

definition member_function_traits_cvref :: "ty \<Rightarrow> mem_traits option" where
  "member_function_traits_cvref t = member_function_traits (remove_cvref t)"

section \<open>functor.hpp\<close>

text \<open>\<open>decltype(&Class::operator())\<close>.\<close>

fun call_operator :: "ty \<Rightarrow> ty option" where
  "call_operator (Class c (Some f)) = Some (MemPtr (Class c (Some f)) f)"
| "call_operator t = None"

definition call_operator_traits :: "ty \<Rightarrow> mem_traits option" where
  "call_operator_traits c = Option.bind (call_operator c) member_function_traits"

definition functor_traits :: "ty \<Rightarrow> fun_traits option" where
  "functor_traits c = Option.bind (call_operator_traits c) (\<lambda>t. function_traits (function_type t))"

definition functor_traits_cvref :: "ty \<Rightarrow> fun_traits option" where
  "functor_traits_cvref c = functor_traits (remove_cvref c)"

section \<open>callable.hpp\<close>

datatype category = function_tag | function_ptr_tag | functor_tag

fun detail_callable_traits :: "ty \<Rightarrow> (category \<times> fun_traits) option" where
  "detail_callable_traits (Fun r as (Quals False False no_ref False)) =
     map_option (Pair function_tag) (function_traits (Fun r as plain))"
| "detail_callable_traits (Ptr (Fun r as (Quals False False no_ref False))) =
     map_option (Pair function_ptr_tag) (function_traits (Fun r as plain))"
| "detail_callable_traits t = map_option (Pair functor_tag) (functor_traits t)"

definition callable_traits :: "ty \<Rightarrow> (category \<times> fun_traits) option" where
  "callable_traits t = detail_callable_traits (remove_cvref t)"

text \<open>The type that \<open>to_stdfunction\<close> returns.\<close>

definition to_stdfunction :: "ty \<Rightarrow> ty option" where
  "to_stdfunction t = Option.bind (callable_traits t) (\<lambda>(_, t). std_function (function_type t))"

section \<open>request_response.hpp: recognizing a handler that answers later\<close>

fun is_request_response :: "ty \<Rightarrow> bool" where
  "is_request_response (Rr req rsp) = True"
| "is_request_response t = False"

text \<open>\<open>fp_is_request_response_helper\<close> with its two specializations, and the test itself.\<close>

fun fp_helper :: "fun_traits \<Rightarrow> bool \<Rightarrow> bool" where
  "fp_helper t False = False"
| "fp_helper t True =
     (case argument_type 0 t of None \<Rightarrow> False | Some a \<Rightarrow> is_request_response (remove_cvref a))"

definition fp_is_request_response :: "fun_traits \<Rightarrow> bool" where
  "fp_is_request_response t = fp_helper t (argc t = 1)"

section \<open>request::rsp and rpc::subscribe: which overload is chosen\<close>

text \<open>
  The overloads of \<open>rsp\<close> by the callback's arity, with the type that the response is unpacked as.
  Of several that are enabled none is chosen.
\<close>

datatype rsp_form = Rsp_Value_Type ty | Rsp_Value ty | Rsp_Nothing

definition rsp_argc2 :: "fun_traits \<Rightarrow> rsp_form list" where
  "rsp_argc2 t =
     (if argc t = 2
      then (case argument_type 0 t of None \<Rightarrow> [] | Some a \<Rightarrow> [Rsp_Value_Type (remove_cvref a)])
      else [])"

definition rsp_argc1 :: "fun_traits \<Rightarrow> rsp_form list" where
  "rsp_argc1 t =
     (if argc t = 1
      then (case argument_type 0 t of None \<Rightarrow> [] | Some a \<Rightarrow> [Rsp_Value (remove_cvref a)])
      else [])"

definition rsp_argc0 :: "fun_traits \<Rightarrow> rsp_form list" where
  "rsp_argc0 t = (if argc t = 0 then [Rsp_Nothing] else [])"

definition rsp_enabled :: "fun_traits \<Rightarrow> rsp_form list" where
  "rsp_enabled t = rsp_argc2 t @ rsp_argc1 t @ rsp_argc0 t"

lemmas rsp_enabled_defs = rsp_enabled_def rsp_argc2_def rsp_argc1_def rsp_argc0_def

definition rsp_overload :: "ty \<Rightarrow> rsp_form option" where
  "rsp_overload f =
     Option.bind (callable_traits f) (\<lambda>(_, t). case rsp_enabled t of [o1] \<Rightarrow> Some o1 | _ \<Rightarrow> None)"

text \<open>
  The forms of \<open>subscribe\<close>: the four specializations of \<open>subscribe_helper\<close> with the types they unpack
  and return, and the one for \<open>request_response\<close>, which is chosen without a scheduler and with one. The
  forms with a parameter call the handler with one argument, which does not compile if it takes more;
  whether the value that is unpacked binds to the parameter (it does not to a reference that is not
  \<open>const\<close>) is not part of the model.
\<close>

datatype subscribe_form =
    Ret_Param ty ty
  | Void_Param ty
  | Ret_Void ty
  | Void_Void
  | Async_Rr ty ty

definition is_void :: "ty \<Rightarrow> bool" where
  "is_void t \<longleftrightarrow> remove_cv t = Void"

fun subscribe_helper :: "fun_traits \<Rightarrow> bool \<Rightarrow> bool \<Rightarrow> subscribe_form option" where
  "subscribe_helper t False False =
     (if argc t = 1
      then map_option (\<lambda>a. Ret_Param (remove_cvref a) (remove_cvref (return_type t))) (argument_type 0 t)
      else None)"
| "subscribe_helper t True False =
     (if argc t = 1 then map_option (\<lambda>a. Void_Param (remove_cvref a)) (argument_type 0 t) else None)"
| "subscribe_helper t False True = Some (Ret_Void (return_type t))"
| "subscribe_helper t True True = Some Void_Void"

text \<open>
  The assertions and types at the start of the overload for \<open>request_response\<close> with a scheduler; the one
  without calls it, after an assertion that the handler returns nothing. With a scheduler it may return
  anything, such as an awaitable: the scheduler gets functions of this type.
\<close>

definition subscribe_scheduled_rr :: "fun_traits \<Rightarrow> subscribe_form option" where
  "subscribe_scheduled_rr t =
     (if argc t = 1
      then case map_option remove_cvref (argument_type 0 t) of
             Some (Rr req rsp) \<Rightarrow> Some (Async_Rr req rsp)
           | _ \<Rightarrow> None
      else None)"

definition subscribe_rr :: "fun_traits \<Rightarrow> subscribe_form option" where
  "subscribe_rr t = (if is_void (return_type t) then subscribe_scheduled_rr t else None)"

text \<open>\<open>subscribe(cmd, handle)\<close> and \<open>subscribe(cmd, handle, scheduler)\<close>.\<close>

definition subscribe_overload :: "ty \<Rightarrow> subscribe_form option" where
  "subscribe_overload f =
     Option.bind (detail_callable_traits f) (\<lambda>(_, t).
       if \<not> fp_is_request_response t
       then subscribe_helper t (is_void (return_type t)) (argc t = 0)
       else subscribe_rr t)"

definition subscribe_scheduled :: "ty \<Rightarrow> subscribe_form option" where
  "subscribe_scheduled f =
     Option.bind (detail_callable_traits f) (\<lambda>(_, t).
       if fp_is_request_response t then subscribe_scheduled_rr t else None)"

section \<open>What the traits compute\<close>

lemma types_count_length [simp]: "types_count ts = length ts"
  by (induction ts) auto

lemma types_n_nth: "types_n n ts = (if n < length ts then Some (ts ! n) else None)"
  by (induction n ts rule: types_n.induct) auto

lemma types_has_iff [simp]: "types_has q ts \<longleftrightarrow> q \<in> set ts"
  by (induction ts) auto

text \<open>
  The signature of something that can be called, as one would say it: cv-qualifiers and references
  aside, a function, a pointer to one, or an object of a class with one call operator, whatever the
  qualifiers of that.
\<close>

fun bare_signature :: "ty \<Rightarrow> (ty \<times> ty list) option" where
  "bare_signature (Fun r as q) = (if q = plain then Some (r, as) else None)"
| "bare_signature (Ptr (Fun r as q)) = (if q = plain then Some (r, as) else None)"
| "bare_signature (Class c (Some (Fun r as q))) = Some (r, as)"
| "bare_signature t = None"

definition signature :: "ty \<Rightarrow> (ty \<times> ty list) option" where
  "signature t = bare_signature (remove_cvref t)"

definition traits_of :: "ty \<times> ty list \<Rightarrow> fun_traits" where
  "traits_of s =
     \<lparr>function_type = Fun (fst s) (snd s) plain, return_type = fst s, argc = length (snd s), arg_types = snd s\<rparr>"

lemma function_traits_plain [simp]: "function_traits (Fun r as plain) = Some (traits_of (r, as))"
  by (simp add: traits_of_def)

lemma function_traits_qualified: "q \<noteq> plain \<Longrightarrow> function_traits (Fun r as q) = None"
  by (cases q; cases "q_ref q"; cases "q_const q"; cases "q_volatile q"; cases "q_noexcept q") auto

lemma functor_traits_class [simp]:
  "functor_traits (Class c (Some (Fun r as q))) = Some (traits_of (r, as))"
  by (simp add: functor_traits_def call_operator_traits_def member_function_traits_q_def traits_of_def
      fun_traits.defs)

lemma functor_traits_other: "(\<And>c r as q. t \<noteq> Class c (Some (Fun r as q))) \<Longrightarrow> functor_traits t = None"
proof (cases t rule: call_operator.cases)
  case (1 c f)
  assume "\<And>c r as q. t \<noteq> Class c (Some (Fun r as q))"
  with 1 show ?thesis by (cases f) (auto simp: functor_traits_def call_operator_traits_def)
qed (auto simp: functor_traits_def call_operator_traits_def)

lemma detail_callable_traits_signature:
  "map_option snd (detail_callable_traits t) = map_option traits_of (bare_signature t)"
proof (cases t rule: bare_signature.cases)
  case (1 r as q)
  then show ?thesis
    by (cases q rule: qual_tags.cases) (auto simp: functor_traits_other traits_of_def)
next
  case (2 r as q)
  then show ?thesis
    by (cases q rule: qual_tags.cases) (auto simp: functor_traits_other traits_of_def)
qed (auto simp: functor_traits_other)

lemma detail_callable_traits_cases:
  "bare_signature t = None \<Longrightarrow> detail_callable_traits t = None"
  "bare_signature t = Some s \<Longrightarrow> \<exists>c. detail_callable_traits t = Some (c, traits_of s)"
  using detail_callable_traits_signature [of t] by (auto simp: map_option_eq_Some)

lemma callable_traits_cases:
  "signature t = None \<Longrightarrow> callable_traits t = None"
  "signature t = Some s \<Longrightarrow> \<exists>c. callable_traits t = Some (c, traits_of s)"
  by (simp_all add: signature_def callable_traits_def detail_callable_traits_cases)

lemma traits_of_simps [simp]:
  "return_type (traits_of s) = fst s" "argc (traits_of s) = length (snd s)" "arg_types (traits_of s) = snd s"
  "function_type (traits_of s) = Fun (fst s) (snd s) plain"
  by (simp_all add: traits_of_def)

lemma argument_type_nth:
  "argument_type n (traits_of s) = (if n < length (snd s) then Some (snd s ! n) else None)"
  by (simp add: argument_type_def types_n_nth)

lemma fp_is_request_response_traits:
  "fp_is_request_response (traits_of s) \<longleftrightarrow> (\<exists>a req rsp. snd s = [a] \<and> remove_cvref a = Rr req rsp)"
  by (cases "snd s" rule: remdups_adj.cases)
    (auto simp: fp_is_request_response_def argument_type_nth elim!: is_request_response.elims)

text \<open>The overload of \<open>rsp\<close> for a parameter list.\<close>

fun rsp_by_arity :: "ty list \<Rightarrow> rsp_form option" where
  "rsp_by_arity [] = Some Rsp_Nothing"
| "rsp_by_arity [a] = Some (Rsp_Value (remove_cvref a))"
| "rsp_by_arity [a, b] = Some (Rsp_Value_Type (remove_cvref a))"
| "rsp_by_arity as = None"

lemma rsp_overload_cases:
  "signature f = None \<Longrightarrow> rsp_overload f = None"
  "signature f = Some s \<Longrightarrow> rsp_overload f = rsp_by_arity (snd s)"
  using callable_traits_cases(2) [of f s]
  by (cases "snd s" rule: rsp_by_arity.cases;
      auto simp: rsp_overload_def callable_traits_cases(1) rsp_enabled_defs argument_type_nth)+

section \<open>Properties\<close>

text \<open>
  C25: The traits see through every way of writing a callback: function, pointer to function, functor or
  lambda with any qualifiers on its call operator, behind any reference and const; they give its
  return type, its arity, and its n-th parameter for every n within the arity, and are defined for
  nothing else.
\<close>

theorem callable_traits_signature:
  "map_option (\<lambda>(_, t). (return_type t, argc t, map (\<lambda>n. argument_type n t) [0..<k])) (callable_traits f) =
   map_option (\<lambda>(r, as). (r, length as, map (\<lambda>n. if n < length as then Some (as ! n) else None) [0..<k]))
     (signature f)"
proof (cases "signature f")
  case None
  then show ?thesis by (simp add: callable_traits_cases)
next
  case (Some s)
  then obtain c where "callable_traits f = Some (c, traits_of s)" using callable_traits_cases(2) by blast
  with Some show ?thesis by (simp add: argument_type_nth split_def)
qed

text \<open>
  The twenty-four specializations for member functions are complete and none is wrong: for any
  combination of const, volatile, reference qualifier and noexcept there is one, and it reports
  exactly these qualifiers, with the class, the return type and the parameters.
\<close>

theorem member_qualifiers_exact:
  "\<exists>m. member_function_traits (MemPtr c (Fun r as q)) = Some m \<and>
     class_type m = c \<and> return_type m = r \<and> arg_types m = as \<and> argc m = length as \<and>
     is_const m = q_const q \<and> is_volatile m = q_volatile q \<and> is_lref m = (q_ref q = lref) \<and>
     is_rref m = (q_ref q = rref) \<and> is_noexcept m = q_noexcept q"
  by (cases q rule: qual_tags.cases)
    (simp_all add: member_function_traits_q_def fun_traits.defs)

text \<open>
  C28: For every callback at most one overload of \<open>rsp\<close> is enabled: the arity decides, 0, 1 and 2 are
  accepted, and the response is unpacked as the first parameter without reference and qualifiers.
\<close>

theorem rsp_overload_by_arity:
  "rsp_overload f =
     (case signature f of
        None \<Rightarrow> None
      | Some (r, as) \<Rightarrow>
          (case as of
             [] \<Rightarrow> Some Rsp_Nothing
           | [a] \<Rightarrow> Some (Rsp_Value (remove_cvref a))
           | [a, b] \<Rightarrow> Some (Rsp_Value_Type (remove_cvref a))
           | _ \<Rightarrow> None))"
  by (cases "signature f") (auto simp: rsp_overload_cases split: list.split)

text \<open>
  C27: The form in which a handler is subscribed follows from its signature: whether it returns
  something, whether it has a parameter, and whether that is a \<open>request_response\<close>. A parameter is
  unpacked without reference and qualifiers; the result is stored so if there is a parameter, and as the
  type that the handler returns if there is none. A handler of a \<open>request_response\<close> may return something
  only if a scheduler is given, and no other handler may be given with one. No handler with more than one
  parameter is accepted.
\<close>

theorem subscribe_overload_by_signature:
  assumes "remove_cvref f = f"
  shows "subscribe_overload f =
     (case signature f of
        None \<Rightarrow> None
      | Some (r, as) \<Rightarrow>
          (case as of
             [] \<Rightarrow> Some (if is_void r then Void_Void else Ret_Void r)
           | [a] \<Rightarrow>
               (case remove_cvref a of
                  Rr req rsp \<Rightarrow> if is_void r then Some (Async_Rr req rsp) else None
                | p \<Rightarrow> Some (if is_void r then Void_Param p else Ret_Param p (remove_cvref r)))
           | _ \<Rightarrow> None)) \<and>
    subscribe_scheduled f =
     (case signature f of
        Some (r, [a]) \<Rightarrow> (case remove_cvref a of Rr req rsp \<Rightarrow> Some (Async_Rr req rsp) | _ \<Rightarrow> None)
      | _ \<Rightarrow> None)"
proof (cases "signature f")
  case None
  with assms show ?thesis
    by (simp add: subscribe_overload_def subscribe_scheduled_def signature_def detail_callable_traits_cases)
next
  case (Some s)
  with assms obtain c where c: "detail_callable_traits f = Some (c, traits_of s)"
    using detail_callable_traits_cases(2) [of f s] by (auto simp: signature_def)
  obtain r as where s: "s = (r, as)" by (cases s)
  show ?thesis
  proof (cases as rule: remdups_adj.cases)
    case 1
    with Some c s show ?thesis
      by (cases "is_void r")
        (simp_all add: subscribe_overload_def subscribe_scheduled_def fp_is_request_response_traits)
  next
    case (2 a)
    with Some c s show ?thesis
      by (cases "is_void r"; cases "remove_cvref a")
        (simp_all add: subscribe_overload_def subscribe_scheduled_def subscribe_scheduled_rr_def
          fp_is_request_response_traits subscribe_rr_def argument_type_nth)
  next
    case (3 a b as')
    with Some c s show ?thesis
      by (cases "is_void r")
        (simp_all add: subscribe_overload_def subscribe_scheduled_def fp_is_request_response_traits)
  qed
qed

theorem subscribe_overload_by_signature_witness:
  "subscribe_overload (Class ''lambda'' (Some (Fun Void [LRef (Cv True False (Named ''string''))]
       (Quals True False no_ref False)))) = Some (Void_Param (Named ''string'')) \<and>
   subscribe_overload (Class ''lambda'' (Some (Fun (Named ''awaitable'') [Rr (Named ''string'') (Named ''string'')]
       (Quals True False no_ref False)))) = None \<and>
   subscribe_scheduled (Class ''lambda'' (Some (Fun (Named ''awaitable'') [Rr (Named ''string'') (Named ''string'')]
       (Quals True False no_ref False)))) = Some (Async_Rr (Named ''string'') (Named ''string''))"
  using subscribe_overload_by_signature [of "Class ''lambda'' (Some (Fun Void
      [LRef (Cv True False (Named ''string''))] (Quals True False no_ref False)))"]
    subscribe_overload_by_signature [of "Class ''lambda'' (Some (Fun (Named ''awaitable'')
      [Rr (Named ''string'') (Named ''string'')] (Quals True False no_ref False)))"]
  by (simp add: remove_cvref_def signature_def is_void_def)

text \<open>
  Wrapping a callback as a \<open>std::function\<close> with \<open>to_stdfunction\<close> is possible for whatever the
  traits accept, and changes neither its signature nor the overload of \<open>rsp\<close> it is given to.
\<close>

theorem to_stdfunction_same_overload:
  "Option.bind (to_stdfunction f) signature = signature f \<and>
   Option.bind (to_stdfunction f) rsp_overload = rsp_overload f"
proof (cases "signature f")
  case None
  then show ?thesis by (simp add: to_stdfunction_def rsp_overload_def callable_traits_cases)
next
  case (Some s)
  then obtain c where "callable_traits f = Some (c, traits_of s)" using callable_traits_cases(2) by blast
  then obtain g where g: "to_stdfunction f = Some g" "signature g = Some s"
    by (cases s) (simp add: to_stdfunction_def std_function_def signature_def remove_cvref_def)
  with Some show ?thesis by (simp add: rsp_overload_cases)
qed

text \<open>
  A function that is declared \<open>noexcept\<close>, and a pointer to it, have no traits, although a functor whose
  call operator is \<open>noexcept\<close> has: there are specializations for member functions only.
\<close>

theorem noexcept_function_not_callable:
  "callable_traits (Fun r as (Quals False False no_ref True)) = None \<and>
   callable_traits (Ptr (Fun r as (Quals False False no_ref True))) = None \<and>
   callable_traits (Class c (Some (Fun r as (Quals k v rq True)))) \<noteq> None"
  using callable_traits_cases(2) [of "Class c (Some (Fun r as (Quals k v rq True)))" "(r, as)"]
  by (auto simp: signature_def remove_cvref_def intro: callable_traits_cases)

end
