(* ===== verification/Reentry.thy ===== *)
theory Reentry
  imports Balance
begin

text \<open>
  Callbacks that call the library again. In the other theories an operation runs in one piece, its
  callbacks being functions on the user's state. Here it stops wherever the code calls a function of
  the user, and what is left to do is a frame on a stack: while the user's function runs, anything
  else may happen, including further operations, which push frames of their own (a callback that
  makes a new call, a \<open>send_package_impl\<close> that delivers the package to the peer at once, as that of
  \<open>loopback_connection\<close> does, a callback that runs the event loop). Run without interruption, the
  pieces are the operations of the other theories.
\<close>

section \<open>The code after a callback\<close>

text \<open>
  One constructor per place of the code behind a call of a user's function: \<open>on_finish\<close> behind
  \<open>finally_\<close>; the lambdas of \<open>rsp\<close> behind \<open>cb\<close> and of \<open>timeout\<close> behind \<open>timeout_cb\<close>; \<open>call\<close> behind
  \<open>send_request\<close>; \<open>dispatch\<close> behind the response handler and behind a command's; the timer's lambda
  behind \<open>timeout_cb\<close>.
\<close>

datatype frame =
    AfterFinally nat
  | AfterRsp nat finally_t
  | AfterTimeout nat
  | AfterSend nat
  | EraseHandler nat seq_type
  | EraseTimer nat seq_type
  | Respond nat msg_wrapper

type_synonym 'u piece = "(frame list \<times> 'u world) res"

definition stop :: "'u world \<Rightarrow> 'u piece" where
  "stop w = Inr ([], w)"

text \<open>What a piece leaves to do is done before what is already on the stack.\<close>

definition push :: "frame \<Rightarrow> 'u piece \<Rightarrow> 'u piece" where
  "push f m = bindr m (\<lambda>(fs, w). Inr (fs @ [f], w))"

section \<open>request.hpp and request.ipp in pieces\<close>

definition finish_open :: "nat \<Rightarrow> finally_t \<Rightarrow> 'u world \<Rightarrow> 'u piece" where
  "finish_open i ty w =
     with_req i w (\<lambda>q.
       if \<not> waiting_rsp q then stop w
       else
         let w = put_req i (q\<lparr>waiting_rsp := False, finally_type := ty\<rparr>) w;
             w = log_event (Finish i ty) w
         in case finally_fn q of
              None \<Rightarrow> mapr (Pair []) (release_keeper i w)
            | Some f \<Rightarrow> Inr ([AfterFinally i], run_user (f ty) w))"

definition after_send :: "nat \<Rightarrow> 'u world \<Rightarrow> 'u piece" where
  "after_send i w =
     with_req i w (\<lambda>q. if \<not> need_rsp_flag q then finish_open i no_need_rsp w else stop w)"

text \<open>Whether sending over the connection of an rpc object runs a function of the user.\<close>

definition user_sends :: "'u world \<Rightarrow> nat \<Rightarrow> bool" where
  "user_sends w r =
     (case rpcs w r of
        None \<Rightarrow> False
      | Some x \<Rightarrow>
          (case conns w (rpc_conn x) of
             None \<Rightarrow> False
           | Some c \<Rightarrow> send_package_impl c = UserSend))"

definition call_through_open :: "coder \<Rightarrow> nat \<Rightarrow> nat \<Rightarrow> 'u world \<Rightarrow> 'u piece" where
  "call_through_open co i r w =
     bindr (make_seq r w) (\<lambda>(s, w).
     bindr (on_req i (\<lambda>q. q\<lparr>req_seq := s\<rparr>) w) (\<lambda>w.
     bindr (send_request co r i w) (\<lambda>w.
     if user_sends w r then Inr ([AfterSend i], w) else after_send i w)))"

definition call_open :: "coder \<Rightarrow> nat \<Rightarrow> nat option \<Rightarrow> 'u world \<Rightarrow> 'u piece" where
  "call_open co i rpc w =
     bindr (on_req i (\<lambda>q. q\<lparr>waiting_rsp := True\<rparr>) w) (\<lambda>w.
     with_req i w (\<lambda>q.
       if canceled_flag q then finish_open i canceled w
       else
         let q = q\<lparr>self_keeper := True\<rparr>;
             q = (case rpc of Some r \<Rightarrow> q\<lparr>req_rpc := Some r\<rparr> | None \<Rightarrow> q);
             w = put_req i q w
         in case rpc_lock q w of
              None \<Rightarrow> finish_open i rpc_expired w
            | Some r \<Rightarrow>
                with_rpc r w (\<lambda>x.
                  if \<not> rpc_is_ready x then finish_open i rpc_not_ready w
                  else call_through_open co i r w)))"

definition user_call_open :: "coder \<Rightarrow> nat \<Rightarrow> nat option \<Rightarrow> 'u world \<Rightarrow> 'u piece" where
  "user_call_open co i rpc w = call_open co i rpc (log_event (event.Call i) w)"

definition rsp_open :: "'u rsp_handle \<Rightarrow> msg_wrapper \<Rightarrow> 'u world \<Rightarrow> 'u piece" where
  "rsp_open h msg w =
     (let i = rh_this h in
      with_req i w (\<lambda>q.
        if canceled_flag q then finish_open i canceled w
        else if has_flag (m_type msg) no_such_cmd then finish_open i finally_no_such_cmd w
        else
          case rh_cb h of
            Rsp2 unpack dflt_call \<Rightarrow>
              bindr (unpack (m_data msg)) (\<lambda>(ok, cb).
                if ok then Inr ([AfterRsp i normal], run_user (cb normal) w)
                else Inr ([AfterRsp i rsp_serialize_error], run_user (dflt_call rsp_serialize_error) w))
          | Rsp1 unpack \<Rightarrow>
              bindr (unpack (m_data msg)) (\<lambda>(ok, cb).
                if ok then Inr ([AfterRsp i normal], run_user cb w)
                else finish_open i rsp_serialize_error w)
          | Rsp0 cb \<Rightarrow> Inr ([AfterRsp i normal], run_user cb w)))"

definition after_timeout :: "coder \<Rightarrow> nat \<Rightarrow> 'u world \<Rightarrow> 'u piece" where
  "after_timeout co i w =
     with_req i w (\<lambda>q.
       if retry_count q = -1 then call_open co i None w
       else if retry_count q > 0
       then bindr (on_req i (\<lambda>q. q\<lparr>retry_count := retry_count q - 1\<rparr>) w) (call_open co i None)
       else finish_open i timeout w)"

definition timeout_open :: "coder \<Rightarrow> 'u timeout_closure \<Rightarrow> 'u world \<Rightarrow> 'u piece" where
  "timeout_open co t w =
     (let i = tc_this t
      in case tc_cb t of
           None \<Rightarrow> after_timeout co i w
         | Some f \<Rightarrow> Inr ([AfterTimeout i], log_event (TimeoutCb i) (run_user f w)))"

section \<open>msg_dispatcher.hpp in pieces\<close>

definition dispatch_response_open :: "nat \<Rightarrow> 'u msg_dispatcher \<Rightarrow> msg_wrapper \<Rightarrow> 'u world \<Rightarrow> 'u piece" where
  "dispatch_response_open r d msg w =
     (case rsp_handle_map d (m_seq msg) of
        None \<Rightarrow> stop w
      | Some None \<Rightarrow> stop w
      | Some (Some cb) \<Rightarrow> push (EraseHandler r (m_seq msg)) (rsp_open cb msg w))"

definition dispatch_command_open :: "coder \<Rightarrow> 'u msg_dispatcher \<Rightarrow> msg_wrapper \<Rightarrow> 'u world \<Rightarrow> 'u piece" where
  "dispatch_command_open co d msg w =
     (let c = dispatcher_conn d in
      if has_flag (m_type msg) ping
      then mapr (Pair []) (send_msg co c (msg\<lparr>m_type := response OR pong\<rparr>) w)
      else
        case cmd_handle_map d (m_cmd msg) of
          None \<Rightarrow>
            if has_flag (m_type msg) need_rsp
            then mapr (Pair [])
                   (send_msg co c (empty_msg\<lparr>m_seq := m_seq msg, m_type := response OR no_such_cmd\<rparr>) w)
            else stop w
        | Some fn \<Rightarrow>
            bindr (run_cmd_handle co fn msg w) (\<lambda>(resp, w).
              if has_flag (m_type msg) need_rsp then Inr ([Respond c (snd resp)], w) else stop w))"

definition dispatch_open :: "coder \<Rightarrow> nat \<Rightarrow> msg_wrapper \<Rightarrow> 'u world \<Rightarrow> 'u piece" where
  "dispatch_open co r msg w =
     with_rpc r w (\<lambda>x.
       let kind = dispatch_kind (m_type msg) in
       if kind = command then dispatch_command_open co (dispatcher x) msg w
       else if kind = response then dispatch_response_open r (dispatcher x) msg w
       else stop w)"

definition recv_open :: "coder \<Rightarrow> nat \<Rightarrow> bytes \<Rightarrow> 'u world \<Rightarrow> 'u piece" where
  "recv_open co c package w =
     with_conn c w (\<lambda>x.
       case on_recv_package x of
         NoRecv \<Rightarrow> Inl NullCall
       | DefaultRecv \<Rightarrow> stop w
       | DispatcherRecv r \<Rightarrow>
           if rpcs w r = None then stop w
           else
             bindr (co_deserialize co package) (\<lambda>m.
               case m of
                 None \<Rightarrow> stop w
               | Some msg \<Rightarrow> dispatch_open co r msg w))"

definition fire_open :: "coder \<Rightarrow> 'u timer \<Rightarrow> 'u world \<Rightarrow> 'u piece" where
  "fire_open co t w =
     (case rpcs w (t_dispatcher t) of
        None \<Rightarrow> stop w
      | Some x \<Rightarrow>
          if rsp_handle_map (dispatcher x) (t_seq t) = None then stop w
          else push (EraseTimer (t_dispatcher t) (t_seq t))
                 (case t_cb t of None \<Rightarrow> stop w | Some f \<Rightarrow> timeout_open co f w))"

definition elapse_open :: "coder \<Rightarrow> nat \<Rightarrow> 'u world \<Rightarrow> 'u piece" where
  "elapse_open co n w =
     (if n < length (timers w)
      then fire_open co (timers w ! n) (w\<lparr>timers := take n (timers w) @ drop (Suc n) (timers w)\<rparr>)
      else stop w)"

text \<open>
  \<open>erase(it)\<close> behind a response handler needs an iterator that is still valid, so it faults if the
  entry has been erased meanwhile; \<open>erase(seq)\<close> of the timer does not.
\<close>

definition erase_it :: "nat \<Rightarrow> seq_type \<Rightarrow> 'u world \<Rightarrow> 'u piece" where
  [simp]: "erase_it r s w =
     with_rpc r w (\<lambda>x.
       if rsp_handle_map (dispatcher x) s = None then Inl UseAfterFree
       else stop (put_dispatcher r x (erase_rsp s (dispatcher x)) w))"

definition erase_seq :: "nat \<Rightarrow> seq_type \<Rightarrow> 'u world \<Rightarrow> 'u piece" where
  [simp]: "erase_seq r s w =
     with_rpc r w (\<lambda>x. stop (put_dispatcher r x (erase_rsp s (dispatcher x)) w))"

text \<open>The piece that follows when the user's function of the top frame has returned.\<close>

fun resume :: "coder \<Rightarrow> frame \<Rightarrow> 'u world \<Rightarrow> 'u piece" where
  "resume co (AfterFinally i) w = mapr (Pair []) (release_keeper i w)"
| "resume co (AfterRsp i ty) w = finish_open i ty w"
| "resume co (AfterTimeout i) w = after_timeout co i w"
| "resume co (AfterSend i) w = after_send i w"
| "resume co (EraseHandler r s) w = erase_it r s w"
| "resume co (EraseTimer r s) w = erase_seq r s w"
| "resume co (Respond c m) w = mapr (Pair []) (respond co c m w)"

text \<open>The three ways of \<open>call\<close>; the request as it is when the rpc object is looked up.\<close>

definition prepared :: "nat option \<Rightarrow> 'u request \<Rightarrow> 'u request" where
  "prepared rpc q =
     (case rpc of Some r \<Rightarrow> q\<lparr>waiting_rsp := True, self_keeper := True, req_rpc := Some r\<rparr>
      | None \<Rightarrow> q\<lparr>waiting_rsp := True, self_keeper := True\<rparr>)"

lemma prepared_simps [simp]:
  "waiting_rsp (prepared rpc q)" "self_keeper (prepared rpc q)" "refs (prepared rpc q) = refs q"
  "need_rsp_flag (prepared rpc q) = need_rsp_flag q" "handles_ok i (prepared rpc q) = handles_ok i q"
  by (simp_all add: prepared_def handles_ok_def split: option.split)

lemma call_open_cases:
  assumes "call_open co i rpc w = Inr p" "reqs w i = Some q"
  obtains (canceled) "canceled_flag q" "finish_open i canceled (put_req i (q\<lparr>waiting_rsp := True\<rparr>) w) = Inr p"
    | (refused) ty where "finish_open i ty (put_req i (prepared rpc q) w) = Inr p"
    | (through) r where "call_through_open co i r (put_req i (prepared rpc q) w) = Inr p"
proof -
  define w2 where "w2 = put_req i (prepared rpc q) w"
  have u: "put_req i q2 (put_req i q1 w) = put_req i q2 w" for q1 q2 by (simp add: put_req_def)
  have "(if canceled_flag q then finish_open i canceled (put_req i (q\<lparr>waiting_rsp := True\<rparr>) w)
      else case rpc_lock (prepared rpc q) w2 of
             None \<Rightarrow> finish_open i rpc_expired w2
           | Some r \<Rightarrow>
               with_rpc r w2 (\<lambda>x.
                 if \<not> rpc_is_ready x then finish_open i rpc_not_ready w2
                 else call_through_open co i r w2)) = Inr p"
    using assms unfolding w2_def
    by (cases rpc) (simp_all add: call_open_def on_req_def prepared_def Let_def put_req_def
        cong: option.case_cong if_cong)
  then show thesis
    using that unfolding w2_def by (auto simp: res_simps split: option.splits if_splits)
qed

section \<open>Without interruption\<close>

text \<open>Each frame leads to smaller ones, so a stack that nothing is pushed onto is worked off.\<close>

fun weight :: "frame \<Rightarrow> nat" where
  "weight (AfterFinally i) = 1"
| "weight (AfterRsp i ty) = 2"
| "weight (AfterTimeout i) = 3"
| "weight (AfterSend i) = 2"
| "weight (EraseHandler r s) = 1"
| "weight (EraseTimer r s) = 1"
| "weight (Respond c m) = 1"

definition weights :: "frame list \<Rightarrow> nat" where
  "weights fs = sum_list (map weight fs)"

lemma weights_simps [simp]:
  "weights [] = 0" "weights (f # fs) = weight f + weights fs" "weights (fs @ gs) = weights fs + weights gs"
  by (simp_all add: weights_def)

lemma stop_Inr [simp]: "stop w = Inr (fs, w') \<longleftrightarrow> fs = [] \<and> w' = w"
  by (auto simp: stop_def)

lemma finish_open_weight: "finish_open i ty w = Inr (fs, w') \<Longrightarrow> weights fs \<le> 1"
  by (auto simp: finish_open_def Let_def res_simps split: if_splits option.splits)

lemma after_send_weight: "after_send i w = Inr (fs, w') \<Longrightarrow> weights fs \<le> 1"
  by (auto simp: after_send_def res_simps split: if_splits dest: finish_open_weight)

lemma call_open_weight: "call_open co i rpc w = Inr (fs, w') \<Longrightarrow> weights fs \<le> 2"
  by (auto simp: call_open_def call_through_open_def Let_def res_simps
      split: if_splits option.splits dest!: finish_open_weight after_send_weight)

lemma resume_weight: "resume co f w = Inr (fs, w') \<Longrightarrow> weights fs < weight f"
  by (cases f)
    (auto simp: after_timeout_def res_simps
      split: if_splits dest!: finish_open_weight after_send_weight call_open_weight)

function drain :: "coder \<Rightarrow> frame list \<Rightarrow> 'u world \<Rightarrow> 'u world res" where
  "drain co [] w = Inr w"
| "drain co (f # fs) w = bindr (resume co f w) (\<lambda>p. drain co (fst p @ fs) (snd p))"
  by pat_completeness auto
termination
  by (relation "measure (\<lambda>(co, fs, w). weights fs)") (auto dest: resume_weight)

definition completed :: "coder \<Rightarrow> 'u piece \<Rightarrow> 'u world res" where
  "completed co m = bindr m (\<lambda>p. drain co (fst p) (snd p))"

lemma drain_append: "drain co (fs @ gs) w = bindr (drain co fs w) (drain co gs)"
proof (induction co fs w arbitrary: gs rule: drain.induct)
  case (2 co f fs w)
  then show ?case by (cases "resume co f w") simp_all
qed simp

lemma completed_simps [simp]:
  "completed co (stop w) = Inr w" "completed co (Inl e) = Inl e" "completed co (Inr (fs, w)) = drain co fs w"
  "completed co (mapr (Pair []) m) = m" "completed co (with_req i w f) = with_req i w (\<lambda>q. completed co (f q))"
  "completed co (with_rpc r w g) = with_rpc r w (\<lambda>x. completed co (g x))"
  "completed co (with_conn c w h) = with_conn c w (\<lambda>x. completed co (h x))"
  "completed co (bindr n k) = bindr n (\<lambda>x. completed co (k x))"
  "completed co (if b then p else p') = (if b then completed co p else completed co p')"
  by (simp_all add: completed_def stop_def bindr_Inr bindr_assoc with_req_def with_rpc_def with_conn_def
      split: option.split)

lemma drain_single: "drain co [f] w = completed co (resume co f w)"
  by (simp add: completed_def)

lemma completed_push: "completed co (push f m) = bindr (completed co m) (drain co [f])"
  unfolding push_def completed_def
  by (cases m) (auto simp: bindr_assoc drain_append split_def simp del: drain.simps)

lemma completed_option [simp]:
  "completed co (case x of None \<Rightarrow> p | Some y \<Rightarrow> f y) = (case x of None \<Rightarrow> completed co p | Some y \<Rightarrow> completed co (f y))"
  by (simp split: option.split)

lemma finish_completed: "completed co (finish_open i ty w) = on_finish i ty w"
  by (simp add: finish_open_def on_finish_def Let_def bindr_Inr option.case_distrib [of "release_keeper i"]
      cong: if_cong option.case_cong)

lemma after_send_completed:
  "completed co (after_send i w) =
     with_req i w (\<lambda>q. if \<not> need_rsp_flag q then on_finish i no_need_rsp w else Inr w)"
  by (simp add: after_send_def finish_completed cong: if_cong)

lemma call_completed: "completed co (call_open co i rpc w) = request_call co i rpc w"
proof -
  have c: "completed co (call_through_open co i r w) = call_through co i r w" for r w
    by (simp add: call_through_open_def call_through_def after_send_completed split_def drain_single
        cong: if_cong del: drain.simps)
  show ?thesis
    by (simp add: call_open_def request_call_def Let_def finish_completed c cong: if_cong option.case_cong)
qed

lemma rsp_completed: "completed co (rsp_open h msg w) = mapr snd (run_rsp_handle h msg w)"
proof -
  have d: "drain co [AfterRsp i ty] w = on_finish i ty w" for i ty and w :: "'a world"
    by (simp add: drain_single finish_completed del: drain.simps)
  show ?thesis
    by (cases "rh_cb h")
      (simp_all add: rsp_open_def run_rsp_handle_def Let_def finish_completed d split_def mapr_bindr with_req_def
        if_distrib [of "mapr snd"] if_distrib [of "completed co"] option.case_distrib [of "mapr snd"]
        cong: if_cong option.case_cong del: drain.simps)
qed

lemma timeout_completed: "completed co (timeout_open co t w) = run_timeout_closure co t w"
proof -
  have a: "completed co (after_timeout co i w) =
      with_req i w (\<lambda>q.
        if retry_count q = -1 then request_call co i None w
        else if retry_count q > 0
        then bindr (on_req i (\<lambda>q. q\<lparr>retry_count := retry_count q - 1\<rparr>) w) (request_call co i None)
        else on_finish i timeout w)" for i w
    by (simp add: after_timeout_def call_completed finish_completed cong: if_cong)
  show ?thesis
    by (cases "tc_cb t")
      (simp_all add: timeout_open_def run_timeout_closure_def Let_def a drain_single del: drain.simps)
qed

lemma erase_completed:
  "drain co [EraseTimer r s] = (\<lambda>w. with_rpc r w (\<lambda>x. Inr (put_dispatcher r x (erase_rsp s (dispatcher x)) w)))"
  by (simp add: fun_eq_iff drain_single del: drain.simps)

lemma fire_completed: "completed co (fire_open co t w) = fire_timer co t w"
  by (auto simp: fire_open_def fire_timer_def completed_push timeout_completed erase_completed
      split: option.split simp del: drain.simps)

lemma dispatch_response_completed:
  assumes "rpcs w r = Some x"
  shows "completed co (dispatch_response_open r (dispatcher x) msg w) = dispatch_response r (dispatcher x) msg w"
proof (cases "rsp_handle_map (dispatcher x) (m_seq msg)")
  case (Some e)
  have "bindr (mapr snd (run_rsp_handle h msg w)) (drain co [EraseHandler r (m_seq msg)]) =
      bindr (run_rsp_handle h msg w) (\<lambda>(ok, w).
        with_rpc r w (\<lambda>x. Inr (put_dispatcher r x (erase_rsp (m_seq msg) (dispatcher x)) w)))" for h
  proof (cases "run_rsp_handle h msg w")
    case (Inr p)
    then have "rpcs (snd p) r = Some x" using assms run_rsp_handle_rpcs [of h msg w "fst p" "snd p"] by simp
    with Inr Some show ?thesis by (simp add: drain_single split_def del: drain.simps)
  qed simp
  with Some show ?thesis
    by (simp add: dispatch_response_open_def dispatch_response_def completed_push rsp_completed
        split: option.split del: drain.simps)
qed (simp add: dispatch_response_open_def dispatch_response_def)

lemma dispatch_command_completed:
  "completed co (dispatch_command_open co d msg w) = dispatch_command co d msg w"
  by (simp add: dispatch_command_open_def dispatch_command_def Let_def split_def drain_single
      cong: if_cong option.case_cong del: drain.simps)

lemma dispatch_completed: "completed co (dispatch_open co r msg w) = dispatch co r msg w"
  by (simp add: dispatch_open_def dispatch_def with_rpc_def Let_def dispatch_command_completed
      dispatch_response_completed split: option.split)

lemma recv_completed: "completed co (recv_open co c p w) = recv_package co c p w"
proof -
  have "completed co (case y of NoRecv \<Rightarrow> Inl NullCall | DefaultRecv \<Rightarrow> stop w | DispatcherRecv r \<Rightarrow> f r) =
      (case y of NoRecv \<Rightarrow> Inl NullCall | DefaultRecv \<Rightarrow> Inr w | DispatcherRecv r \<Rightarrow> completed co (f r))"
    for y and f :: "nat \<Rightarrow> 'a piece"
    by (cases y) simp_all
  then show ?thesis
    by (simp add: recv_open_def recv_package_def dispatch_completed cong: if_cong option.case_cong recv_impl.case_cong)
qed

lemma elapse_completed: "completed co (elapse_open co n w) = elapse co n w"
  by (simp add: elapse_open_def elapse_def fire_completed)

end
