(* ===== verification/ReentrySafety.thy ===== *)
theory ReentrySafety
  imports Reentry
begin

text \<open>
  What a program with callbacks that call the library may do, and that then nothing is used after its
  destruction and every call still ends once; and what happens when it does more.
\<close>

lemma held_True: "held True q \<longleftrightarrow> waiting_rsp q \<and> self_keeper q"
  by (simp add: held_def)

section \<open>What is on the stack\<close>

text \<open>The requests that a frame will end or call again; those that are being sent; the entries it will erase.\<close>

fun owners :: "frame list \<Rightarrow> nat list" where
  "owners [] = []"
| "owners (AfterFinally i # fs) = i # owners fs"
| "owners (AfterRsp i ty # fs) = i # owners fs"
| "owners (AfterTimeout i # fs) = i # owners fs"
| "owners (f # fs) = owners fs"

fun sending :: "frame list \<Rightarrow> nat list" where
  "sending [] = []"
| "sending (AfterSend i # fs) = i # sending fs"
| "sending (f # fs) = sending fs"

fun entries :: "frame list \<Rightarrow> (nat \<times> seq_type) list" where
  "entries [] = []"
| "entries (EraseHandler r s # fs) = (r, s) # entries fs"
| "entries (EraseTimer r s # fs) = (r, s) # entries fs"
| "entries (f # fs) = entries fs"

abbreviation running :: "frame list \<Rightarrow> (nat \<times> seq_type) set" where
  "running fs \<equiv> set (entries fs)"

definition busy :: "frame list \<Rightarrow> nat set" where
  "busy fs = set (owners fs) \<union> set (sending fs)"

fun frame_req :: "frame \<Rightarrow> nat option" where
  "frame_req (AfterFinally i) = Some i"
| "frame_req (AfterRsp i ty) = Some i"
| "frame_req (AfterTimeout i) = Some i"
| "frame_req (AfterSend i) = Some i"
| "frame_req f = None"

lemma owners_append [simp]: "owners (fs @ gs) = owners fs @ owners gs"
  by (induction fs rule: owners.induct) auto

lemma frame_req_busy: "f \<in> set fs \<Longrightarrow> frame_req f = Some i \<Longrightarrow> i \<in> busy fs"
  unfolding busy_def by (induction fs rule: owners.induct) auto

lemma frame_req_owner: "f \<in> set fs \<Longrightarrow> frame_req f = Some i \<Longrightarrow> i \<notin> set (owners fs) \<Longrightarrow> f = AfterSend i"
  by (induction fs rule: owners.induct) auto

lemma sending_iff: "i \<in> set (sending fs) \<longleftrightarrow> AfterSend i \<in> set fs"
  by (induction fs rule: sending.induct) auto

lemma owners_iff:
  "i \<in> set (owners fs) \<longleftrightarrow>
     AfterFinally i \<in> set fs \<or> (\<exists>ty. AfterRsp i ty \<in> set fs) \<or> AfterTimeout i \<in> set fs"
  by (induction fs rule: owners.induct) auto

lemma entries_iff: "(r, s) \<in> running fs \<longleftrightarrow> EraseHandler r s \<in> set fs \<or> EraseTimer r s \<in> set fs"
  by (induction fs rule: entries.induct) auto

section \<open>The invariant\<close>

text \<open>No request and no entry is handled twice at a time; only a request that is sent may be answered meanwhile.\<close>

fun layered :: "frame list \<Rightarrow> bool" where
  "layered [] = True"
| "layered (AfterFinally i # fs) = (i \<notin> set (owners fs) \<and> layered fs)"
| "layered (AfterRsp i ty # fs) = (i \<notin> set (owners fs) \<and> layered fs)"
| "layered (AfterTimeout i # fs) = (i \<notin> busy fs \<and> layered fs)"
| "layered (AfterSend i # fs) = (i \<notin> busy fs \<and> layered fs)"
| "layered (EraseHandler r s # fs) = ((r, s) \<notin> running fs \<and> layered fs)"
| "layered (EraseTimer r s # fs) = ((r, s) \<notin> running fs \<and> layered fs)"
| "layered (Respond c m # fs) = layered fs"

text \<open>What a frame relies on when it is resumed, \<open>fs\<close> being the stack that it is on.\<close>

fun frame_ok :: "frame list \<Rightarrow> 'u world \<Rightarrow> frame \<Rightarrow> bool" where
  "frame_ok fs w (AfterFinally i) =
     (\<exists>q. reqs w i = Some q \<and> \<not> waiting_rsp q \<and> (self_keeper q \<or> 0 < refs q) \<and> idle (running fs) w i)"
| "frame_ok fs w (AfterRsp i ty) = (\<exists>q. reqs w i = Some q \<and> held True q \<and> idle (running fs) w i)"
| "frame_ok fs w (AfterTimeout i) = (\<exists>q. reqs w i = Some q \<and> held True q \<and> idle (running fs) w i)"
| "frame_ok fs w (AfterSend i) =
     (\<exists>q. reqs w i = Some q \<and> (0 < refs q \<or> held True q \<and> i \<notin> set (owners fs)) \<and>
        (need_rsp_flag q \<or> idle (running fs) w i))"
| "frame_ok fs w (EraseHandler r s) = (entry w r s \<noteq> None)"
| "frame_ok fs w (EraseTimer r s) = (rpcs w r \<noteq> None)"
| "frame_ok fs w (Respond c m) = True"

definition safe :: "frame list \<Rightarrow> 'u world \<Rightarrow> bool" where
  "safe fs w \<longleftrightarrow> inv True (running fs) w \<and> layered fs \<and> (\<forall>f\<in>set fs. frame_ok fs w f)"

lemma safe_empty: "safe [] w \<longleftrightarrow> inv True {} w"
  by (simp add: safe_def)

text \<open>A frame whose request does not change, on another stack and in another world.\<close>

lemma frame_ok_same:
  assumes "frame_ok fs w f"
    and "\<And>j. frame_req f = Some j \<Longrightarrow> reqs w' j = reqs w j"
    and "\<And>j. frame_req f = Some j \<Longrightarrow> idle (running fs) w j \<Longrightarrow> idle (running gs) w' j"
    and "\<And>r s. f = EraseHandler r s \<Longrightarrow> entry w r s \<noteq> None \<Longrightarrow> entry w' r s \<noteq> None"
    and "\<And>r s. f = EraseTimer r s \<Longrightarrow> rpcs w r \<noteq> None \<Longrightarrow> rpcs w' r \<noteq> None"
    and "\<And>j q. f = AfterSend j \<Longrightarrow> reqs w j = Some q \<Longrightarrow> j \<in> set (owners gs) \<Longrightarrow> j \<in> set (owners fs) \<or> 0 < refs q"
  shows "frame_ok gs w' f"
proof (cases f)
  case (AfterFinally i)
  with assms(1) assms(2,3) [of i] show ?thesis by auto
next
  case (AfterRsp i ty)
  with assms(1) assms(2,3) [of i] show ?thesis by auto
next
  case (AfterTimeout i)
  with assms(1) assms(2,3) [of i] show ?thesis by auto
next
  case (AfterSend i)
  with assms(1) obtain q where "reqs w i = Some q" "0 < refs q \<or> held True q \<and> i \<notin> set (owners fs)"
      "need_rsp_flag q \<or> idle (running fs) w i" by auto
  with AfterSend assms(2,3) [of i] assms(6) [of i q] show ?thesis by auto
qed (use assms(1,4,5) in auto)

lemma safe_frame: "safe fs w \<Longrightarrow> f \<in> set fs \<Longrightarrow> frame_ok fs w f"
  by (simp add: safe_def)

lemma safe_same_calls:
  assumes "same_calls w w'"
  shows "safe fs w' = safe fs w"
proof -
  have "entry w' = entry w" "reqs w' = reqs w" "rpcs w' = rpcs w"
    using assms by (simp_all add: fun_eq_iff entry_def same_calls_def)
  then have "frame_ok fs w' f = frame_ok fs w f" for f
    using idle_same_calls [OF assms] by (cases f) simp_all
  then show ?thesis using inv_same_calls [OF assms] by (simp add: safe_def)
qed

text \<open>A change of a request that no frame but its sending refers to, and no entry.\<close>

lemma safe_change_req:
  assumes "safe fs w" "same_but_req i w w'" "i \<notin> set (owners fs)" "idle (running fs) w i"
    and "\<And>q'. reqs w' i = Some q' \<Longrightarrow> handles_ok i q' \<and> i < next_req w"
    and "i \<in> set (sending fs) \<Longrightarrow> \<exists>q'. reqs w' i = Some q' \<and> 0 < refs q'"
  shows "safe fs w'"
proof -
  have "inv True (running fs) w"
    using assms(1) by (simp add: safe_def)
  then have "inv True (running fs) w'"
    using assms(2,5) disjI1 [OF assms(4)] by (rule inv_change_req)
  moreover have "frame_ok fs w' f" if f: "f \<in> set fs" for f
  proof (cases "frame_req f = Some i")
    case True
    from frame_req_owner [OF f True assms(3)] have fi: "f = AfterSend i" .
    with f have "i \<in> set (sending fs)" by (simp add: sending_iff)
    with assms(2,4,6) fi show ?thesis by (auto simp: idle_same_but)
  next
    case False
    have e: "entry w' = entry w" using assms(2) by (simp add: fun_eq_iff entry_def same_but_req_def)
    show ?thesis
      using safe_frame [OF assms(1) f]
      by (rule frame_ok_same) (use False assms(2) in \<open>auto simp: e idle_same_but same_but_req_def\<close>)
  qed
  ultimately show ?thesis using assms(1) by (simp add: safe_def)
qed

text \<open>A frame is put on the stack, or taken off, and the world stays.\<close>

lemma safe_push_owner:
  assumes "safe fs w" "frame_ok (f # fs) w f" "frame_req f = Some i" "\<And>j. f \<noteq> AfterSend j" "layered (f # fs)"
    and "\<And>q. i \<in> set (sending fs) \<Longrightarrow> reqs w i = Some q \<Longrightarrow> 0 < refs q"
  shows "safe (f # fs) w"
proof -
  have o: "owners (f # fs) = i # owners fs" "entries (f # fs) = entries fs"
    using assms(3,4) by (cases f; simp)+
  have "frame_ok (f # fs) w g" if g: "g \<in> set fs" for g
    using safe_frame [OF assms(1) g]
    by (rule frame_ok_same) (use o g assms(6) in \<open>auto simp: sending_iff\<close>)
  with assms(1,2,5) o show ?thesis by (simp add: safe_def)
qed

lemma safe_pop_owner:
  assumes "safe (f # fs) w" "frame_req f = Some i"
  shows "safe fs w"
proof -
  have o: "set (owners fs) \<subseteq> set (owners (f # fs))" "entries (f # fs) = entries fs"
    using assms(2) by (cases f; auto)+
  have "frame_ok fs w g" if g: "g \<in> set fs" for g
    by (rule frame_ok_same [where fs = "f # fs" and w = w]) (use assms(1) o g in \<open>auto simp: safe_def\<close>)
  moreover have "layered fs" using assms by (cases f) (auto simp: safe_def)
  ultimately show ?thesis using assms(1) o by (simp add: safe_def)
qed

lemma safe_push_entry:
  assumes "safe fs w" "(r, s) \<notin> running fs" "entry w r s = Some e"
  shows "safe (EraseHandler r s # fs) w" "safe (EraseTimer r s # fs) w"
proof -
  have r: "rpcs w r \<noteq> None" using assms(3) by (auto simp: entry_def split: option.splits)
  have i: "inv True (insert (r, s) (running fs)) w"
    using assms(1) by (auto simp: safe_def intro: inv_mono)
  have "frame_ok (EraseHandler r s # fs) w f" "frame_ok (EraseTimer r s # fs) w f" if f: "f \<in> set fs" for f
    by (rule frame_ok_same [where fs = fs and w = w];
        use assms(1) f in \<open>auto simp: safe_def intro: idle_mono [of "running fs"]\<close>)+
  with assms i r show "safe (EraseHandler r s # fs) w" "safe (EraseTimer r s # fs) w"
    by (auto simp: safe_def)
qed

section \<open>The pieces keep it\<close>

lemma safe_release:
  assumes "safe (AfterFinally i # fs) w" "release_keeper i w = Inr w'"
  shows "safe fs w'"
proof -
  have f: "frame_ok (AfterFinally i # fs) w (AfterFinally i)" using assms(1) by (simp add: safe_def)
  then obtain q where q: "reqs w i = Some q" "idle (running fs) w i" by auto
  have i: "i \<notin> set (owners fs)" "inv True (running fs) w" using assms(1) by (simp_all add: safe_def)
  have w': "w' = (if refs q = 0 then w\<lparr>reqs := (reqs w)(i := None)\<rparr> else put_req i (q\<lparr>self_keeper := False\<rparr>) w)"
    using assms(2) q(1) by (auto simp: release_keeper_def split: if_splits)
  have sb: "same_but_req i w w'" by (simp add: w' same_but_req_def put_req_def)
  have "reqs w' i = Some q' \<Longrightarrow> handles_ok i q' \<and> i < next_req w" for q'
    using inv_reqD [OF i(2) q(1)] by (auto simp: w' put_req_def handles_ok_def split: if_splits)
  moreover have "\<exists>q'. reqs w' i = Some q' \<and> 0 < refs q'" if "i \<in> set (sending fs)"
  proof -
    have "frame_ok (AfterFinally i # fs) w (AfterSend i)"
      using safe_frame [OF assms(1), of "AfterSend i"] that by (simp add: sending_iff)
    with q w' show ?thesis by (auto simp: put_req_def)
  qed
  ultimately show ?thesis
    using safe_change_req [OF safe_pop_owner [OF assms(1)] sb i(1) q(2)] by simp
qed

lemma safe_finish:
  assumes "finish_open i ty w = Inr (fs', w')" "safe fs w" "i \<notin> set (owners fs)"
    and q: "reqs w i = Some q" "idle (running fs) w i"
    and keep: "waiting_rsp q \<Longrightarrow> self_keeper q \<or> 0 < refs q"
    and send: "i \<in> set (sending fs) \<Longrightarrow> waiting_rsp q \<Longrightarrow> 0 < refs q"
  shows "safe (fs' @ fs) w'"
proof (cases "waiting_rsp q")
  case False
  with assms show ?thesis by (simp add: finish_open_def)
next
  case True
  let ?q = "q\<lparr>waiting_rsp := False, finally_type := ty\<rparr>"
  define w1 where "w1 = log_event (Finish i ty) (put_req i ?q w)"
  have r: "reqs w1 i = Some ?q" "same_but_req i w w1"
    by (simp_all add: w1_def put_defs same_but_req_def)
  have h: "handles_ok i ?q" "i < next_req w"
    using assms(2) inv_reqD [OF _ q(1), of True "running fs"] by (simp_all add: safe_def handles_ok_def)
  have "safe fs w1"
    using assms(2) r(2) assms(3) q(2) by (rule safe_change_req) (simp_all add: r(1) h True send)
  then have s: "safe (AfterFinally i # fs) w1"
    using r q assms(2,3) True keep send
    by (intro safe_push_owner [where i = i]) (auto simp: idle_same_but safe_def)
  from assms(1) q(1) True consider w2 where "fs' = [AfterFinally i]" "same_calls w1 w'"
    | "fs' = []" "release_keeper i w1 = Inr w'"
    by (auto simp: finish_open_def Let_def w1_def [symmetric] res_simps split: option.splits)
  then show ?thesis
    using s safe_same_calls [of w1 w'] safe_release [OF s] by cases auto
qed

lemma safe_after_send:
  assumes "after_send i w = Inr (fs', w')" "safe (AfterSend i # fs) w"
  shows "safe (fs' @ fs) w'"
proof -
  have "frame_ok (AfterSend i # fs) w (AfterSend i)" using assms(2) by (simp add: safe_def)
  then obtain q where q: "reqs w i = Some q" "0 < refs q \<or> held True q" "need_rsp_flag q \<or> idle (running fs) w i"
    by auto
  have b: "i \<notin> busy fs" using assms(2) by (simp add: safe_def)
  have s: "safe fs w" by (rule safe_pop_owner [OF assms(2)]) simp
  show ?thesis
  proof (cases "need_rsp_flag q")
    case True
    with assms(1) q s show ?thesis by (simp add: after_send_def)
  next
    case False
    with assms(1) q have "finish_open i no_need_rsp w = Inr (fs', w')" by (simp add: after_send_def)
    from safe_finish [OF this s] q b False show ?thesis
      by (auto simp: busy_def held_def split: if_splits)
  qed
qed

lemma safe_sent:
  assumes "make_seq r w = Inr (s, w1)" "on_req i (\<lambda>q. q\<lparr>req_seq := s\<rparr>) w1 = Inr w2"
    and "send_request co r i w2 = Inr w3"
    and "safe fs w" "i \<notin> busy fs" "idle (running fs) w i" "counters_ok w"
    and q: "reqs w i = Some q" "held True q"
  shows "safe (AfterSend i # fs) w3"
proof -
  have i: "inv True (running fs) w" using assms(4) by (simp add: safe_def)
  note c = call_sent [OF assms(1-3) i assms(6,7) q]
  have live: "live_rpcs w3 = live_rpcs w"
    using make_seq_rpcs [OF assms(1)] on_req_rpcs [OF assms(2)] send_request_rpcs [OF assms(3)] by simp
  have "frame_ok (AfterSend i # fs) w3 f" if f: "f \<in> set fs" for f
  proof (rule frame_ok_same [OF safe_frame [OF assms(4) f]])
    fix j
    assume j: "frame_req f = Some j"
    with f assms(5) have ji: "j \<noteq> i" using frame_req_busy by blast
    with c(2) show "reqs w3 j = reqs w j" by simp
    show "idle (running (AfterSend i # fs)) w3 j" if "idle (running fs) w j"
      using that c(5) ji unfolding idle_def by fastforce
  next
    show "entry w r s \<noteq> None \<Longrightarrow> entry w3 r s \<noteq> None" for r s using c(4) by blast
    show "rpcs w r \<noteq> None \<Longrightarrow> rpcs w3 r \<noteq> None" for r using live by (auto simp: live_rpcs_def)
  qed auto
  moreover have "frame_ok (AfterSend i # fs) w3 (AfterSend i)"
    using c(2,3) q assms(5) by (auto simp: busy_def held_def split: if_splits)
  ultimately show ?thesis using c(1) assms(4,5) by (simp add: safe_def)
qed

lemma safe_call:
  assumes "call_open co i rpc w = Inr (fs', w')" "safe fs w" "i \<notin> busy fs" "idle (running fs) w i" "counters_ok w"
    and q: "reqs w i = Some q" "self_keeper q \<or> 0 < refs q"
  shows "safe (fs' @ fs) w'"
proof -
  have b: "i \<notin> set (owners fs)" "i \<notin> set (sending fs)" using assms(3) by (auto simp: busy_def)
  have h: "handles_ok i q \<and> i < next_req w"
    using assms(2) inv_reqD [OF _ q(1), of True "running fs"] by (simp add: safe_def)
  have put: "safe fs (put_req i q' w) \<and> idle (running fs) (put_req i q' w) i" if "handles_ok i q'" for q'
  proof -
    have sb: "same_but_req i w (put_req i q' w)" by (simp add: same_but_req_def put_req_def)
    then show ?thesis
      using safe_change_req [OF assms(2) sb b(1) assms(4)] that h b(2) assms(4)
      by (simp add: idle_same_but [OF sb]) (simp add: put_req_def)
  qed
  from assms(1) q(1) show ?thesis
  proof (cases rule: call_open_cases)
    case canceled
    have "handles_ok i (q\<lparr>waiting_rsp := True\<rparr>)" using h by (simp add: handles_ok_def)
    from put [OF this] safe_finish [OF canceled(2) _ b(1)] q(2) b(2) show ?thesis by (simp add: put_req_def)
  next
    case (refused ty)
    from put [of "prepared rpc q"] safe_finish [OF refused _ b(1)] h b(2) show ?thesis by (simp add: put_req_def)
  next
    case (through r)
    let ?w = "put_req i (prepared rpc q) w"
    from through obtain s w3 w4 w5 where c: "make_seq r ?w = Inr (s, w3)"
        "on_req i (\<lambda>q. q\<lparr>req_seq := s\<rparr>) w3 = Inr w4" "send_request co r i w4 = Inr w5"
        "(if user_sends w5 r then Inr ([AfterSend i], w5) else after_send i w5) = Inr (fs', w')"
      unfolding call_through_open_def by (auto elim!: bindr_InrE)
    have w: "reqs ?w i = Some (prepared rpc q)" "held True (prepared rpc q)" "counters_ok ?w"
      using assms(5) by (simp_all add: put_req_def held_True counters_ok_def)
    have "safe (AfterSend i # fs) w5"
      using put [of "prepared rpc q"] h safe_sent [OF c(1-3) _ assms(3) _ w(3) w(1,2)] by simp
    with c(4) safe_after_send show ?thesis by (auto split: if_splits)
  qed
qed

lemma safe_after_timeout:
  assumes "after_timeout co i w = Inr (fs', w')" "safe (AfterTimeout i # fs) w" "counters_ok w"
  shows "safe (fs' @ fs) w'"
proof -
  have "frame_ok (AfterTimeout i # fs) w (AfterTimeout i)" using assms(2) by (simp add: safe_def)
  then obtain q where q: "reqs w i = Some q" "held True q" "idle (running fs) w i" by auto
  have b: "i \<notin> busy fs" using assms(2) by (simp add: safe_def)
  have k: "waiting_rsp q" "self_keeper q" using q(2) by (auto simp: held_def split: if_splits)
  have s: "safe fs w" by (rule safe_pop_owner [OF assms(2)]) simp
  let ?q = "q\<lparr>retry_count := retry_count q - 1\<rparr>"
  have h: "handles_ok i ?q" "i < next_req w"
    using s inv_reqD [OF _ q(1), of True "running fs"] by (simp_all add: safe_def handles_ok_def)
  have sb: "same_but_req i w (put_req i ?q w)" by (simp add: same_but_req_def put_req_def)
  have s1: "safe fs (put_req i ?q w)"
    using s sb b q(3) by (intro safe_change_req [OF s sb]) (use h b in \<open>auto simp: busy_def put_req_def\<close>)
  from assms(1) q(1) consider "call_open co i None w = Inr (fs', w')"
    | "call_open co i None (put_req i ?q w) = Inr (fs', w')"
    | "finish_open i timeout w = Inr (fs', w')"
    by (auto simp: after_timeout_def on_req_def split: if_splits)
  then show ?thesis
  proof cases
    case 1
    from safe_call [OF 1 s b q(3) assms(3) q(1)] k show ?thesis by simp
  next
    case 2
    have "counters_ok (put_req i ?q w)" using assms(3) by (simp add: counters_ok_def put_req_def)
    from safe_call [OF 2 s1 b _ this] q k show ?thesis
      by (simp add: idle_same_but [OF sb]) (simp add: put_req_def)
  next
    case 3
    from safe_finish [OF 3 s _ q(1,3)] b k show ?thesis by (simp add: busy_def)
  qed
qed

lemma safe_erase:
  assumes "safe (f # fs) w" "f = EraseHandler r s \<or> f = EraseTimer r s" "rpcs w r = Some x"
  shows "safe fs (put_dispatcher r x (erase_rsp s (dispatcher x)) w)"
proof -
  let ?w = "put_dispatcher r x (erase_rsp s (dispatcher x)) w"
  have i: "inv True (insert (r, s) (running fs)) w" and l: "(r, s) \<notin> running fs" "layered fs"
    using assms(1,2) by (auto simp: safe_def)
  have e: "entry ?w = (\<lambda>r' s'. if r' = r \<and> s' = s then None else entry w r' s')"
    using assms(3) by (auto simp: fun_eq_iff entry_def put_dispatcher_def put_rpc_def)
  have "frame_ok fs ?w g" if g: "g \<in> set fs" for g
  proof (rule frame_ok_same)
    show "frame_ok (f # fs) w g" using assms(1) g by (simp add: safe_def)
    show "reqs ?w j = reqs w j" for j by (simp add: put_dispatcher_def put_rpc_def)
    show "idle (running fs) ?w j" if "idle (running (f # fs)) w j" for j
      using that assms(2) unfolding idle_def e by (auto split: if_splits) blast+
    show "entry ?w r' s' \<noteq> None" if "g = EraseHandler r' s'" "entry w r' s' \<noteq> None" for r' s'
      using that g l(1) by (auto simp: e entries_iff)
    show "rpcs ?w r' \<noteq> None" if "rpcs w r' \<noteq> None" for r'
      using that by (simp add: put_dispatcher_def put_rpc_def)
    show "j \<in> set (owners (f # fs)) \<or> 0 < refs q" if "j \<in> set (owners fs)" for j and q :: "'a request"
      using that assms(2) by auto
  qed
  then show ?thesis
    using erase_inv [OF i assms(3) refl] l by (simp add: safe_def)
qed

text \<open>A closure of an entry that is not being handled.\<close>

lemma safe_entry_owner:
  assumes "safe fs w" "entry w r s = Some (Some h)" "(r, s) \<notin> running fs"
  shows "\<exists>q. reqs w (rh_this h) = Some q \<and> held True q" "rh_this h \<notin> set (owners fs)"
    "idle (insert (r, s) (running fs)) w (rh_this h)"
proof -
  have i: "inv True (running fs) w" using assms(1) by (simp add: safe_def)
  show "\<exists>q. reqs w (rh_this h) = Some q \<and> held True q"
    using inv_entryD [OF i assms(2,3)] by auto
  show "idle (insert (r, s) (running fs)) w (rh_this h)" by (rule idle_owner [OF i assms(2,3)])
  have n: "\<not> idle (running fs) w (rh_this h)" using assms(2,3) unfolding idle_def by blast
  have "idle (running fs) w j" if "j \<in> set (owners fs)" for j
    using that safe_frame [OF assms(1)] by (fastforce simp: owners_iff)
  with n show "rh_this h \<notin> set (owners fs)" by blast
qed

lemma safe_rsp:
  assumes "rsp_open h msg w = Inr (fs', w')" "safe (EraseHandler r s # fs) w"
    and "rh_this h \<notin> set (owners fs)" and q: "reqs w (rh_this h) = Some q" "held True q"
    and "idle (insert (r, s) (running fs)) w (rh_this h)"
    and send: "rh_this h \<in> set (sending fs) \<Longrightarrow> 0 < refs q"
  shows "safe (fs' @ EraseHandler r s # fs) w'"
proof -
  let ?i = "rh_this h" and ?fs = "EraseHandler r s # fs"
  have k: "waiting_rsp q" "self_keeper q" using q(2) by (auto simp: held_def split: if_splits)
  have fin: "finish_open ?i ty w1 = Inr (fs', w') \<Longrightarrow> ?thesis" if "same_calls w w1" for ty w1
    using safe_finish [of ?i ty w1 fs' w' ?fs q] assms(2,3,6) k send q(1) that
    by (simp add: safe_same_calls [OF that] idle_same_calls [OF that]) (simp add: same_calls_def)
  have rsp: "fs' = [AfterRsp ?i ty] \<Longrightarrow> same_calls w w' \<Longrightarrow> ?thesis" for ty
  proof -
    assume f: "fs' = [AfterRsp ?i ty]" "same_calls w w'"
    have "safe (AfterRsp ?i ty # ?fs) w"
      using assms(2,3,6) q send by (rule_tac safe_push_owner [where i = ?i]) (auto simp: safe_def)
    with f show ?thesis by (simp add: safe_same_calls)
  qed
  show ?thesis
    using assms(1) q(1) fin [OF same_calls_refl] rsp
    by (cases "rh_cb h") (auto simp: rsp_open_def Let_def res_simps split: if_splits)
qed

lemma safe_timeout:
  assumes "timeout_open co t w = Inr (fs', w')" "safe (EraseTimer r s # fs) w" "counters_ok w"
    and "tc_this t \<notin> busy fs" and q: "reqs w (tc_this t) = Some q" "held True q"
    and "idle (insert (r, s) (running fs)) w (tc_this t)"
  shows "safe (fs' @ EraseTimer r s # fs) w'"
proof -
  let ?i = "tc_this t" and ?fs = "EraseTimer r s # fs"
  have "layered (AfterTimeout ?i # ?fs)"
    using assms(2,4) by (simp add: safe_def busy_def)
  then have s: "safe (AfterTimeout ?i # ?fs) w"
    using assms(2,4,7) q by (rule_tac safe_push_owner [where i = ?i]) (auto simp: busy_def)
  show ?thesis
  proof (cases "tc_cb t")
    case None
    with assms(1) safe_after_timeout [OF _ s assms(3)] show ?thesis by (simp add: timeout_open_def)
  next
    case (Some f)
    have c: "same_calls w (log_event (TimeoutCb ?i) (run_user f w))"
      by (simp add: same_calls_def moves_def put_defs)
    from Some assms(1) s show ?thesis by (auto simp: timeout_open_def Let_def safe_same_calls [OF c])
  qed
qed

section \<open>Packages and timers that come while frames are on the stack\<close>

text \<open>
  A response may come for any entry that is not being handled; if its request is being sent at that
  moment (the peer answers at once), a pointer to the request must be left. A timer must not elapse
  for an entry that is being handled, or while its request is being sent.
\<close>

definition answerable :: "frame list \<Rightarrow> 'u world \<Rightarrow> nat \<Rightarrow> seq_type \<Rightarrow> bool" where
  "answerable fs w r s =
     ((r, s) \<notin> running fs \<and>
      (case entry w r s of
         Some (Some h) \<Rightarrow> rh_this h \<in> set (sending fs) \<longrightarrow> has_ref w (rh_this h)
       | _ \<Rightarrow> True))"

definition may_receive :: "coder \<Rightarrow> frame list \<Rightarrow> nat \<Rightarrow> bytes \<Rightarrow> 'u world \<Rightarrow> bool" where
  "may_receive co fs c p w =
     (case conns w c of
        None \<Rightarrow> True
      | Some x \<Rightarrow>
          (case on_recv_package x of
             DispatcherRecv r \<Rightarrow>
               (case co_deserialize co p of
                  Inr (Some msg) \<Rightarrow>
                    dispatch_kind (m_type msg) = response \<longrightarrow> answerable fs w r (m_seq msg)
                | _ \<Rightarrow> True)
           | _ \<Rightarrow> True))"

definition may_elapse :: "frame list \<Rightarrow> nat \<Rightarrow> 'u world \<Rightarrow> bool" where
  "may_elapse fs n w =
     (n < length (timers w) \<longrightarrow>
        (let t = timers w ! n
         in (t_dispatcher t, t_seq t) \<notin> running fs \<and>
            (case entry w (t_dispatcher t) (t_seq t) of
               Some (Some h) \<Rightarrow> rh_this h \<notin> set (sending fs)
             | _ \<Rightarrow> True)))"

lemma safe_push_respond: "safe fs w \<Longrightarrow> safe (Respond c m # fs) w"
proof -
  assume s: "safe fs w"
  have "frame_ok (Respond c m # fs) w f" if "f \<in> set fs" for f
    using safe_frame [OF s that] by (rule frame_ok_same) auto
  with s show ?thesis by (simp add: safe_def)
qed

lemma safe_dispatch_response:
  assumes "dispatch_response_open r (dispatcher x) msg w = Inr (fs', w')" "safe fs w" "rpcs w r = Some x"
    and "answerable fs w r (m_seq msg)"
  shows "safe (fs' @ fs) w'"
proof (cases "entry w r (m_seq msg)")
  case None
  with assms(1-3) show ?thesis by (simp add: dispatch_response_open_def entry_def)
next
  case (Some e)
  have n: "(r, m_seq msg) \<notin> running fs" using assms(4) by (simp add: answerable_def)
  have i: "inv True (running fs) w" using assms(2) by (simp add: safe_def)
  obtain h where h: "e = Some h" using inv_entryD [OF i Some n] by auto
  from assms(1,3) Some h obtain gs where g: "rsp_open h msg w = Inr (gs, w')" "fs' = gs @ [EraseHandler r (m_seq msg)]"
    by (auto simp: dispatch_response_open_def entry_def push_def)
  note o = safe_entry_owner [OF assms(2) Some [unfolded h] n]
  obtain q where q: "reqs w (rh_this h) = Some q" "held True q" using o(1) by blast
  have "rh_this h \<in> set (sending fs) \<Longrightarrow> 0 < refs q"
    using assms(4) Some h q(1) by (simp add: answerable_def has_ref_def)
  from safe_rsp [OF g(1) safe_push_entry(1) [OF assms(2) n Some] o(2) q o(3) this] g(2)
  show ?thesis by simp
qed

lemma dispatch_command_open_cases:
  assumes "dispatch_command_open co d msg w = Inr (fs', w')"
  shows "same_calls w w' \<and> (fs' = [] \<or> (\<exists>c m. fs' = [Respond c m]))"
  using assms
  by (auto simp: dispatch_command_open_def Let_def res_simps
      split: if_splits option.splits dest: send_msg_same run_cmd_handle_same)

lemma safe_recv:
  assumes "recv_open co c p w = Inr (fs', w')" "safe fs w" "may_receive co fs c p w"
  shows "safe (fs' @ fs) w'"
proof -
  obtain x where x: "conns w c = Some x" using assms(1) by (auto simp: recv_open_def res_simps)
  have "(fs' = [] \<and> w' = w) \<or> (\<exists>r msg. dispatch_open co r msg w = Inr (fs', w') \<and>
      (dispatch_kind (m_type msg) = response \<longrightarrow> answerable fs w r (m_seq msg)))"
    using assms(1,3) x
    by (cases "on_recv_package x")
      (auto simp: recv_open_def may_receive_def res_simps split: option.split_asm if_split_asm)
  then consider "fs' = []" "w' = w"
    | r msg where "dispatch_open co r msg w = Inr (fs', w')"
        "dispatch_kind (m_type msg) = response \<longrightarrow> answerable fs w r (m_seq msg)" by blast
  then show ?thesis
  proof cases
    case 1
    with assms(2) show ?thesis by simp
  next
    case (2 r msg)
    then obtain x where x: "rpcs w r = Some x" by (auto simp: dispatch_open_def res_simps)
    from 2 x consider "fs' = []" "w' = w" | "dispatch_command_open co (dispatcher x) msg w = Inr (fs', w')"
      | "dispatch_response_open r (dispatcher x) msg w = Inr (fs', w')" "answerable fs w r (m_seq msg)"
      by (auto simp: dispatch_open_def Let_def split: if_splits)
    then show ?thesis
    proof cases
      case 2
      note c = dispatch_command_open_cases [OF 2]
      then have "safe fs w'" using assms(2) safe_same_calls by blast
      with c show ?thesis by (auto intro: safe_push_respond)
    qed (use assms(2) safe_dispatch_response x in auto)
  qed
qed

lemma safe_elapse:
  assumes "elapse_open co n w = Inr (fs', w')" "safe fs w" "may_elapse fs n w" "counters_ok w"
  shows "safe (fs' @ fs) w'"
proof (cases "n < length (timers w)")
  case False
  with assms(1,2) show ?thesis by (simp add: elapse_open_def)
next
  case True
  define t where "t = timers w ! n"
  define w1 where "w1 = w\<lparr>timers := take n (timers w) @ drop (Suc n) (timers w)\<rparr>"
  have sub: "set (timers w1) \<subseteq> set (timers w)"
    by (auto simp: w1_def dest: in_set_takeD in_set_dropD)
  have e: "entry w1 = entry w" "reqs w1 = reqs w" "rpcs w1 = rpcs w" "next_req w1 = next_req w"
    by (auto simp: w1_def fun_eq_iff entry_def)
  have i: "inv True (running fs) w" using assms(2) by (simp add: safe_def)
  then have i1: "inv True (running fs) w1" using sub unfolding inv_def inv_defs e by blast
  have "frame_ok fs w1 f" if f: "f \<in> set fs" for f
    using safe_frame [OF assms(2) f] by (rule frame_ok_same) (simp_all add: e idle_def)
  with assms(2) i1 have s: "safe fs w1" by (simp add: safe_def)
  have c: "counters_ok w1" using assms(4) by (simp add: counters_ok_def e)
  from assms(1) True have f: "fire_open co t w1 = Inr (fs', w')" by (simp add: elapse_open_def t_def w1_def)
  show ?thesis
  proof (cases "entry w (t_dispatcher t) (t_seq t)")
    case None
    with f s e show ?thesis by (auto simp: fire_open_def entry_def split: option.splits)
  next
    case (Some en)
    have n: "(t_dispatcher t, t_seq t) \<notin> running fs"
      using assms(3) True by (simp add: may_elapse_def t_def Let_def)
    obtain h where h: "en = Some h" using inv_entryD [OF i Some n] by auto
    obtain tc where tc: "t_cb t = Some tc" "tc_this tc = rh_this h"
      using inv_timerD [OF i nth_mem [OF True], folded t_def] Some h n by blast
    have en1: "entry w1 (t_dispatcher t) (t_seq t) = Some (Some h)" using Some h e by simp
    note o = safe_entry_owner [OF s en1 n]
    obtain q where q: "reqs w1 (rh_this h) = Some q" "held True q" using o(1) by blast
    have b: "rh_this h \<notin> busy fs"
      using assms(3) True Some h o(2) by (simp add: may_elapse_def t_def Let_def busy_def)
    from f en1 tc(1) obtain gs where g: "timeout_open co tc w1 = Inr (gs, w')"
        "fs' = gs @ [EraseTimer (t_dispatcher t) (t_seq t)]"
      by (auto simp: fire_open_def entry_def push_def split: option.splits)
    from safe_timeout [OF g(1) safe_push_entry(2) [OF s n en1] c] b q o(3) tc(2) g(2)
    show ?thesis by simp
  qed
qed

section \<open>Other actions while frames are on the stack\<close>

text \<open>
  The handlers that \<open>subscribe\<close> registers: those of \<open>subscribe_helper\<close> make their response themselves,
  and only the one for \<open>request_response\<close> makes one that comes later.
\<close>

definition handler_ok :: "'u cmd_handle \<Rightarrow> bool" where
  "handler_ok h =
     (case h of
        SyncHandle f \<Rightarrow>
          \<forall>msg u resp u'. f msg u = Inr (resp, u') \<longrightarrow> m_response_state (snd resp) \<noteq> response_async
      | AsyncHandle _ _ \<Rightarrow> True)"

text \<open>
  What a callback may do besides calling: anything with requests that no frame refers to; the last
  pointer to one that a frame refers to may be dropped if it keeps itself and is not being sent. An
  rpc object is not destroyed while its dispatcher runs a closure.
\<close>

fun may_act :: "frame list \<Rightarrow> 'u world \<Rightarrow> 'u action \<Rightarrow> bool" where
  "may_act fs w (Drop i) =
     (i \<notin> busy fs \<or>
      (case reqs w i of None \<Rightarrow> False | Some q \<Rightarrow> 1 < refs q \<or> self_keeper q \<and> i \<notin> set (sending fs)))"
| "may_act fs w (Setting i s) = (i \<notin> busy fs)"
| "may_act fs w (Cancel i) = (i \<notin> busy fs)"
| "may_act fs w (RpcDestroy r) = (r \<notin> fst ` running fs)"
| "may_act fs w (UserCall i rpc) = False"
| "may_act fs w (Package c p) = False"
| "may_act fs w (Elapse n) = False"
| "may_act fs w (Subscribe r cmd h) = handler_ok h"
| "may_act fs w a = True"

lemma safe_world:
  assumes "safe fs w" "inv True (running fs) w'" "\<And>f. f \<in> set fs \<Longrightarrow> frame_ok fs w' f"
  shows "safe fs w'"
  using assms by (simp add: safe_def)

lemma safe_inv: "safe fs w \<Longrightarrow> inv True (running fs) w"
  by (simp add: safe_def)

text \<open>A request is changed that no frame refers to; and one whose pointers change.\<close>

lemma safe_other_req:
  assumes "safe fs w" "same_but_req i w w'" "inv True (running fs) w'" "i \<notin> busy fs"
  shows "safe fs w'"
  using assms(1,3)
proof (rule safe_world)
  fix f
  assume f: "f \<in> set fs"
  have e: "entry w' = entry w" using assms(2) by (simp add: fun_eq_iff entry_def same_but_req_def)
  show "frame_ok fs w' f"
    using safe_frame [OF assms(1) f]
  proof (rule frame_ok_same)
    show "reqs w' j = reqs w j" if "frame_req f = Some j" for j
      using frame_req_busy [OF f that] assms(2,4) by (auto simp: same_but_req_def)
  qed (use assms(2) in \<open>auto simp: e idle_same_but same_but_req_def\<close>)
qed

lemma safe_refs:
  assumes "safe fs w" "same_but_req i w w'" "inv True (running fs) w'" "reqs w i = Some q"
    and w': "i \<in> busy fs \<Longrightarrow> reqs w' i = Some (q\<lparr>refs := n\<rparr>)"
    and n: "i \<in> busy fs \<Longrightarrow> 0 < n \<or> self_keeper q \<and> i \<notin> set (sending fs)"
  shows "safe fs w'"
proof (cases "i \<in> busy fs")
  case False
  from safe_other_req [OF assms(1-3) this] show ?thesis .
next
  case True
  show ?thesis
    using assms(1,3)
  proof (rule safe_world)
    fix f
    assume f: "f \<in> set fs"
    have e: "entry w' = entry w" using assms(2) by (simp add: fun_eq_iff entry_def same_but_req_def)
    show "frame_ok fs w' f"
    proof (cases "frame_req f = Some i")
      case False
      show ?thesis
        using safe_frame [OF assms(1) f]
        by (rule frame_ok_same) (use False assms(2) in \<open>auto simp: e idle_same_but same_but_req_def\<close>)
    next
      case fi: True
      note ok = safe_frame [OF assms(1) f]
      show ?thesis
      proof (cases "f = AfterSend i")
        case True
        then have "i \<in> set (sending fs)" using f by (simp add: sending_iff)
        with n \<open>i \<in> busy fs\<close> have "0 < n" by blast
        with True ok w' [OF \<open>i \<in> busy fs\<close>] assms(2,4) show ?thesis by (auto simp: idle_same_but)
      next
        case False
        with fi ok w' [OF \<open>i \<in> busy fs\<close>] n [OF \<open>i \<in> busy fs\<close>] assms(2,4) show ?thesis
          by (cases f) (auto simp: idle_same_but held_True)
      qed
    qed
  qed
qed

text \<open>The dispatchers keep their entries, or a dispatcher goes that runs none.\<close>

lemma safe_rpcs:
  assumes "safe fs w" "inv True (running fs) w'" "reqs w' = reqs w"
    and "\<And>r s. r \<in> fst ` running fs \<Longrightarrow> rpcs w r \<noteq> None \<Longrightarrow> rpcs w' r \<noteq> None"
    and "\<And>r s. r \<in> fst ` running fs \<Longrightarrow> entry w r s \<noteq> None \<Longrightarrow> entry w' r s \<noteq> None"
    and "\<And>r s h. entry w' r s = Some (Some h) \<Longrightarrow> entry w r s = Some (Some h)"
  shows "safe fs w'"
  using assms(1,2)
proof (rule safe_world)
  fix f
  assume f: "f \<in> set fs"
  have r: "r \<in> fst ` running fs" if "f = EraseHandler r s \<or> f = EraseTimer r s" for r s
  proof -
    have "(r, s) \<in> running fs" using that f by (auto simp: entries_iff)
    then show ?thesis by (rule image_eqI [rotated]) simp
  qed
  show "frame_ok fs w' f"
    using safe_frame [OF assms(1) f]
  proof (rule frame_ok_same)
    show "idle (running fs) w' j" if "idle (running fs) w j" for j
      using that assms(6) unfolding idle_def by blast
  qed (use assms(3-5) r in auto)
qed

lemma safe_act:
  assumes "exec co a w = Inr w'" "may_act fs w a" "safe fs w"
  shows "safe fs w'"
proof -
  note i = safe_inv [OF assms(3)]
  have same: "same_calls w w' \<Longrightarrow> ?thesis" using assms(3) safe_same_calls by blast
  have rpc: "on_rpc r f w = Inr w' \<Longrightarrow> ?thesis"
    if f: "\<And>x. rpc_seq (f x) = rpc_seq x \<and> rsp_handle_map (dispatcher (f x)) = rsp_handle_map (dispatcher x)"
    for r f
  proof -
    assume o: "on_rpc r f w = Inr w'"
    then obtain x where x: "rpcs w r = Some x" "w' = put_rpc r (f x) w" by (auto simp: on_rpc_def res_simps)
    have "entry w' = entry w" using x f by (auto simp: fun_eq_iff entry_def put_rpc_def)
    with on_rpc_inv [OF o i f] x show ?thesis
      by (intro safe_rpcs [OF assms(3)]) (auto simp: put_rpc_def)
  qed
  show ?thesis
  proof (cases a)
    case (Create r)
    have w': "w' = snd (create_request r w)" using assms(1) Create by simp
    have n: "next_req w \<notin> busy fs"
    proof
      assume b: "next_req w \<in> busy fs"
      then have "reqs w (next_req w) \<noteq> None"
        using safe_frame [OF assms(3)] by (fastforce simp: busy_def owners_iff sending_iff)
      then show False using inv_reqD [OF i] by blast
    qed
    have iv: "inv True (running fs) w'" unfolding w' by (rule create_request_inv [OF i])
    have e: "entry w' = entry w" "rpcs w' = rpcs w" "\<And>j. j \<noteq> next_req w \<Longrightarrow> reqs w' j = reqs w j"
      by (simp_all add: w' create_request_def Let_def put_req_def fun_eq_iff entry_def)
    show ?thesis
      using assms(3) iv
    proof (rule safe_world)
      fix f
      assume f: "f \<in> set fs"
      have "j \<noteq> next_req w" if "frame_req f = Some j" for j using frame_req_busy [OF f that] n by auto
      then show "frame_ok fs w' f"
        using e by (intro frame_ok_same [OF safe_frame [OF assms(3) f]]) (auto simp: idle_def)
    qed
  next
    case (Copy j)
    then have o: "on_req j (\<lambda>q. q\<lparr>refs := refs q + 1\<rparr>) w = Inr w'" using assms(1) by simp
    with on_req_inv [OF o i] obtain q where "inv True (running fs) w'" "same_but_req j w w'"
        "reqs w j = Some q" "reqs w' j = Some (q\<lparr>refs := refs q + 1\<rparr>)"
      by (auto simp: handles_ok_def held_True)
    then show ?thesis using safe_refs [OF assms(3), of j w' q "refs q + 1"] by simp
  next
    case (Drop j)
    show ?thesis
    proof (cases "has_ref w j")
      case False
      with assms(1,3) Drop show ?thesis by simp
    next
      case True
      with assms(1) Drop have d: "drop_ref j w = Inr w'" by simp
      then obtain q where q: "reqs w j = Some q" by (auto simp: drop_ref_def res_simps)
      have w': "w' = (if refs q \<le> 1 \<and> \<not> self_keeper q then w\<lparr>reqs := (reqs w)(j := None)\<rparr>
          else put_req j (q\<lparr>refs := refs q - 1\<rparr>) w)"
        using d q by (auto simp: drop_ref_def split: if_splits)
      have iv: "inv True (running fs) w'" using drop_ref_inv [OF d i q] by simp
      have g: "1 < refs q \<or> self_keeper q \<and> j \<notin> set (sending fs)" if "j \<in> busy fs"
        using assms(2) Drop q that by auto
      show ?thesis
        by (rule safe_refs [OF assms(3) _ iv q, where n = "refs q - 1"])
          (use g in \<open>auto simp: w' same_but_req_def put_req_def\<close>)
    qed
  next
    case (Setting j s)
    then have o: "on_req j (apply_setting j s) w = Inr w'" using assms(1) by simp
    from on_req_inv [OF o i] assms(2) Setting show ?thesis
      by (auto simp: apply_setting_ok intro: safe_other_req [OF assms(3)])
  next
    case (Cancel j)
    show ?thesis
    proof (cases "idle_req w j")
      case False
      with assms(1,3) Cancel show ?thesis by simp
    next
      case True
      then obtain q where q: "reqs w j = Some q" "\<not> waiting_rsp q" by (auto simp: idle_req_def split: option.splits)
      from True assms(1) Cancel obtain w1 where w1: "on_req j (req_canceled True) w = Inr w1"
          "on_finish j canceled w1 = Inr w'"
        by (auto simp: request_cancel_def)
      from on_req_inv [OF w1(1) i] q have o: "inv True (running fs) w1" "same_but_req j w w1"
          "reqs w1 j = Some (req_canceled True q)"
        by (auto simp: req_canceled_def handles_ok_def held_def)
      have "w' = w1" using w1(2) on_finish_ignored [OF o(3)] q(2) by (simp add: req_canceled_def)
      with o assms(2) Cancel show ?thesis by (auto intro: safe_other_req [OF assms(3)])
    qed
  next
    case (OpenConnection c x)
    with assms(1) show ?thesis by (intro same) (auto simp: open_connection_def)
  next
    case (RpcCreate r c)
    show ?thesis
    proof (cases "unused_rpc w r")
      case False
      with assms(1,3) RpcCreate show ?thesis by simp
    next
      case True
      then have u: "rpcs w r = None" "\<forall>t\<in>set (timers w). t_dispatcher t \<noteq> r"
        by (auto simp: unused_rpc_def list_all_iff)
      from True assms(1) RpcCreate have c: "rpc_create r c w = Inr w'" by simp
      then have w': "rpcs w' = (rpcs w)(r \<mapsto> new_rpc c)" "reqs w' = reqs w"
        by (auto simp: rpc_create_def res_simps put_defs)
      then have "entry w' = entry w"
        using u(1) by (auto simp: fun_eq_iff entry_def new_rpc_def new_dispatcher_def)
      with rpc_create_inv [OF c i u] w' show ?thesis by (intro safe_rpcs [OF assms(3)]) auto
    qed
  next
    case (RpcDestroy r)
    have w': "w' = rpc_destroy r w" using assms(1) RpcDestroy by simp
    have "entry w' = (\<lambda>r' s. if r' = r then None else entry w r' s)" "rpcs w' = (rpcs w)(r := None)"
        "reqs w' = reqs w"
      by (auto simp: w' fun_eq_iff entry_def rpc_destroy_def)
    with rpc_destroy_inv [OF i, of r] assms(2) RpcDestroy show ?thesis
      by (intro safe_rpcs [OF assms(3)]) (auto simp: w' split: if_splits)
  next
    case (RunJob n)
    with assms(1) show ?thesis by (intro same) (auto intro: run_job_same)
  next
    case (RrRsp k d)
    with assms(1) show ?thesis by (intro same) (auto intro: rr_rsp_same)
  next
    case (RrDrop k)
    with assms(1) show ?thesis by (intro same) (auto intro: rr_drop_same)
  next
    case (UserState u)
    with assms(1) show ?thesis by (intro same) (auto simp: same_calls_def moves_def)
  next
    case (SetTimer r t)
    with assms(1) rpc [of "rpc_set_timer t" r] show ?thesis
      by (simp add: rpc_set_timer_def set_timer_impl_def)
  next
    case (SetReady r b)
    with assms(1) rpc [of "rpc_set_ready b" r] show ?thesis by (simp add: rpc_set_ready_def)
  next
    case (Subscribe r cmd h)
    with assms(1) rpc [of "rpc_subscribe cmd h" r] show ?thesis
      by (simp add: rpc_subscribe_def subscribe_cmd_def)
  next
    case (Unsubscribe r cmd)
    with assms(1) rpc [of "rpc_unsubscribe cmd" r] show ?thesis
      by (simp add: rpc_unsubscribe_def unsubscribe_cmd_def split: option.splits)
  qed (use assms(2) in auto)
qed

section \<open>Programs whose callbacks call the library\<close>

text \<open>
  A function of the user runs, or the event loop does if nothing is on the stack; \<open>erase\<close> follows at
  once behind a handler that has returned.
\<close>

fun at_user :: "frame list \<Rightarrow> bool" where
  "at_user (EraseHandler r s # fs) = False"
| "at_user (EraseTimer r s # fs) = False"
| "at_user fs = True"

text \<open>
  Steps of a program whose callbacks may act, too. A request is called if it is not waiting and no
  frame refers to it, over a pointer that the caller keeps.
\<close>

inductive nested_step :: "coder \<Rightarrow> frame list \<times> 'u world \<Rightarrow> frame list \<times> 'u world \<Rightarrow> bool" for co where
  return: "counters_ok w \<Longrightarrow> resume co f w = Inr (fs', w') \<Longrightarrow> nested_step co (f # fs, w) (fs' @ fs, w')"
| act: "at_user fs \<Longrightarrow> may_act fs w a \<Longrightarrow> exec co a w = Inr w' \<Longrightarrow> nested_step co (fs, w) (fs, w')"
| user_call: "at_user fs \<Longrightarrow> reqs w i = Some q \<Longrightarrow> \<not> waiting_rsp q \<Longrightarrow> 0 < refs q \<Longrightarrow> i \<notin> busy fs \<Longrightarrow>
    counters_ok w \<Longrightarrow> user_call_open co i rpc w = Inr (fs', w') \<Longrightarrow> nested_step co (fs, w) (fs' @ fs, w')"
| package: "at_user fs \<Longrightarrow> may_receive co fs c p w \<Longrightarrow> recv_open co c p w = Inr (fs', w') \<Longrightarrow>
    nested_step co (fs, w) (fs' @ fs, w')"
| elapse: "at_user fs \<Longrightarrow> may_elapse fs n w \<Longrightarrow> counters_ok w \<Longrightarrow> elapse_open co n w = Inr (fs', w') \<Longrightarrow>
    nested_step co (fs, w) (fs' @ fs, w')"

inductive nested_reachable :: "coder \<Rightarrow> frame list \<Rightarrow> 'u world \<Rightarrow> bool" for co where
  init: "nested_reachable co [] (empty_world u)"
| step: "nested_reachable co fs w \<Longrightarrow> nested_step co (fs, w) (fs', w') \<Longrightarrow> nested_reachable co fs' w'"

inductive_cases nested_stepE: "nested_step co (fs, w) (fs', w')"

lemma safe_return:
  assumes "resume co f w = Inr (fs', w')" "safe (f # fs) w" "counters_ok w"
  shows "safe (fs' @ fs) w'"
proof (cases f)
  case (AfterFinally i)
  with assms(1) safe_release assms(2) show ?thesis by (auto simp: res_simps)
next
  case (AfterRsp i ty)
  have "frame_ok (f # fs) w f" using assms(2) by (simp add: safe_def)
  then obtain q where q: "reqs w i = Some q" "held True q" "idle (running fs) w i" using AfterRsp by auto
  have i: "i \<notin> set (owners fs)" using assms(2) AfterRsp by (simp add: safe_def)
  have s: "safe fs w" using safe_pop_owner [OF assms(2)] AfterRsp by simp
  have "0 < refs q" if "i \<in> set (sending fs)"
    using safe_frame [OF assms(2), of "AfterSend i"] that AfterRsp q(1) by (auto simp: sending_iff)
  with safe_finish [OF _ s i q(1,3)] assms(1) AfterRsp q(2) show ?thesis by (simp add: held_True)
next
  case (EraseHandler r s)
  with assms(1) safe_erase [OF assms(2)] show ?thesis by (auto simp: res_simps split: if_splits)
next
  case (EraseTimer r s)
  with assms(1) safe_erase [OF assms(2)] show ?thesis by (auto simp: res_simps)
next
  case (Respond c m)
  have "frame_ok fs w g" if "g \<in> set fs" for g
    by (rule frame_ok_same [where fs = "f # fs" and w = w]) (use assms(2) that Respond in \<open>auto simp: safe_def\<close>)
  with assms(2) Respond have "safe fs w" by (simp add: safe_def)
  moreover from assms(1) Respond have r: "fs' = []" "same_calls w w'"
    using respond_same by (auto simp: res_simps)
  ultimately show ?thesis by (simp add: safe_same_calls [OF r(2)])
qed (use assms safe_after_timeout safe_after_send in auto)

lemma safe_user_call:
  assumes "user_call_open co i rpc w = Inr (fs', w')" "safe fs w" "i \<notin> busy fs" "counters_ok w"
    and q: "reqs w i = Some q" "\<not> waiting_rsp q" "0 < refs q"
  shows "safe (fs' @ fs) w'"
proof -
  let ?w = "log_event (event.Call i) w"
  have e: "entry ?w = entry w" "reqs ?w = reqs w" "rpcs ?w = rpcs w"
    by (simp_all add: fun_eq_iff entry_def log_event_def)
  have "idle (running fs) w i"
    using safe_inv [OF assms(2)] q inv_entryD held_True unfolding idle_def by (metis option.inject)
  then have "idle (running fs) ?w i" by simp
  moreover have "safe fs ?w"
    using assms(2) safe_inv [OF assms(2)] frame_ok_same [of fs w _ ?w fs]
    by (intro safe_world [OF assms(2)]) (auto simp: e dest: safe_frame)
  moreover have "counters_ok ?w" using assms(4) by (simp add: counters_ok_def e)
  ultimately show ?thesis
    using safe_call [of co i rpc ?w fs' w' fs q] assms(1,3) q by (simp add: user_call_open_def e)
qed

theorem nested_step_safe: "nested_step co (fs, w) (fs', w') \<Longrightarrow> safe fs w \<Longrightarrow> safe fs' w'"
  by (erule nested_stepE) (blast intro: safe_return safe_act safe_user_call safe_recv safe_elapse)+

lemma nested_reachable_safe: "nested_reachable co fs w \<Longrightarrow> safe fs w"
proof (induction rule: nested_reachable.induct)
  case (init u)
  show ?case by (simp add: safe_empty inv_empty)
next
  case (step fs w fs' w')
  then show ?case using nested_step_safe by blast
qed

section \<open>Returning never faults\<close>

lemma completed_total: "completed co m = Inr w' \<Longrightarrow> \<exists>fs w. m = Inr (fs, w)"
  by (cases m) (auto simp: completed_def)

lemma finish_open_total: "reqs w i = Some q \<Longrightarrow> \<exists>fs' w'. finish_open i ty w = Inr (fs', w')"
  using on_finish_total [of w i q ty] finish_completed completed_total by metis

lemma resume_total:
  fixes w :: "'u world"
  assumes "safe (f # fs) w" "conns_ok w" "total_coder co" "\<And>c m. f \<noteq> Respond c m"
  shows "\<exists>fs' w'. resume co f w = Inr (fs', w')"
proof -
  have f: "frame_ok (f # fs) w f" using assms(1) by (simp add: safe_def)
  show ?thesis
  proof (cases f)
    case (AfterFinally i)
    with f show ?thesis by (auto simp: release_keeper_def)
  next
    case (AfterRsp i ty)
    with f finish_open_total show ?thesis by auto
  next
    case (AfterTimeout i)
    let ?t = "\<lparr>tc_this = i, tc_cb = None\<rparr> :: 'u timeout_closure"
    from AfterTimeout f obtain q where "reqs w (tc_this ?t) = Some q" by auto
    then obtain w' where "run_timeout_closure co ?t w = Inr w'"
      using run_timeout_closure_total [OF assms(3,2)] by blast
    then have "completed co (timeout_open co ?t w) = Inr w'" by (simp add: timeout_completed)
    with completed_total AfterTimeout show ?thesis by (fastforce simp: timeout_open_def)
  next
    case (AfterSend i)
    with f obtain q where "reqs w i = Some q" by auto
    with AfterSend finish_open_total [of w i q no_need_rsp] show ?thesis by (auto simp: after_send_def stop_def)
  next
    case (EraseHandler r s)
    with f show ?thesis by (auto simp: entry_def stop_def split: option.splits)
  next
    case (EraseTimer r s)
    with f show ?thesis by (auto simp: stop_def)
  qed (use assms(4) in auto)
qed

end
