(* ===== verification/ReentryRespond.thy ===== *)
theory ReentryRespond
  imports ReentrySafety
begin

text \<open>
  The code behind a command handler that has returned: it sends the response, or looks at the
  \<open>async_helper\<close> of a handler that answers later. Whatever happened while the handler ran, a helper
  that a frame on the stack refers to still has its functions and its object.
\<close>

section \<open>The helpers on the stack\<close>

fun helper_of :: "frame \<Rightarrow> nat option" where
  "helper_of (Respond c m) = (if m_response_state m = response_async then m_async_helper m else None)"
| "helper_of f = None"

definition helpers :: "frame list \<Rightarrow> nat list" where
  "helpers fs = List.map_filter helper_of fs"

definition helper_set :: "'u world \<Rightarrow> nat \<Rightarrow> bool" where
  "helper_set w k = (case rrs w k of None \<Rightarrow> False | Some x \<Rightarrow> is_ready_set x \<and> get_data_set x)"

fun respond_ok :: "'u world \<Rightarrow> frame \<Rightarrow> bool" where
  "respond_ok w (Respond c m) =
     (m_response_state m = response_async \<longrightarrow> (\<exists>k. m_async_helper m = Some k \<and> helper_set w k))"
| "respond_ok w f = True"

definition handlers_ok :: "'u world \<Rightarrow> bool" where
  "handlers_ok w \<longleftrightarrow>
     (\<forall>r x cmd h. rpcs w r = Some x \<longrightarrow> cmd_handle_map (dispatcher x) cmd = Some h \<longrightarrow> handler_ok h)"

definition rrs_fresh :: "'u world \<Rightarrow> bool" where
  "rrs_fresh w \<longleftrightarrow> (\<forall>k\<ge>next_rr w. rrs w k = None)"

definition responding :: "frame list \<Rightarrow> 'u world \<Rightarrow> bool" where
  "responding fs w \<longleftrightarrow>
     rrs_fresh w \<and> handlers_ok w \<and> distinct (helpers fs) \<and> (\<forall>f\<in>set fs. respond_ok w f)"

lemma helpers_simps [simp]:
  "helpers [] = []" "helpers (f # fs) = (case helper_of f of None \<Rightarrow> helpers fs | Some k \<Rightarrow> k # helpers fs)"
  "helpers (fs @ gs) = helpers fs @ helpers gs"
  by (simp_all add: helpers_def List.map_filter_def split: option.split)

lemma helpers_iff: "k \<in> set (helpers fs) \<longleftrightarrow> (\<exists>f\<in>set fs. helper_of f = Some k)"
  by (force simp: helpers_def List.map_filter_def)

lemma respond_ok_helper: "respond_ok w f \<Longrightarrow> helper_of f = Some k \<Longrightarrow> helper_set w k"
  by (cases f) (auto split: if_splits)

lemma helpers_set: "responding fs w \<Longrightarrow> k \<in> set (helpers fs) \<Longrightarrow> helper_set w k"
  using respond_ok_helper by (auto simp: responding_def helpers_iff)

lemma make_rsp_sync: "make_rsp c s r ok = Inr m \<Longrightarrow> m_response_state (snd m) \<noteq> response_async"
  by (auto simp: make_rsp_def empty_msg_def res_simps Let_def split: if_splits option.splits)

lemma handlers_of_subscribe:
  "handler_ok (handle_ret_param p r h1)" "handler_ok (handle_void_param p h2)"
  "handler_ok (handle_ret_void r h3)" "handler_ok (handle_void_void h4)"
  "handler_ok (handle_async p r scheduler h5)"
  by (auto simp: handler_ok_def handle_ret_param_def handle_void_param_def handle_ret_void_def
      handle_void_void_def handle_async_def res_simps case_prod_beta Let_def dest!: make_rsp_sync)

section \<open>What the helpers depend on\<close>

text \<open>The helpers, the number of the next one, and the handlers of commands; requests are nothing to them.\<close>

definition commands :: "'u world \<Rightarrow> (nat \<rightharpoonup> request_response) \<times> nat \<times> (nat \<Rightarrow> (cmd_type \<rightharpoonup> 'u cmd_handle) option)" where
  "commands w = (rrs w, next_rr w, \<lambda>r. map_option (\<lambda>x. cmd_handle_map (dispatcher x)) (rpcs w r))"

lemma responding_commands:
  assumes "commands w' = commands w"
  shows "responding fs w' = responding fs w"
proof -
  have e: "rrs w' = rrs w" "next_rr w' = next_rr w" using assms by (simp_all add: commands_def)
  have m: "map_option (\<lambda>x. cmd_handle_map (dispatcher x)) (rpcs w' r) =
      map_option (\<lambda>x. cmd_handle_map (dispatcher x)) (rpcs w r)" for r
    using assms by (simp add: commands_def fun_eq_iff)
  have "handlers_ok v'" if "handlers_ok v" and "\<And>r. map_option (\<lambda>x. cmd_handle_map (dispatcher x)) (rpcs v' r) =
      map_option (\<lambda>x. cmd_handle_map (dispatcher x)) (rpcs v r)" for v v' :: "'a world"
    unfolding handlers_ok_def
  proof (intro allI impI)
    fix r x cmd h
    assume x: "rpcs v' r = Some x" "cmd_handle_map (dispatcher x) cmd = Some h"
    with that(2) [of r] obtain y where "rpcs v r = Some y" "cmd_handle_map (dispatcher y) cmd = Some h"
      by (cases "rpcs v r") auto
    with that(1) show "handler_ok h" unfolding handlers_ok_def by blast
  qed
  from this [of w w'] this [of w' w] m have "handlers_ok w' = handlers_ok w" by auto
  moreover have "respond_ok w' f = respond_ok w f" for f by (cases f) (simp_all add: helper_set_def e)
  ultimately show ?thesis by (simp add: responding_def rrs_fresh_def e)
qed

lemma commands_simps [simp]:
  "commands (put_req i q w) = commands w" "commands (run_user g w) = commands w"
  "commands (log_event e w) = commands w" "commands (put_conn c y w) = commands w"
  "commands (w\<lparr>timers := ts\<rparr>) = commands w" "commands (w\<lparr>reqs := qs\<rparr>) = commands w"
  by (simp_all add: commands_def put_defs)

lemma commands_put_rpc:
  "rpcs w r = Some x \<Longrightarrow> cmd_handle_map (dispatcher y) = cmd_handle_map (dispatcher x) \<Longrightarrow>
   commands (put_rpc r y w) = commands w"
  by (simp add: commands_def put_rpc_def fun_eq_iff)

lemma commands_erase:
  "rpcs w r = Some x \<Longrightarrow> commands (put_dispatcher r x (erase_rsp s (dispatcher x)) w) = commands w"
  by (simp add: put_dispatcher_def commands_put_rpc erase_rsp_def)

text \<open>Pieces that are put on the stack without a response.\<close>

definition silent :: "frame list \<Rightarrow> bool" where
  "silent fs \<longleftrightarrow> (\<forall>c m. Respond c m \<notin> set fs)"

lemma silent_simps [simp]:
  "silent []" "silent (f # fs) \<longleftrightarrow> (\<forall>c m. f \<noteq> Respond c m) \<and> silent fs"
  "silent (fs @ gs) \<longleftrightarrow> silent fs \<and> silent gs"
  by (auto simp: silent_def)

definition plain :: "'u world \<Rightarrow> frame list \<Rightarrow> 'u world \<Rightarrow> bool" where
  "plain w fs w' \<longleftrightarrow> silent fs \<and> commands w' = commands w"

lemma responding_plain:
  assumes "responding fs w" "plain w fs' w'"
  shows "responding (fs' @ fs) w'"
proof -
  have s: "silent fs'" "responding fs w'"
    using assms responding_commands [of w' w fs] by (simp_all add: plain_def)
  have n: "helper_of f = None" if "f \<in> set fs'" for f using s(1) that by (cases f) (auto simp: silent_def)
  then have "set (helpers fs') = {}" 
    by (intro equals0I) (use n in \<open>auto simp: helpers_iff\<close>)
  then have "helpers fs' = []" by (simp only: set_empty)
  moreover have "respond_ok w' f" if "f \<in> set fs'" for f
    using s(1) that by (cases f) (auto simp: silent_def)
  ultimately show ?thesis using s(2) by (auto simp: responding_def)
qed

lemma release_commands: "release_keeper i w = Inr w' \<Longrightarrow> commands w' = commands w"
  by (auto simp: release_keeper_def res_simps split: if_splits)

lemma on_req_commands: "on_req i f w = Inr w' \<Longrightarrow> commands w' = commands w"
  by (auto simp: on_req_def res_simps)

lemma send_package_commands: "send_package c p w = Inr w' \<Longrightarrow> commands w' = commands w"
  using send_package_frame [of c p w w'] by (simp add: commands_def)

lemma send_msg_commands: "send_msg co c m w = Inr w' \<Longrightarrow> commands w' = commands w"
  by (auto simp: send_msg_def res_simps intro: send_package_commands)

lemma make_seq_commands: "make_seq r w = Inr (s, w') \<Longrightarrow> commands w' = commands w"
  by (auto simp: make_seq_def res_simps intro!: commands_put_rpc)

lemma finish_plain: "finish_open i ty w = Inr (fs', w') \<Longrightarrow> plain w fs' w'"
  by (auto simp: plain_def finish_open_def Let_def res_simps split: if_splits option.splits dest!: release_commands)

lemma after_send_plain: "after_send i w = Inr (fs', w') \<Longrightarrow> plain w fs' w'"
  by (auto simp: after_send_def res_simps split: if_splits dest: finish_plain) (simp add: plain_def)

lemma plain_from: "plain w1 fs' w' \<Longrightarrow> commands w1 = commands w \<Longrightarrow> plain w fs' w'"
  by (simp add: plain_def)

lemma send_request_commands:
  assumes "send_request co r i w = Inr w'"
  shows "commands w' = commands w"
proof -
  have m: "cmd_handle_map (fst (subscribe_rsp r s h cb ms d)) = cmd_handle_map d" for s h cb ms and d :: "'a msg_dispatcher"
    by (simp add: subscribe_rsp_def)
  obtain x where x: "rpcs w r = Some x" using assms by (auto simp: send_request_def res_simps)
  obtain q where q: "reqs w i = Some q" using assms x by (auto simp: send_request_def res_simps)
  define d where "d = fst (if need_rsp_flag q
      then subscribe_rsp r (req_seq q) (rsp_handle q) (timeout_cb q) (timeout_ms q) (dispatcher x) else (dispatcher x, []))"
  have d: "cmd_handle_map d = cmd_handle_map (dispatcher x)" by (simp add: d_def m)
  from assms x q obtain b ts where "send_package (rpc_conn x) b ((put_dispatcher r x d w)\<lparr>timers := ts\<rparr>) = Inr w'"
    by (auto simp: send_request_def Let_def case_prod_beta res_simps d_def [symmetric])
  from commands_put_rpc [of w r x "x\<lparr>dispatcher := d\<rparr>"] send_package_commands [OF this] x d show ?thesis
    by (simp add: put_dispatcher_def)
qed

lemma call_open_plain:
  assumes "call_open co i rpc w = Inr (fs', w')"
  shows "plain w fs' w'"
proof -
  obtain q where q: "reqs w i = Some q" using assms by (auto simp: call_open_def on_req_def res_simps)
  have t: "plain v fs' w'" if "call_through_open co i r v = Inr (fs', w')" for r v
  proof -
    from that obtain s v1 v2 v3 where v: "make_seq r v = Inr (s, v1)" "on_req i (\<lambda>q. q\<lparr>req_seq := s\<rparr>) v1 = Inr v2"
        "send_request co r i v2 = Inr v3" "(if user_sends v3 r then Inr ([AfterSend i], v3) else after_send i v3) = Inr (fs', w')"
      unfolding call_through_open_def by (auto elim!: bindr_InrE)
    have "plain v3 fs' w'" using v(4) by (auto simp: plain_def split: if_splits dest: after_send_plain)
    with make_seq_commands [OF v(1)] on_req_commands [OF v(2)] send_request_commands [OF v(3)]
    show ?thesis by (simp add: plain_def)
  qed
  from assms q show ?thesis
    by (cases rule: call_open_cases) (auto intro: plain_from [OF finish_plain] plain_from [OF t])
qed

lemma after_timeout_plain: "after_timeout co i w = Inr (fs', w') \<Longrightarrow> plain w fs' w'"
  by (auto simp: after_timeout_def res_simps split: if_splits
      dest: finish_plain call_open_plain on_req_commands intro: plain_from)

lemma rsp_open_plain: "rsp_open h msg w = Inr (fs', w') \<Longrightarrow> plain w fs' w'"
  by (auto simp: rsp_open_def Let_def res_simps split: if_splits rsp_cb.splits dest: finish_plain)
    (simp_all add: plain_def)

lemma timeout_open_plain: "timeout_open co t w = Inr (fs', w') \<Longrightarrow> plain w fs' w'"
  by (auto simp: timeout_open_def Let_def split: option.splits dest: after_timeout_plain) (simp add: plain_def)

lemma push_plain: "push f m = Inr (fs', w') \<Longrightarrow> (\<And>gs. m = Inr (gs, w') \<Longrightarrow> plain w gs w') \<Longrightarrow>
    (\<And>c r. f \<noteq> Respond c r) \<Longrightarrow> plain w fs' w'"
  by (auto simp: push_def res_simps plain_def)

lemma dispatch_response_open_plain: "dispatch_response_open r d msg w = Inr (fs', w') \<Longrightarrow> plain w fs' w'"
  by (auto simp: dispatch_response_open_def split: option.splits intro: push_plain rsp_open_plain)
    (simp_all add: plain_def)

lemma elapse_open_plain:
  assumes "elapse_open co n w = Inr (fs', w')"
  shows "plain w fs' w'"
proof -
  have "plain v fs' w'" if "fire_open co t v = Inr (fs', w')" for t v
  proof -
    from that consider "fs' = []" "w' = v" | gs where "fs' = gs @ [EraseTimer (t_dispatcher t) (t_seq t)]"
        "(case t_cb t of None \<Rightarrow> stop v | Some f \<Rightarrow> timeout_open co f v) = Inr (gs, w')"
      by (auto simp: fire_open_def push_def res_simps split: option.splits if_splits)
    then show ?thesis
      using timeout_open_plain [of co _ v _ w'] by cases (auto simp: plain_def split: option.splits)
  qed
  with assms show ?thesis
    by (auto simp: elapse_open_def plain_def split: if_splits)
qed

lemma resume_plain:
  assumes "resume co f w = Inr (fs', w')" "\<And>c m. f \<noteq> Respond c m"
  shows "plain w fs' w'"
  using assms
  by (cases f) (auto simp: res_simps plain_def [of w "[]"] commands_erase split: if_splits
      intro: finish_plain after_send_plain after_timeout_plain dest: release_commands)

section \<open>Steps that keep the helpers\<close>

text \<open>
  All but the helpers in \<open>K\<close> keep their functions, new numbers stay unused, and the handlers of commands
  are those that \<open>subscribe\<close> registers.
\<close>

definition keeps_helpers :: "nat set \<Rightarrow> 'u world \<Rightarrow> 'u world \<Rightarrow> bool" where
  "keeps_helpers K w w' \<longleftrightarrow>
     (rrs_fresh w \<longrightarrow> rrs_fresh w') \<and> (handlers_ok w \<longrightarrow> handlers_ok w') \<and>
     (\<forall>k. k \<notin> K \<longrightarrow> helper_set w k \<longrightarrow> helper_set w' k)"

lemma keeps_trans: "keeps_helpers K w w1 \<Longrightarrow> keeps_helpers K w1 w' \<Longrightarrow> keeps_helpers K w w'"
  by (auto simp: keeps_helpers_def)

lemma keeps_same:
  "rrs w' = rrs w \<Longrightarrow> next_rr w' = next_rr w \<Longrightarrow> rpcs w' = rpcs w \<Longrightarrow> keeps_helpers K w w'"
  by (simp add: keeps_helpers_def rrs_fresh_def handlers_ok_def helper_set_def)

lemma responding_keeps:
  assumes "responding (fs' @ fs) w" "keeps_helpers K w w'" "K \<inter> set (helpers fs) = {}"
  shows "responding fs w'"
proof -
  have "respond_ok w' f" if f: "f \<in> set fs" for f
  proof (cases f)
    case (Respond c m)
    have "respond_ok w f" using assms(1) f by (simp add: responding_def)
    moreover have "k \<notin> K" if "helper_of f = Some k" for k
      using assms(3) that f helpers_iff [of k fs] by blast
    ultimately show ?thesis using Respond assms(2) by (fastforce simp: keeps_helpers_def)
  qed simp_all
  with assms(1,2) show ?thesis by (simp add: responding_def keeps_helpers_def)
qed

text \<open>A helper changes that exists.\<close>

lemma keeps_put_rr:
  assumes "rrs w k \<noteq> None" "k \<in> K \<or> (\<forall>x. rrs w k = Some x \<longrightarrow> is_ready_set x \<and> get_data_set x \<longrightarrow>
      is_ready_set y \<and> get_data_set y)"
  shows "keeps_helpers K w (put_rr k y w)"
proof -
  have "k < next_rr w" if "rrs_fresh w" using assms(1) that by (meson not_le_imp_less rrs_fresh_def)
  then show ?thesis
    using assms(2) by (auto simp: keeps_helpers_def rrs_fresh_def handlers_ok_def helper_set_def put_rr_def
        split: option.splits)
qed

lemma keeps_release:
  assumes "rrs w k = Some x" "k \<in> K \<or> is_ready_set y = is_ready_set x \<and> get_data_set y = get_data_set x"
  shows "keeps_helpers K w (rr_release k y w)"
proof (cases "rr_refs y = 0 \<and> \<not> is_ready_set y")
  case True
  with assms show ?thesis
    by (auto simp: rr_release_def keeps_helpers_def rrs_fresh_def handlers_ok_def helper_set_def)
next
  case False
  with assms keeps_put_rr [of w k K y] show ?thesis by (auto simp: rr_release_def)
qed

lemma send_package_keeps: "send_package c p w = Inr w' \<Longrightarrow> keeps_helpers K w w'"
  using send_package_frame [of c p w w'] by (intro keeps_same) auto

lemma send_msg_keeps: "send_msg co c m w = Inr w' \<Longrightarrow> keeps_helpers K w w'"
  by (auto simp: send_msg_def res_simps intro: send_package_keeps)

lemma rr_drop_keeps: "rr_drop k w = Inr w' \<Longrightarrow> keeps_helpers {} w w'"
  by (auto simp: rr_drop_def split: option.splits intro: keeps_release)

lemma rr_rsp_keeps:
  assumes "rr_rsp co k d w = Inr w'"
  shows "keeps_helpers {} w w'"
proof -
  obtain x where x: "rrs w k = Some x" using assms by (auto simp: rr_rsp_def split: option.splits)
  have p: "keeps_helpers {} w (put_rr k y w)" if "is_ready_set y = is_ready_set x" "get_data_set y = get_data_set x" for y
    using x that by (intro keeps_put_rr) simp_all
  have r: "keeps_helpers {} v v'" if "run_send_async co f b v = Inr v'" for f b v v'
    using that by (cases f) (auto simp: run_send_async_def Let_def res_simps keeps_same
        split: if_splits intro: send_package_keeps)
  show ?thesis
    using assms x
    by (auto simp: rr_rsp_def Let_def res_simps keeps_same p
        split: if_splits option.splits dest!: r elim!: keeps_trans [rotated])
qed

lemma run_handler_keeps:
  assumes "run_handler co k f w = Inr w'"
  shows "keeps_helpers {} w w'"
proof -
  let ?w = "w\<lparr>user := h_user (f (user w))\<rparr>"
  from assms obtain w1 where w1: "(case h_rsp (f (user w)) of None \<Rightarrow> Inr ?w | Some d \<Rightarrow> rr_rsp co k d ?w) = Inr w1"
      "w' = w1 \<or> rr_drop k w1 = Inr w'"
    by (auto simp: run_handler_def Let_def res_simps split: if_splits)
  have "keeps_helpers {} w ?w" by (rule keeps_same) simp_all
  moreover have "keeps_helpers {} ?w w1" using w1(1) rr_rsp_keeps by (auto simp: keeps_same split: option.splits)
  moreover have "keeps_helpers {} w1 w'" using w1(2) rr_drop_keeps by (auto simp: keeps_same)
  ultimately show ?thesis by (blast intro: keeps_trans)
qed

lemma run_job_keeps:
  assumes "run_job co n w = Inr w'"
  shows "keeps_helpers {} w w'"
proof -
  have "keeps_helpers {} w (w\<lparr>jobs := js\<rparr>)" for js by (rule keeps_same) simp_all
  with assms show ?thesis
    by (auto simp: run_job_def keeps_same split: if_splits prod.splits dest!: run_handler_keeps elim!: keeps_trans [rotated])
qed

text \<open>Handlers are registered and removed.\<close>

lemma keeps_handlers:
  assumes "\<And>r x cmd h. rpcs w' r = Some x \<Longrightarrow> cmd_handle_map (dispatcher x) cmd = Some h \<Longrightarrow>
      handler_ok h \<or> (\<exists>y. rpcs w r = Some y \<and> cmd_handle_map (dispatcher y) cmd = Some h)"
    and "rrs w' = rrs w" "next_rr w' = next_rr w"
  shows "keeps_helpers K w w'"
proof -
  have "handlers_ok w'" if h: "handlers_ok w"
    unfolding handlers_ok_def
  proof (intro allI impI)
    fix r x cmd h
    assume "rpcs w' r = Some x" "cmd_handle_map (dispatcher x) cmd = Some h"
    from assms(1) [OF this] h show "handler_ok h" unfolding handlers_ok_def by blast
  qed
  with assms(2,3) show ?thesis by (simp add: keeps_helpers_def rrs_fresh_def helper_set_def)
qed

lemma on_rpc_keeps:
  assumes "on_rpc r f w = Inr w'"
    and "\<And>x cmd h. cmd_handle_map (dispatcher (f x)) cmd = Some h \<Longrightarrow>
      handler_ok h \<or> cmd_handle_map (dispatcher x) cmd = Some h"
  shows "keeps_helpers K w w'"
proof -
  obtain x where x: "rpcs w r = Some x" "w' = put_rpc r (f x) w"
    using assms(1) by (auto simp: on_rpc_def res_simps)
  show ?thesis
    by (rule keeps_handlers) (use x assms(2) in \<open>auto simp: put_rpc_def split: if_splits\<close>)
qed

lemma keeps_rpcs:
  "(\<And>r x. rpcs w' r = Some x \<Longrightarrow> rpcs w r = Some x \<or> cmd_handle_map (dispatcher x) = Map.empty) \<Longrightarrow>
   rrs w' = rrs w \<Longrightarrow> next_rr w' = next_rr w \<Longrightarrow> keeps_helpers K w w'"
  by (rule keeps_handlers) fastforce+

lemma act_keeps:
  assumes "exec co a w = Inr w'" "may_act fs w a"
  shows "keeps_helpers {} w w'"
proof (cases a)
  case (Create r)
  with assms(1) show ?thesis by (auto simp: create_request_def Let_def put_req_def intro: keeps_same)
next
  case (Copy i)
  with assms(1) show ?thesis by (auto simp: on_req_def res_simps put_req_def intro: keeps_same)
next
  case (Drop i)
  with assms(1) show ?thesis by (auto simp: drop_ref_def res_simps put_req_def keeps_same split: if_splits)
next
  case (Setting i s)
  with assms(1) show ?thesis by (auto simp: on_req_def res_simps put_req_def intro: keeps_same)
next
  case (Cancel i)
  show ?thesis
  proof (cases "idle_req w i")
    case True
    then obtain q where q: "reqs w i = Some q" "\<not> waiting_rsp q" by (auto simp: idle_req_def split: option.splits)
    with True assms(1) Cancel show ?thesis
      by (auto simp: request_cancel_def on_req_def req_canceled_def on_finish_def put_req_def intro: keeps_same)
  qed (use assms(1) Cancel in \<open>simp add: keeps_same\<close>)
next
  case (OpenConnection c x)
  with assms(1) show ?thesis by (auto simp: open_connection_def put_conn_def intro: keeps_same)
next
  case (RpcCreate r c)
  with assms(1) show ?thesis
    by (intro keeps_rpcs)
      (auto simp: rpc_create_def res_simps put_defs new_rpc_def new_dispatcher_def split: if_splits)
next
  case (RpcDestroy r)
  with assms(1) show ?thesis by (intro keeps_rpcs) (auto simp: rpc_destroy_def split: if_splits)
next
  case (SetTimer r t)
  with assms(1) have "on_rpc r (rpc_set_timer t) w = Inr w'" by simp
  then show ?thesis by (rule on_rpc_keeps) (simp add: rpc_set_timer_def set_timer_impl_def)
next
  case (SetReady r b)
  with assms(1) have "on_rpc r (rpc_set_ready b) w = Inr w'" by simp
  then show ?thesis by (rule on_rpc_keeps) (simp add: rpc_set_ready_def)
next
  case (Subscribe r cmd h)
  with assms(1) have "on_rpc r (rpc_subscribe cmd h) w = Inr w'" by simp
  then show ?thesis
    by (rule on_rpc_keeps)
      (use assms(2) Subscribe in \<open>auto simp: rpc_subscribe_def subscribe_cmd_def split: if_splits\<close>)
next
  case (Unsubscribe r cmd)
  with assms(1) have "on_rpc r (rpc_unsubscribe cmd) w = Inr w'" by simp
  then show ?thesis
    by (rule on_rpc_keeps) (auto simp: rpc_unsubscribe_def unsubscribe_cmd_def split: option.splits if_splits)
next
  case (RunJob n)
  with assms(1) run_job_keeps show ?thesis by auto
next
  case (RrRsp k d)
  with assms(1) rr_rsp_keeps show ?thesis by auto
next
  case (RrDrop k)
  with assms(1) rr_drop_keeps show ?thesis by auto
next
  case (UserState u)
  with assms(1) show ?thesis by (auto intro: keeps_same)
qed (use assms(2) in auto)

section \<open>Commands and their responses\<close>

lemma respond_keeps:
  assumes "respond co c m w = Inr w'"
  shows "keeps_helpers (set (helpers [Respond c m])) w w'"
proof (cases "m_response_state m")
  case serialize_error
  with assms show ?thesis by (simp add: respond_def keeps_same)
next
  case response_sync
  with assms send_msg_keeps show ?thesis by (auto simp: respond_def)
next
  case response_async
  with assms obtain k x where k: "m_async_helper m = Some k" "rrs w k = Some x"
    by (auto simp: respond_def split: option.splits)
  then have h: "set (helpers [Respond c m]) = {k}" using response_async by simp
  from assms response_async k consider y where "w' = put_rr k y w"
    | m' y where "send_msg co c m' (rr_release k y w) = Inr w'"
    by (auto simp: respond_def Let_def split: if_splits)
  then show ?thesis
  proof cases
    case 1
    with k(2) show ?thesis unfolding h by (auto intro: keeps_put_rr)
  next
    case 2
    have "keeps_helpers {k} w (rr_release k y w)" using k(2) by (rule keeps_release) simp
    then show ?thesis unfolding h using send_msg_keeps [OF 2] by (rule keeps_trans)
  qed
qed

text \<open>The object of a handler that answers later is new, and stays while the handler runs.\<close>

lemma run_async_handle_new:
  assumes "run_async_handle co sch f msg w = Inr (resp, w')" "rrs_fresh w"
  shows "keeps_helpers {} w w' \<and>
    (\<forall>k. helper_of (Respond c (snd resp)) = Some k \<longrightarrow> next_rr w \<le> k \<and> helper_set w' k) \<and>
    respond_ok w' (Respond c (snd resp))"
proof -
  let ?w = "w\<lparr>next_rr := next_rr w + 1\<rparr>"
  let ?w1 = "put_rr (next_rr w) (new_rr\<lparr>rsp_set := True\<rparr>) ?w"
  have n: "rrs w (next_rr w) = None" using assms(2) by (simp add: rrs_fresh_def)
  have k: "keeps_helpers {} w ?w" "keeps_helpers {} w ?w1"
    using n by (auto simp: keeps_helpers_def rrs_fresh_def handlers_ok_def helper_set_def put_rr_def split: option.splits)
  from assms(1) obtain ok h where f: "f (m_data msg) = Inr (ok, h)"
    by (auto simp: run_async_handle_def Let_def res_simps)
  show ?thesis
  proof (cases ok)
    case False
    with assms(1) f k(1) show ?thesis by (auto simp: run_async_handle_def Let_def make_rsp_async_def)
  next
    case True
    with assms(1) f have r: "resp = make_rsp_async (m_seq msg) (next_rr w) True" and
      w': "w' = ?w1\<lparr>jobs := jobs ?w1 @ [(next_rr w, h)]\<rparr> \<or> run_handler co (next_rr w) h ?w1 = Inr w'"
      by (auto simp: run_async_handle_def Let_def res_simps split: if_splits)
    have k1: "keeps_helpers {} ?w1 w'"
      using w' run_handler_keeps by (auto intro: keeps_same)
    moreover have "helper_set ?w1 (next_rr w)" by (simp add: helper_set_def put_rr_def new_rr_def)
    ultimately have "helper_set w' (next_rr w)" by (simp add: keeps_helpers_def)
    with keeps_trans [OF k(2) k1] show ?thesis by (simp add: r make_rsp_async_def)
  qed
qed

lemma run_cmd_handle_new:
  assumes "run_cmd_handle co fn msg w = Inr (resp, w')" "rrs_fresh w" "handler_ok fn"
  shows "keeps_helpers {} w w' \<and>
    (\<forall>k. helper_of (Respond c (snd resp)) = Some k \<longrightarrow> next_rr w \<le> k \<and> helper_set w' k) \<and>
    respond_ok w' (Respond c (snd resp))"
proof (cases fn)
  case (SyncHandle f)
  with assms(1,3) have "m_response_state (snd resp) \<noteq> response_async" "\<exists>u. w' = w\<lparr>user := u\<rparr>"
    by (fastforce simp: run_cmd_handle_def handler_ok_def res_simps)+
  then show ?thesis by (auto intro: keeps_same)
next
  case (AsyncHandle sch f)
  with assms(1) have "run_async_handle co sch f msg w = Inr (resp, w')" by (simp add: run_cmd_handle_def)
  from run_async_handle_new [OF this assms(2)] show ?thesis .
qed

lemma dispatch_command_responding:
  assumes "dispatch_command_open co (dispatcher x) msg w = Inr (fs', w')" "rpcs w r = Some x" "responding fs w"
  shows "responding (fs' @ fs) w'"
proof -
  let ?d = "dispatcher x"
  have k: "responding fs v" if "keeps_helpers {} w v" for v
    using responding_keeps [of "[]" fs w "{}" v] that assms(3) by simp
  show ?thesis
  proof (cases "has_flag (m_type msg) ping \<or> cmd_handle_map ?d (m_cmd msg) = None")
    case True
    with assms(1) have "fs' = []" "keeps_helpers {} w w'"
      by (auto simp: dispatch_command_open_def Let_def res_simps keeps_same split: if_splits intro: send_msg_keeps)
    with k show ?thesis by simp
  next
    case False
    then obtain fn where fn: "cmd_handle_map ?d (m_cmd msg) = Some fn" by auto
    from assms(1) False fn obtain resp where r: "run_cmd_handle co fn msg w = Inr (resp, w')"
        "fs' = [] \<or> fs' = [Respond (dispatcher_conn ?d) (snd resp)]"
      by (auto simp: dispatch_command_open_def Let_def res_simps split: if_splits)
    have f: "rrs_fresh w" "handler_ok fn"
      using assms(2,3) fn by (auto simp: responding_def handlers_ok_def)
    note n = run_cmd_handle_new [OF r(1) f, of "dispatcher_conn ?d"]
    have old: "k < next_rr w" if "k \<in> set (helpers fs)" for k
      using helpers_set [OF assms(3) that] f(1) by (force simp: helper_set_def rrs_fresh_def not_le [symmetric])
    from r(2) show ?thesis
    proof
      assume "fs' = []"
      with n k show ?thesis by simp
    next
      assume fs': "fs' = [Respond (dispatcher_conn ?d) (snd resp)]"
      have "distinct (helpers (fs' @ fs))"
        using n old k [of w'] by (fastforce simp: fs' responding_def split: option.splits)
      with n k [of w'] show ?thesis by (auto simp: fs' responding_def)
    qed
  qed
qed

section \<open>The steps\<close>

lemma recv_responding:
  assumes "recv_open co c p w = Inr (fs', w')" "responding fs w"
  shows "responding (fs' @ fs) w'"
proof -
  obtain x where x: "conns w c = Some x" using assms(1) by (auto simp: recv_open_def res_simps)
  have "(fs' = [] \<and> w' = w) \<or> (\<exists>r msg. dispatch_open co r msg w = Inr (fs', w'))"
    using assms(1) x
    by (cases "on_recv_package x") (auto simp: recv_open_def res_simps split: option.split_asm if_split_asm)
  then show ?thesis
  proof (elim disjE exE)
    show ?thesis if "fs' = [] \<and> w' = w" using that assms(2) by simp
    show ?thesis if d: "dispatch_open co r msg w = Inr (fs', w')" for r msg
    proof -
      from d obtain y where y: "rpcs w r = Some y" by (auto simp: dispatch_open_def res_simps)
      from d y consider "fs' = []" "w' = w" | "dispatch_command_open co (dispatcher y) msg w = Inr (fs', w')"
        | "dispatch_response_open r (dispatcher y) msg w = Inr (fs', w')"
        by (auto simp: dispatch_open_def Let_def split: if_splits)
      then show ?thesis
      proof cases
        case 2
        from dispatch_command_responding [OF this y assms(2)] show ?thesis .
      next
        case 3
        from responding_plain [OF assms(2) dispatch_response_open_plain [OF this]] show ?thesis .
      qed (use assms(2) in simp)
    qed
  qed
qed

lemma return_responding:
  assumes "resume co f w = Inr (fs', w')" "responding (f # fs) w"
  shows "responding (fs' @ fs) w'"
proof (cases "\<exists>c m. f = Respond c m")
  case True
  then obtain c m where f: "f = Respond c m" by blast
  with assms(1) have r: "fs' = []" "respond co c m w = Inr w'" by (auto simp: res_simps)
  have "set (helpers [f]) \<inter> set (helpers fs) = {}"
    using assms(2) by (auto simp: responding_def split: option.splits)
  with responding_keeps [of "[f]" fs w _ w'] respond_keeps [OF r(2)] assms(2) r(1) f show ?thesis by auto
next
  case False
  have "responding fs w"
    using responding_keeps [of "[f]" fs w "{}" w] assms(2) by (simp add: keeps_same)
  from responding_plain [OF this resume_plain [OF assms(1)]] False show ?thesis by blast
qed

theorem nested_step_responding: "nested_step co (fs, w) (fs', w') \<Longrightarrow> responding fs w \<Longrightarrow> responding fs' w'"
proof (erule nested_stepE)
  show "responding fs' w'" if "responding fs w" "fs' = fs" "may_act fs w a" "exec co a w = Inr w'" for a
    using responding_keeps [of "[]" fs w "{}" w'] act_keeps [OF that(4,3)] that(1,2) by simp
  show "responding fs' w'" if "responding fs w" "fs' = gs @ fs" "user_call_open co i rpc w = Inr (gs, w')" for i rpc gs
  proof -
    have "plain w gs w'"
      using that(3) by (auto simp: user_call_open_def intro: plain_from [OF call_open_plain])
    from responding_plain [OF that(1) this] that(2) show ?thesis by simp
  qed
qed (auto intro: return_responding recv_responding responding_plain [OF _ elapse_open_plain])

lemma nested_reachable_responding: "nested_reachable co fs w \<Longrightarrow> responding fs w"
proof (induction rule: nested_reachable.induct)
  case (init u)
  show ?case by (simp add: responding_def rrs_fresh_def handlers_ok_def empty_world_def)
next
  case (step fs w fs' w')
  then show ?case using nested_step_responding by blast
qed

text \<open>The code behind a command handler never faults if it can send.\<close>

lemma respond_total:
  assumes "responding (Respond c m # fs) w" "total_coder co"
    and "conns w c = Some x" "send_package_impl x \<noteq> NoSend"
  shows "\<exists>w'. respond co c m w = Inr w'"
proof -
  have s: "\<exists>w'. send_msg co c m v = Inr w'" if v: "conns v = conns w" for m v
  proof -
    obtain b where "co_serialize co m = Inr b" using assms(2) by (auto simp: total_coder_def)
    with v assms(3,4) show ?thesis
      by (cases "send_package_impl x") (simp_all add: send_msg_def send_package_def with_conn_def)
  qed
  have c: "conns (rr_release k y w) = conns w" for k y by (simp add: rr_release_def put_rr_def)
  show ?thesis
  proof (cases "m_response_state m")
    case response_async
    with assms(1) obtain k y where "m_async_helper m = Some k" "rrs w k = Some y" "is_ready_set y" "get_data_set y"
      by (auto simp: responding_def helper_set_def split: option.splits)
    with response_async s [OF c] show ?thesis by (simp add: respond_def Let_def)
  qed (use s [OF refl] in \<open>simp_all add: respond_def\<close>)
qed

end
