(* ===== verification/ReentryProps.thy ===== *)
theory ReentryProps
  imports ReentryRespond
begin

text \<open>
  Properties of programs whose callbacks call the library: nothing is used after its destruction,
  every call ends once. And what happens in callbacks that do more than such programs may.
\<close>

section \<open>The balance of calls and ends\<close>

lemma release_good:
  assumes "release_keeper i w = Inr w'" "reqs w i = Some q" "\<not> waiting_rsp q" "good w"
  shows "good w'"
proof -
  have w': "w' = (if refs q = 0 then w\<lparr>reqs := (reqs w)(i := None)\<rparr> else put_req i (q\<lparr>self_keeper := False\<rparr>) w)"
    using assms(1,2) by (auto simp: release_keeper_def split: if_splits)
  have "waiting w' j = waiting w j" for j using assms(2,3) by (auto simp: w' waiting_def put_req_def)
  then have "balanced w'" using assms(4) balanced_eq [of w' w] by (simp add: w' good_def put_req_def)
  moreover have "kept w'" using assms(3,4) by (auto simp: w' good_def kept_def put_req_def split: if_splits)
  ultimately show ?thesis by (simp add: good_def)
qed

lemma finish_open_ended:
  assumes "finish_open i ty w = Inr (fs', w')"
  shows "ended i ty w w'"
proof -
  obtain q where q: "reqs w i = Some q" using assms by (auto simp: finish_open_def res_simps)
  show ?thesis
  proof (cases "waiting_rsp q")
    case False
    with assms q show ?thesis by (simp add: finish_open_def ended_def waiting_def)
  next
    case True
    with assms q show ?thesis
      by (auto simp: finish_open_def release_keeper_def Let_def put_defs ended_def waiting_def
          split: option.splits if_splits)
  qed
qed

lemma finish_open_good: "finish_open i ty w = Inr (fs', w') \<Longrightarrow> good w \<Longrightarrow> good w'"
  using finish_open_ended ended_good by blast

lemma after_send_good: "after_send i w = Inr (fs', w') \<Longrightarrow> good w \<Longrightarrow> good w'"
  by (auto simp: after_send_def res_simps split: if_splits dest: finish_open_good)

lemma call_through_open_good:
  assumes "call_through_open co i r w = Inr (fs', w')" "good w"
  shows "good w'"
proof -
  from assms(1) obtain s w1 w2 w3 where w: "make_seq r w = Inr (s, w1)"
      "on_req i (\<lambda>q. q\<lparr>req_seq := s\<rparr>) w1 = Inr w2" "send_request co r i w2 = Inr w3"
      "w' = w3 \<or> after_send i w3 = Inr (fs', w')"
    unfolding call_through_open_def by (auto elim!: bindr_InrE split: if_splits)
  have "good w1 = good w"
    using w(1) by (intro good_objects) (auto simp: make_seq_def res_simps put_rpc_def)
  with assms(2) on_req_good [OF w(2)] send_request_good [OF w(3)] w(4) after_send_good show ?thesis by auto
qed

lemma call_open_good:
  assumes "call_open co i rpc w = Inr (fs', w')" and q: "reqs w i = Some q"
    and b: "balanced (put_req i (q\<lparr>waiting_rsp := True\<rparr>) w)" and k: "others_kept i w"
  shows "good w'"
proof -
  let ?w1 = "put_req i (q\<lparr>waiting_rsp := True\<rparr>) w" and ?w2 = "put_req i (prepared rpc q) w"
  have "waiting ?w2 j = waiting ?w1 j" for j by (simp add: waiting_def put_req_def)
  then have "balanced ?w2" using b balanced_eq [of ?w2 ?w1] by (simp add: put_req_def)
  moreover have "kept ?w2" using k by (auto simp: kept_def others_kept_def put_req_def)
  ultimately have g: "good ?w2" by (simp add: good_def)
  from assms(1) q show ?thesis
  proof (cases rule: call_open_cases)
    case canceled
    note e = finish_open_ended [OF canceled(2)]
    have "kept w'"
      using ended_kept [OF e] k by (auto simp: others_kept_def put_req_def waiting_def)
    with ended_balanced [OF e b] show ?thesis by (simp add: good_def)
  next
    case (refused ty)
    from finish_open_good [OF this g] show ?thesis .
  next
    case (through r)
    from call_through_open_good [OF this g] show ?thesis .
  qed
qed

lemma user_call_open_good:
  assumes "user_call_open co i rpc w = Inr (fs', w')" "good w" "reqs w i = Some q" "\<not> waiting_rsp q"
  shows "good w'"
proof (rule call_open_good)
  let ?w = "log_event (event.Call i) w"
  show "call_open co i rpc ?w = Inr (fs', w')" using assms(1) by (simp add: user_call_open_def)
  show "reqs ?w i = Some q" using assms(3) by (simp add: log_event_def)
  have "waiting (put_req i (q\<lparr>waiting_rsp := True\<rparr>) ?w) j = (j = i \<or> waiting w j)" for j
    by (simp add: waiting_def put_defs)
  moreover have "\<not> waiting w i" using assms(3,4) by (simp add: waiting_def)
  ultimately show "balanced (put_req i (q\<lparr>waiting_rsp := True\<rparr>) ?w)"
    using assms(2) unfolding good_def balanced_def by (auto simp: put_defs)
  show "others_kept i ?w" using assms(2) by (auto simp: good_def kept_def others_kept_def log_event_def)
qed

lemma recall_open_good:
  assumes "call_open co i rpc w = Inr (fs', w')" "good w" "reqs w i = Some q" "waiting_rsp q"
  shows "good w'"
proof (rule call_open_good [OF assms(1,3)])
  have "q\<lparr>waiting_rsp := True\<rparr> = q" using assms(4) by simp
  then show "balanced (put_req i (q\<lparr>waiting_rsp := True\<rparr>) w)"
    using assms(2,3) by (simp add: put_req_def good_def fun_upd_idem)
  show "others_kept i w" using assms(2) kept_others by (auto simp: good_def)
qed

lemma after_timeout_good:
  assumes "after_timeout co i w = Inr (fs', w')" "good w" "reqs w i = Some q" "waiting_rsp q"
  shows "good w'"
proof -
  let ?q = "q\<lparr>retry_count := retry_count q - 1\<rparr>"
  from assms(1,3) consider "call_open co i None w = Inr (fs', w')"
    | "call_open co i None (put_req i ?q w) = Inr (fs', w')" | "finish_open i timeout w = Inr (fs', w')"
    by (auto simp: after_timeout_def on_req_def split: if_splits)
  then show ?thesis
  proof cases
    case 1
    from recall_open_good [OF this assms(2-4)] show ?thesis .
  next
    case 2
    have "good (put_req i ?q w)"
      using on_req_good [of i "\<lambda>q. q\<lparr>retry_count := retry_count q - 1\<rparr>" w] assms(2,3) by (simp add: on_req_def)
    from recall_open_good [OF 2 this] assms(4) show ?thesis by (simp add: put_req_def)
  next
    case 3
    from finish_open_good [OF this assms(2)] show ?thesis .
  qed
qed

lemma run_user_good [simp]: "good (run_user f w) = good w"
  by (rule good_same [OF same_calls_user(1)])

lemma rsp_open_good: "rsp_open h msg w = Inr (fs', w') \<Longrightarrow> good w \<Longrightarrow> good w'"
  by (auto simp: rsp_open_def Let_def res_simps
      split: if_splits rsp_cb.splits dest: finish_open_good)

lemma timeout_open_good:
  assumes "timeout_open co t w = Inr (fs', w')" "good w" "reqs w (tc_this t) = Some q" "waiting_rsp q"
  shows "good w'"
proof (cases "tc_cb t")
  case None
  with assms after_timeout_good show ?thesis by (auto simp: timeout_open_def)
next
  case (Some f)
  have "same_calls w (log_event (TimeoutCb (tc_this t)) (run_user f w))"
    by (simp add: same_calls_def moves_def put_defs)
  from good_same [OF this] Some assms(1,2) show ?thesis by (auto simp: timeout_open_def Let_def)
qed

lemma resume_good:
  assumes "resume co f w = Inr (fs', w')" "good w" "safe (f # fs) w"
  shows "good w'"
proof (cases f)
  case (AfterFinally i)
  with assms(3) have "\<exists>q. reqs w i = Some q \<and> \<not> waiting_rsp q" by (auto simp: safe_def)
  with AfterFinally assms(1,2) release_good show ?thesis by (auto simp: res_simps)
next
  case (AfterTimeout i)
  with assms(3) have "\<exists>q. reqs w i = Some q \<and> waiting_rsp q" by (auto simp: safe_def held_True)
  with AfterTimeout assms(1,2) after_timeout_good show ?thesis by auto
next
  case (Respond c m)
  with assms(1) have "same_calls w w'" by (auto simp: res_simps intro: respond_same)
  from good_same [OF this] assms(2) show ?thesis by simp
qed (use assms(1,2) in \<open>auto simp: res_simps split: if_splits intro: finish_open_good after_send_good\<close>)

lemma dispatch_open_good:
  assumes "dispatch_open co r msg w = Inr (fs', w')" "good w"
  shows "good w'"
proof -
  from assms(1) obtain x where x: "rpcs w r = Some x" by (auto simp: dispatch_open_def res_simps)
  with assms(1) consider "w' = w" | "dispatch_command_open co (dispatcher x) msg w = Inr (fs', w')"
    | h gs where "rsp_open h msg w = Inr (gs, w')"
    by (auto simp: dispatch_open_def Let_def dispatch_response_open_def push_def split: if_splits option.splits)
  then show ?thesis
  proof cases
    case 2
    from dispatch_command_open_cases [OF this] good_same assms(2) show ?thesis by blast
  qed (use assms(2) rsp_open_good in auto)
qed

lemma recv_open_good:
  assumes "recv_open co c p w = Inr (fs', w')" "good w"
  shows "good w'"
proof -
  obtain x where x: "conns w c = Some x" using assms(1) by (auto simp: recv_open_def res_simps)
  have "w' = w \<or> (\<exists>r msg. dispatch_open co r msg w = Inr (fs', w'))"
    using assms(1) x
    by (cases "on_recv_package x") (auto simp: recv_open_def res_simps split: option.split_asm if_split_asm)
  with assms(2) dispatch_open_good show ?thesis by blast
qed

lemma elapse_open_good:
  assumes "elapse_open co n w = Inr (fs', w')" "good w" "safe fs w" "may_elapse fs n w"
  shows "good w'"
proof (cases "n < length (timers w)")
  case False
  with assms(1,2) show ?thesis by (simp add: elapse_open_def)
next
  case True
  define t where "t = timers w ! n"
  define w1 where "w1 = w\<lparr>timers := take n (timers w) @ drop (Suc n) (timers w)\<rparr>"
  have g: "good w1" using assms(2) good_objects [of w1 w] by (simp add: w1_def)
  have e: "rpcs w1 = rpcs w" "reqs w1 = reqs w" by (simp_all add: w1_def)
  from assms(1) True have f: "fire_open co t w1 = Inr (fs', w')" by (simp add: elapse_open_def t_def w1_def)
  show ?thesis
  proof (cases "entry w (t_dispatcher t) (t_seq t)")
    case None
    with f g e show ?thesis by (auto simp: fire_open_def entry_def split: option.splits)
  next
    case (Some en)
    note i = safe_inv [OF assms(3)]
    have n: "(t_dispatcher t, t_seq t) \<notin> running fs"
      using assms(4) True by (simp add: may_elapse_def t_def Let_def)
    obtain h q where h: "en = Some h" "reqs w (rh_this h) = Some q" "waiting_rsp q"
      using inv_entryD [OF i Some n] by (auto simp: held_True)
    obtain tc where tc: "t_cb t = Some tc" "tc_this tc = rh_this h"
      using inv_timerD [OF i nth_mem [OF True], folded t_def] Some h n by blast
    from f Some tc e obtain gs where "timeout_open co tc w1 = Inr (gs, w')"
      by (auto simp: fire_open_def entry_def push_def split: option.splits)
    from timeout_open_good [OF this g] h tc(2) e show ?thesis by simp
  qed
qed

lemma act_good:
  assumes "exec co a w = Inr w'" "may_act fs w a" "safe fs w" "good w"
  shows "good w'"
proof (cases a)
  case (Create r)
  with assms(1) create_request_good [OF assms(4) safe_inv [OF assms(3)], of r] show ?thesis by simp
next
  case (Drop i)
  with assms(1,4) drop_ref_good show ?thesis by (auto split: if_splits)
next
  case (Copy i)
  with assms(1,4) show ?thesis by (auto dest: on_req_good)
next
  case (Setting i s)
  with assms(1,4) show ?thesis by (auto simp: apply_setting_flags dest: on_req_good)
next
  case (Cancel i)
  show ?thesis
  proof (cases "idle_req w i")
    case True
    with Cancel assms(1) obtain w1 where w1: "on_req i (req_canceled True) w = Inr w1"
        "on_finish i canceled w1 = Inr w'"
      by (auto simp: request_cancel_def)
    have "good w1" using on_req_good [OF w1(1)] assms(4) by (simp add: req_canceled_def)
    with w1(2) on_finish_good show ?thesis by blast
  qed (use Cancel assms(1,4) in simp)
next
  case (RunJob n)
  with assms(1) have "same_calls w w'" by (auto intro: run_job_same)
  from good_same [OF this] assms(4) show ?thesis by simp
next
  case (RrRsp k d)
  with assms(1) have "same_calls w w'" by (auto intro: rr_rsp_same)
  from good_same [OF this] assms(4) show ?thesis by simp
next
  case (RrDrop k)
  with assms(1) have "same_calls w w'" by (auto intro: rr_drop_same)
  from good_same [OF this] assms(4) show ?thesis by simp
next
  case (RpcCreate r c)
  with assms(1,4) show ?thesis
    by (auto simp: rpc_create_def res_simps put_defs good_def balanced_def kept_def waiting_def split: if_splits)
next
  case (OpenConnection c x)
  with assms(1) have "same_calls w w'" by (auto simp: open_connection_def)
  from good_same [OF this] assms(4) show ?thesis by simp
qed (use assms in \<open>auto simp: on_rpc_def res_simps put_rpc_def rpc_destroy_def
      intro: good_objects [THEN iffD2]\<close>)

lemma nested_step_good: "nested_step co (fs, w) (fs', w') \<Longrightarrow> safe fs w \<Longrightarrow> good w \<Longrightarrow> good w'"
  by (erule nested_stepE)
    (blast intro: resume_good act_good user_call_open_good recv_open_good elapse_open_good)+

lemma nested_reachable_good: "nested_reachable co fs w \<Longrightarrow> good w"
proof (induction rule: nested_reachable.induct)
  case (init u)
  show ?case using reachable_good [OF reachable.init] .
next
  case (step fs w fs' w')
  then show ?case using nested_step_good nested_reachable_safe by blast
qed

section \<open>A sample: a call that is answered while it is sent\<close>

text \<open>The world of the sample program before its call.\<close>

definition sample_before :: "'u rsp_cb \<Rightarrow> 'u \<Rightarrow> 'u world" where
  "sample_before cb u =
     (empty_world u)
       \<lparr>conns := [0 \<mapsto> sample_conn\<lparr>on_recv_package := DispatcherRecv 0\<rparr>],
        rpcs := [0 \<mapsto> \<lparr>rpc_conn = 0, dispatcher = (new_dispatcher 0)\<lparr>timer_impl := True\<rparr>, rpc_seq = 0,
          rpc_is_ready = True\<rparr>],
        reqs := [0 \<mapsto> (sample_request cb)\<lparr>self_keeper := False, waiting_rsp := False\<rparr>], next_req := 1\<rparr>"

lemma sample_before_run:
  "run coder_default 1 (butlast (sample_program cb)) (empty_world u) = Inr (Some (sample_before cb u))"
  unfolding sample_program_def
  by (simp add: open_connection_def rpc_create_def put_defs on_rpc_def counter_ok_def unused_rpc_def
        create_request_def on_req_def Let_def sample_defs rpc_set_timer_def set_timer_impl_def
        rpc_set_ready_def setter_defs)
    (simp add: sample_before_def sample_defs)

fun quiet :: "'u action \<Rightarrow> bool" where
  "quiet (UserCall i r) = False"
| "quiet (Package c p) = False"
| "quiet (Elapse n) = False"
| "quiet (Subscribe r cmd h) = False"
| "quiet a = True"

lemma quiet_may_act: "quiet a \<Longrightarrow> may_act [] w a"
  by (cases a) (auto simp: busy_def)

lemma run_nested:
  "run co n as w = Inr (Some w') \<Longrightarrow> list_all quiet as \<Longrightarrow> nested_reachable co [] w \<Longrightarrow> nested_reachable co [] w'"
proof (induction as arbitrary: w)
  case (Cons a as)
  then obtain w1 where w1: "exec co a w = Inr w1" "run co n as w1 = Inr (Some w')"
    by (auto simp: res_simps split: if_splits)
  have "nested_step co ([], w) ([], w1)"
    using Cons.prems(2) w1(1) by (intro nested_step.act quiet_may_act) auto
  with Cons.prems w1(2) Cons.IH nested_reachable.step show ?case by fastforce
qed simp

lemma sample_call_open:
  "user_call_open coder_default 0 None (sample_before cb u) = Inr ([AfterSend 0], sample_world cb u)"
  by (simp add: user_call_open_def call_open_def call_through_open_def make_seq_def send_request_def
        subscribe_rsp_def put_dispatcher_def rpc_lock_def on_req_def sample_before_def sample_defs put_defs Let_def)
    (simp add: request_msg_def coder_default_def coder_serialize_def put_defs Let_def send_package_def
        le_bytes_numeral user_sends_def,
     simp add: sample_world_def sample_defs request_type_def flag_defs empty_msg_def)

lemma run_user_identity [simp]: "run_user id w = w"
  by (simp add: run_user_def)

lemma sample_sending: "nested_reachable coder_default [AfterSend 0] (sample_world cb u)"
proof -
  have "nested_reachable coder_default [] (sample_before cb u)"
    by (rule run_nested [OF sample_before_run _ nested_reachable.init]) (simp add: sample_program_def)
  moreover have "nested_step coder_default ([], sample_before cb u) ([AfterSend 0] @ [], sample_world cb u)"
    by (rule nested_step.user_call [where i = 0 and rpc = None
          and q = "(sample_request cb)\<lparr>self_keeper := False, waiting_rsp := False\<rparr>",
        OF _ _ _ _ _ _ sample_call_open])
      (simp_all add: sample_before_def sample_defs busy_def counters_ok_def)
  ultimately show ?thesis using nested_reachable.step by fastforce
qed

abbreviation answer_0 :: msg_wrapper where
  "answer_0 \<equiv> empty_msg\<lparr>m_type := 2\<rparr>"

lemma answer_0_simps:
  "dispatch_kind 2 = response" "\<not> has_flag 2 no_such_cmd" "m_seq answer_0 = 0"
  "co_deserialize coder_default [0, 0, 0, 0, 0, 0, 2] = Inr (Some answer_0)"
  by (simp_all add: dispatch_kind_def has_flag_def flag_defs empty_msg_def
      coder_default_def coder_deserialize_def PayloadMinLen_def Let_def)

lemma sample_dispatch_open:
  "dispatch_open coder_default 0 answer_0 (sample_world (Rsp0 f) u) =
     Inr ([AfterRsp 0 normal, EraseHandler 0 0], run_user f (sample_world (Rsp0 f) u))"
  using answer_0_simps
  by (simp add: dispatch_open_def dispatch_response_open_def push_def rsp_open_def Let_def
      sample_world_def sample_defs flag_defs)

lemma sample_answerable: "answerable [AfterSend 0] (sample_world cb u) 0 0"
  by (simp add: answerable_def has_ref_def entry_def sample_world_def sample_defs)

lemma sample_answered:
  "nested_reachable coder_default [AfterRsp 0 normal, EraseHandler 0 0, AfterSend 0]
     (run_user f (sample_world (Rsp0 f) u))"
proof -
  let ?w = "sample_world (Rsp0 f) u" and ?p = "[0, 0, 0, 0, 0, 0, 2] :: bytes"
  have c: "\<exists>x. conns ?w 0 = Some x \<and> on_recv_package x = DispatcherRecv 0" "rpcs ?w 0 \<noteq> None"
    by (simp_all add: sample_world_def)
  then have "recv_open coder_default 0 ?p ?w = Inr ([AfterRsp 0 normal, EraseHandler 0 0], run_user f ?w)"
    using answer_0_simps sample_dispatch_open [of f u] by (auto simp: recv_open_def)
  moreover have "may_receive coder_default [AfterSend 0] 0 ?p ?w"
    using answer_0_simps sample_answerable [of "Rsp0 f" u] c by (auto simp: may_receive_def)
  ultimately have "nested_step coder_default ([AfterSend 0], ?w)
      ([AfterRsp 0 normal, EraseHandler 0 0] @ [AfterSend 0], run_user f ?w)"
    by (intro nested_step.package) simp_all
  with sample_sending nested_reachable.step show ?thesis by fastforce
qed

text \<open>A command whose handler keeps its object for later has arrived, and its handler has returned.\<close>

definition sample_handle :: "'u cmd_handle" where
  "sample_handle = AsyncHandle False (\<lambda>d. Inr (True, \<lambda>u. \<lparr>h_rsp = None, h_keeps = True, h_user = u\<rparr>))"

abbreviation command_0 :: msg_wrapper where
  "command_0 \<equiv> empty_msg\<lparr>m_type := 5\<rparr>"

lemma command_0_simps:
  "dispatch_kind 5 = command" "has_flag 5 need_rsp" "\<not> has_flag 5 ping" "m_cmd command_0 = []" "m_seq command_0 = 0"
  "co_deserialize coder_default [0, 0, 0, 0, 0, 0, 5] = Inr (Some command_0)"
  by (simp_all add: dispatch_kind_def has_flag_def flag_defs empty_msg_def
      coder_default_def coder_deserialize_def PayloadMinLen_def Let_def)

lemma sample_handled:
  "\<exists>w :: 'u world. nested_reachable coder_default [Respond 0 (snd (make_rsp_async 0 0 True))] w \<and> conns_ok w \<and>
     (\<exists>x. conns w 0 = Some x \<and> send_package_impl x \<noteq> NoSend)"
proof -
  let ?w = "sample_before (Rsp0 id) (u :: 'u)"
  define w1 where "w1 = put_rpc 0 (rpc_subscribe [] sample_handle
      \<lparr>rpc_conn = 0, dispatcher = (new_dispatcher 0)\<lparr>timer_impl := True\<rparr>, rpc_seq = 0, rpc_is_ready = True\<rparr>) ?w"
  define w2 where "w2 = put_rr 0 (new_rr\<lparr>rsp_set := True\<rparr>) (w1\<lparr>next_rr := 1\<rparr>)"
  have "nested_reachable coder_default [] ?w"
    by (rule run_nested [OF sample_before_run _ nested_reachable.init]) (simp add: sample_program_def)
  moreover have "nested_step coder_default ([], ?w) ([], w1)"
    by (rule nested_step.act [where a = "Subscribe 0 [] sample_handle"])
      (simp_all add: w1_def on_rpc_def sample_before_def handler_ok_def sample_handle_def)
  ultimately have r: "nested_reachable coder_default [] w1" using nested_reachable.step by blast
  have c: "rpcs w1 0 \<noteq> None" "\<exists>x. conns w1 0 = Some x \<and> on_recv_package x = DispatcherRecv 0 \<and> send_package_impl x = UserSend"
    by (simp_all add: w1_def put_rpc_def sample_before_def sample_conn_def)
  have d: "dispatch_open coder_default 0 command_0 w1 = Inr ([Respond 0 (snd (make_rsp_async 0 0 True))], w2)"
    using command_0_simps
    by (simp add: dispatch_open_def dispatch_command_open_def Let_def w1_def put_rpc_def rpc_subscribe_def
        subscribe_cmd_def sample_handle_def run_cmd_handle_def run_async_handle_def run_handler_def w2_def
        sample_before_def empty_world_def new_dispatcher_def)
  with c command_0_simps have "recv_open coder_default 0 [0, 0, 0, 0, 0, 0, 5] w1 = Inr ([Respond 0 (snd (make_rsp_async 0 0 True))], w2)"
    by (auto simp: recv_open_def)
  moreover have "may_receive coder_default [] 0 [0, 0, 0, 0, 0, 0, 5] w1"
    using command_0_simps c by (auto simp: may_receive_def flag_defs)
  ultimately have "nested_step coder_default ([], w1) ([Respond 0 (snd (make_rsp_async 0 0 True))] @ [], w2)"
    by (intro nested_step.package) simp_all
  with r have "nested_reachable coder_default [Respond 0 (snd (make_rsp_async 0 0 True))] w2"
    using nested_reachable.step by fastforce
  moreover have "conns_ok w2" "\<exists>x. conns w2 0 = Some x \<and> send_package_impl x \<noteq> NoSend"
    by (auto simp: w2_def w1_def conns_ok_def put_defs put_rr_def sample_before_def sample_conn_def rpc_subscribe_def)
  ultimately show ?thesis by blast
qed

section \<open>Arrivals never fault\<close>

lemma timeout_open_total:
  assumes "total_coder co" "conns_ok w" "reqs w (tc_this t) = Some q"
  shows "\<exists>fs' w'. timeout_open co t w = Inr (fs', w')"
proof -
  from run_timeout_closure_total [OF assms] obtain w' where "run_timeout_closure co t w = Inr w'" by blast
  then show ?thesis using completed_total [of co "timeout_open co t w"] by (simp add: timeout_completed)
qed

lemma elapse_open_total:
  assumes "safe fs w" "conns_ok w" "total_coder co" "may_elapse fs n w"
  shows "\<exists>fs' w'. elapse_open co n w = Inr (fs', w')"
proof (cases "n < length (timers w)")
  case False
  then show ?thesis by (simp add: elapse_open_def stop_def)
next
  case True
  define t where "t = timers w ! n"
  define w1 where "w1 = w\<lparr>timers := take n (timers w) @ drop (Suc n) (timers w)\<rparr>"
  have e: "rpcs w1 = rpcs w" "reqs w1 = reqs w" "conns w1 = conns w" by (simp_all add: w1_def)
  have c: "conns_ok w1" using assms(2) by (simp add: conns_ok_def e)
  have "\<exists>fs' w'. fire_open co t w1 = Inr (fs', w')"
  proof (cases "entry w (t_dispatcher t) (t_seq t)")
    case None
    with e show ?thesis by (auto simp: fire_open_def entry_def stop_def split: option.splits)
  next
    case (Some en)
    note i = safe_inv [OF assms(1)]
    have n: "(t_dispatcher t, t_seq t) \<notin> running fs"
      using assms(4) True by (simp add: may_elapse_def t_def Let_def)
    obtain h q where h: "en = Some h" "reqs w (rh_this h) = Some q" using inv_entryD [OF i Some n] by auto
    obtain tc where tc: "t_cb t = Some tc" "tc_this tc = rh_this h"
      using inv_timerD [OF i nth_mem [OF True], folded t_def] Some h n by blast
    with timeout_open_total [OF assms(3) c] h e obtain gs w' where "timeout_open co tc w1 = Inr (gs, w')" by metis
    with Some tc e show ?thesis by (auto simp: fire_open_def entry_def push_def split: option.splits)
  qed
  with True show ?thesis by (simp add: elapse_open_def t_def w1_def)
qed

lemma rsp_open_total:
  assumes "reqs w (rh_this h) = Some q" "cb_unpacks (rh_cb h) (m_data msg)"
  shows "\<exists>fs' w'. rsp_open h msg w = Inr (fs', w')"
  using assms finish_open_total [of _ "rh_this h"]
  by (cases "rh_cb h") (auto simp: rsp_open_def Let_def split: if_splits)

lemma dispatch_response_open_total:
  assumes "safe fs w" "rpcs w r = Some x" "answerable fs w r (m_seq msg)"
    and "\<And>h. rsp_handle_map (dispatcher x) (m_seq msg) = Some (Some h) \<Longrightarrow> cb_unpacks (rh_cb h) (m_data msg)"
  shows "\<exists>fs' w'. dispatch_response_open r (dispatcher x) msg w = Inr (fs', w')"
proof (cases "entry w r (m_seq msg)")
  case None
  with assms(2) show ?thesis by (simp add: dispatch_response_open_def entry_def stop_def)
next
  case (Some e)
  have n: "(r, m_seq msg) \<notin> running fs" using assms(3) by (simp add: answerable_def)
  obtain h q where h: "e = Some h" "reqs w (rh_this h) = Some q"
    using inv_entryD [OF safe_inv [OF assms(1)] Some n] by auto
  with rsp_open_total [OF h(2)] assms(2,4) Some show ?thesis
    by (fastforce simp: dispatch_response_open_def entry_def push_def)
qed

section \<open>Properties: callbacks that call the library\<close>

text \<open>
  C8: Callbacks may call the library: whatever calls, further packages, timers and other steps a program
  of the discipline takes inside its callbacks and inside its send function, when the function of the
  user returns, the code behind it never uses a destroyed object nor calls an empty function. The code
  behind a command handler, which sends the response or looks at the object of a handler that answers
  later, needs a connection that it can send over.
\<close>

theorem nested_return_never_faults:
  assumes "nested_reachable co (f # fs) w" "conns_ok w" "total_coder co"
    and "\<And>c m. f = Respond c m \<Longrightarrow> \<exists>x. conns w c = Some x \<and> send_package_impl x \<noteq> NoSend"
  shows "\<exists>fs' w'. resume co f w = Inr (fs', w')"
proof (cases "\<exists>c m. f = Respond c m")
  case True
  then obtain c m where f: "f = Respond c m" by blast
  with nested_reachable_responding [OF assms(1)] have "responding (Respond c m # fs) w" by simp
  from respond_total [OF this assms(3)] assms(4) [OF f] show ?thesis by (auto simp: f)
next
  case False
  with resume_total [OF nested_reachable_safe [OF assms(1)] assms(2,3)] show ?thesis by blast
qed

theorem nested_return_never_faults_witness:
  "(\<exists>fs' w'. resume coder_default (AfterRsp 0 normal) (run_user id (sample_world (Rsp0 id) (0 :: nat))) = Inr (fs', w')) \<and>
   (\<exists>(w :: nat world) fs' w'. nested_reachable coder_default [Respond 0 (snd (make_rsp_async 0 0 True))] w \<and>
      resume coder_default (Respond 0 (snd (make_rsp_async 0 0 True))) w = Inr (fs', w'))"
proof
  show "\<exists>fs' w'. resume coder_default (AfterRsp 0 normal) (run_user id (sample_world (Rsp0 id) (0 :: nat))) = Inr (fs', w')"
  proof (rule nested_return_never_faults [OF sample_answered _ total_coder_default])
    show "conns_ok (run_user id (sample_world (Rsp0 id) (0 :: nat)))"
      using sample_conns_ok [of "Rsp0 id" "0 :: nat"] by simp
  qed simp
  obtain w :: "nat world" where w: "nested_reachable coder_default [Respond 0 (snd (make_rsp_async 0 0 True))] w"
      "conns_ok w" "\<exists>x. conns w 0 = Some x \<and> send_package_impl x \<noteq> NoSend"
    using sample_handled by blast
  from nested_return_never_faults [OF w(1,2) total_coder_default] w(3)
  have "\<exists>fs' w'. resume coder_default (Respond 0 (snd (make_rsp_async 0 0 True))) w = Inr (fs', w')" by blast
  with w(1) show "\<exists>(w :: nat world) fs' w'. nested_reachable coder_default [Respond 0 (snd (make_rsp_async 0 0 True))] w \<and>
      resume coder_default (Respond 0 (snd (make_rsp_async 0 0 True))) w = Inr (fs', w')" by blast
qed

text \<open>
  C11: What arrives inside a callback does not fault either: a timer that elapses while functions of the user
  are running, unless its own entry is being handled or its request is being sent; and a response,
  unless its entry is being handled, or its request is being sent without a pointer to it, or its data
  cannot be unpacked.
\<close>

theorem nested_arrivals_never_fault:
  assumes "nested_reachable co fs w" "conns_ok w" "total_coder co"
  shows "(may_elapse fs n w \<longrightarrow> (\<exists>fs' w'. elapse_open co n w = Inr (fs', w'))) \<and>
    (rpcs w r = Some x \<and> dispatch_kind (m_type msg) = response \<and> answerable fs w r (m_seq msg) \<and>
       (\<forall>h. rsp_handle_map (dispatcher x) (m_seq msg) = Some (Some h) \<longrightarrow> cb_unpacks (rh_cb h) (m_data msg)) \<longrightarrow>
     (\<exists>fs' w'. dispatch_open co r msg w = Inr (fs', w')))"
proof -
  note s = nested_reachable_safe [OF assms(1)]
  show ?thesis
    using elapse_open_total [OF s assms(2,3)] dispatch_response_open_total [OF s]
    by (simp add: dispatch_open_def Let_def)
qed

theorem nested_arrivals_never_fault_witness:
  "\<exists>fs' w'. dispatch_open coder_default 0 answer_0 (sample_world (Rsp0 id) (0 :: nat)) = Inr (fs', w')"
proof -
  have "\<forall>h. rsp_handle_map (sample_dispatcher (Rsp0 id)) 0 = Some (Some h) \<longrightarrow> cb_unpacks (rh_cb h) d" for d
    by (simp add: sample_dispatcher_def)
  then show ?thesis
    using nested_arrivals_never_fault [OF sample_sending [of "Rsp0 id" "0 :: nat"] sample_conns_ok total_coder_default,
        of 0 0 "\<lparr>rpc_conn = 0, dispatcher = sample_dispatcher (Rsp0 id), rpc_seq = 1, rpc_is_ready = True\<rparr>" answer_0]
      answer_0_simps sample_answerable [of "Rsp0 id" "0 :: nat"]
    by simp
qed

text \<open>
  C9: One call, one end, also when callbacks call the library: at every moment of a program of the discipline,
  inside callbacks too, each call of each request has ended exactly once, except one that is waiting.
\<close>

theorem nested_one_call_one_end:
  assumes "nested_reachable co fs w"
  shows "calls (events w) i = ends (events w) i + (if waiting w i then 1 else 0)"
  using nested_reachable_good [OF assms] by (simp add: good_def balanced_def)

theorem nested_one_call_one_end_witness:
  "waiting (run_user id (sample_world (Rsp0 id) (0 :: nat))) 0 \<and>
   calls (events (run_user id (sample_world (Rsp0 id) (0 :: nat)))) 0 =
     ends (events (run_user id (sample_world (Rsp0 id) 0))) 0 + 1"
proof -
  have "waiting (run_user id (sample_world (Rsp0 id) (0 :: nat))) 0"
    by (simp add: waiting_def sample_request_def)
  then show ?thesis
    using nested_one_call_one_end [OF sample_answered [of id "0 :: nat"], of 0] by simp
qed

section \<open>What the disciplines exclude\<close>

lemma entries_frame: "rpcs w' = rpcs w \<Longrightarrow> entry w' = entry w"
  by (simp add: fun_eq_iff entry_def)

lemma rsp_open_rpcs: "rsp_open h msg w = Inr (fs', w') \<Longrightarrow> rpcs w' = rpcs w"
proof -
  assume r: "rsp_open h msg w = Inr (fs', w')"
  have f: "rpcs w2 = rpcs w1" if "finish_open i ty w1 = Inr (gs, w2)" for i ty w1 w2 gs
    using finish_open_ended [OF that] by (auto simp: ended_def)
  from r show ?thesis by (auto simp: rsp_open_def Let_def res_simps run_user_def split: if_splits rsp_cb.splits dest!: f)
qed

lemma send_request_reqs:
  assumes "send_request co r i w = Inr w'"
  shows "reqs w' = reqs w"
proof -
  from assms obtain x d ts b where "send_package (rpc_conn x) b ((put_dispatcher r x d w)\<lparr>timers := ts\<rparr>) = Inr w'"
    by (auto simp: send_request_def res_simps Let_def case_prod_beta put_dispatcher_def)
  from send_package_frame [OF this] show ?thesis by (simp add: put_dispatcher_def put_rpc_def)
qed

text \<open>What follows a response handler's callback either uses a destroyed request or leaves the dispatchers alone.\<close>

lemma rsp_open_rest:
  assumes "rsp_open h msg w = Inr (fs, w1)"
  shows "drain co fs w2 = Inl UseAfterFree \<or> (\<exists>w3. drain co fs w2 = Inr w3 \<and> rpcs w3 = rpcs w2)"
proof -
  have fin: "fs = [] \<or> fs = [AfterFinally i]" if "finish_open i ty v = Inr (fs, w1)" for i ty v
    using that by (auto simp: finish_open_def Let_def res_simps split: option.splits if_splits)
  have fs: "fs = [] \<or> (\<exists>i. fs = [AfterFinally i]) \<or> (\<exists>i ty. fs = [AfterRsp i ty])"
    using assms by (auto simp: rsp_open_def Let_def res_simps split: if_splits rsp_cb.splits dest!: fin)
  have r: "release_keeper i w2 = Inl UseAfterFree \<or> (\<exists>w3. release_keeper i w2 = Inr w3 \<and> rpcs w3 = rpcs w2)" for i
    by (auto simp: release_keeper_def with_req_def put_req_def split: option.splits)
  have o: "on_finish i ty w2 = Inl UseAfterFree \<or> (\<exists>w3. on_finish i ty w2 = Inr w3 \<and> rpcs w3 = rpcs w2)" for i ty
  proof (cases "reqs w2 i")
    case None
    then show ?thesis by (simp add: on_finish_def with_req_def)
  next
    case (Some q)
    from on_finish_total [OF this] obtain w3 where w3: "on_finish i ty w2 = Inr w3" by blast
    from on_finish_ended [OF this] have "rpcs w3 = rpcs w2" by (auto simp: ended_def)
    with w3 show ?thesis by blast
  qed
  from fs show ?thesis
  proof (elim disjE exE)
    show ?thesis if "fs = [AfterFinally i]" for i using r [of i] by (simp add: that drain_single del: drain.simps(2))
    show ?thesis if "fs = [AfterRsp i ty]" for i ty
      using o [of i ty] by (simp add: that drain_single finish_completed del: drain.simps(2))
  qed simp
qed

lemma dispatch_erases:
  assumes "dispatch co r msg w = Inr w'" "entry w r (m_seq msg) = Some (Some h)"
    "dispatch_kind (m_type msg) = response"
  shows "entry w' r (m_seq msg) = None" "rpcs w' r \<noteq> None"
    "\<exists>b w1. run_rsp_handle h msg w = Inr (b, w1) \<and> reqs w' = reqs w1"
proof -
  obtain x where x: "rpcs w r = Some x" "rsp_handle_map (dispatcher x) (m_seq msg) = Some (Some h)"
    using assms(2) by (auto simp: entry_def split: option.splits)
  with assms(1,3) obtain b w1 y where y: "run_rsp_handle h msg w = Inr (b, w1)" "rpcs w1 r = Some y"
      "w' = put_dispatcher r y (erase_rsp (m_seq msg) (dispatcher y)) w1"
    by (auto simp: dispatch_def Let_def dispatch_response_def res_simps)
  then show "entry w' r (m_seq msg) = None" "rpcs w' r \<noteq> None"
      "\<exists>b w1. run_rsp_handle h msg w = Inr (b, w1) \<and> reqs w' = reqs w1"
    by (simp_all add: entry_def put_dispatcher_def put_rpc_def)
qed

lemma dispatch_completes:
  assumes "entry w r (m_seq msg) = Some (Some h)" "dispatch_kind (m_type msg) = response"
    "reqs w (rh_this h) = Some q" "cb_unpacks (rh_cb h) (m_data msg)"
  shows "\<exists>w'. completed co (dispatch_open co r msg w) = Inr w'"
proof -
  obtain x where x: "rpcs w r = Some x" "rsp_handle_map (dispatcher x) (m_seq msg) = Some (Some h)"
    using assms(1) by (auto simp: entry_def split: option.splits)
  obtain b w1 where w1: "run_rsp_handle h msg w = Inr (b, w1)"
    using run_rsp_handle_total [OF assms(3,4)] by blast
  with run_rsp_handle_rpcs [OF w1] x assms(2) show ?thesis
    by (simp add: dispatch_completed dispatch_def Let_def dispatch_response_def)
qed

text \<open>The sample program whose rpc object is not ready, and gets ready inside the \<open>finally\<close> of the refused call.\<close>

lemma sample_in_finally:
  "\<exists>w w1 q. nested_reachable coder_default [AfterFinally 0] (w :: nat world) \<and>
     reqs w 0 = Some q \<and> refs q = 1 \<and> need_rsp_flag q \<and>
     user_call_open coder_default 0 None w = Inr ([AfterSend 0], w1) \<and> waiting w1 0 \<and>
     entry w1 0 0 = Some (Some \<lparr>rh_this = 0, rh_cb = sample_cb\<rparr>)"
proof -
  let ?w = "sample_before sample_cb (0 :: nat)" and ?f = "\<lambda>(ty :: finally_t) (u :: nat). u"
  let ?x = "\<lambda>b. \<lparr>rpc_conn = 0, dispatcher = (new_dispatcher 0)\<lparr>timer_impl := True\<rparr>, rpc_seq = 0, rpc_is_ready = b\<rparr>"
  define q1 where "q1 = (sample_request sample_cb)\<lparr>self_keeper := False, waiting_rsp := False, finally_fn := Some ?f\<rparr>"
  define w1 where "w1 = put_req 0 q1 ?w"
  define w2 where "w2 = put_rpc 0 (?x False) w1"
  define w3 where "w3 = run_user (?f rpc_not_ready) (log_event (Finish 0 rpc_not_ready)
      (put_req 0 (q1\<lparr>self_keeper := True, finally_type := rpc_not_ready\<rparr>) (log_event (event.Call 0) w2)))"
  define w4 where "w4 = put_rpc 0 (?x True) w3"
  have "nested_reachable coder_default [] ?w"
    by (rule run_nested [OF sample_before_run _ nested_reachable.init]) (simp add: sample_program_def)
  moreover have "nested_step coder_default ([], ?w) ([], w1)"
    by (rule nested_step.act [where a = "Setting 0 (SetFinally ?f)"])
      (simp_all add: busy_def on_req_def w1_def q1_def sample_before_def setter_defs)
  ultimately have "nested_reachable coder_default [] w1" using nested_reachable.step by blast
  moreover have "nested_step coder_default ([], w1) ([], w2)"
    by (rule nested_step.act [where a = "SetReady 0 False"])
      (simp_all add: on_rpc_def w1_def w2_def put_req_def sample_before_def rpc_set_ready_def)
  ultimately have "nested_reachable coder_default [] w2" using nested_reachable.step by blast
  moreover have "nested_step coder_default ([], w2) ([AfterFinally 0] @ [], w3)"
    by (rule nested_step.user_call [where i = 0 and rpc = None and q = q1])
      (simp_all add: w1_def w2_def w3_def q1_def put_defs sample_before_def sample_defs busy_def counters_ok_def
        user_call_open_def call_open_def on_req_def rpc_lock_def finish_open_def Let_def)
  ultimately have "nested_reachable coder_default [AfterFinally 0] w3" using nested_reachable.step by fastforce
  moreover have "nested_step coder_default ([AfterFinally 0], w3) ([AfterFinally 0], w4)"
    by (rule nested_step.act [where a = "SetReady 0 True"])
      (simp_all add: on_rpc_def w1_def w2_def w3_def w4_def put_defs run_user_def sample_before_def rpc_set_ready_def)
  ultimately have "nested_reachable coder_default [AfterFinally 0] w4" using nested_reachable.step by blast
  moreover have "\<exists>q. reqs w4 0 = Some q \<and> refs q = 1 \<and> need_rsp_flag q"
    by (simp add: w3_def w4_def q1_def put_defs run_user_def sample_defs)
  moreover have "\<exists>w5. user_call_open coder_default 0 None w4 = Inr ([AfterSend 0], w5) \<and> waiting w5 0 \<and>
      entry w5 0 0 = Some (Some \<lparr>rh_this = 0, rh_cb = sample_cb\<rparr>)"
    by (simp add: w1_def w2_def w3_def w4_def q1_def user_call_open_def call_open_def call_through_open_def
        make_seq_def send_request_def subscribe_rsp_def put_dispatcher_def rpc_lock_def on_req_def sample_before_def
        sample_defs put_defs Let_def request_msg_def coder_default_def coder_serialize_def send_package_def
        user_sends_def run_user_def entry_def waiting_def)
  ultimately show ?thesis by blast
qed

text \<open>
  C37: A request that is called again inside its own \<open>finally\<close> dangles: the pointer by which the new call
  keeps the request alive is cleared when \<open>finally\<close> returns, so the call waits unkept, and if the
  program drops its own pointer, as it may after any other call, the response uses the destroyed request.
\<close>

theorem call_in_own_finally_dangles:
  assumes "reqs w i = Some q" "refs q = 1" "need_rsp_flag q"
    and "user_call_open co i rpc w = Inr (fs, w1)" "waiting w1 i"
  shows "\<exists>w2 w3. drain co (fs @ [AfterFinally i]) w1 = Inr w2 \<and> waiting w2 i \<and> drop_ref i w2 = Inr w3 \<and>
    (\<forall>r h msg. entry w1 r (m_seq msg) = Some (Some h) \<and> rh_this h = i \<and> dispatch_kind (m_type msg) = response \<longrightarrow>
       dispatch_open co r msg w3 = Inl UseAfterFree)"
proof -
  let ?w = "log_event (event.Call i) w"
  have q: "reqs ?w i = Some q" using assms(1) by (simp add: log_event_def)
  have n: "\<not> waiting w1 i" if "finish_open i ty v = Inr (fs, w1)" "waiting v i" for ty v
    using finish_open_ended [OF that(1)] that(2) by (simp add: ended_def)
  from assms(4) have "call_open co i rpc ?w = Inr (fs, w1)" by (simp add: user_call_open_def)
  from this q obtain r where "call_through_open co i r (put_req i (prepared rpc q) ?w) = Inr (fs, w1)"
  proof (cases rule: call_open_cases)
    case canceled
    with n assms(5) show ?thesis by (auto simp: waiting_def put_req_def)
  next
    case (refused ty)
    with n assms(5) show ?thesis by (auto simp: waiting_def put_req_def)
  qed
  then obtain s v1 v2 v where c: "make_seq r (put_req i (prepared rpc q) ?w) = Inr (s, v1)"
      "on_req i (\<lambda>q. q\<lparr>req_seq := s\<rparr>) v1 = Inr v2" "send_request co r i v2 = Inr v"
      "(if user_sends v r then Inr ([AfterSend i], v) else after_send i v) = Inr (fs, w1)"
    unfolding call_through_open_def by (auto elim!: bindr_InrE)
  have v: "reqs v i = Some ((prepared rpc q)\<lparr>req_seq := s\<rparr>)"
    using c(1,2) send_request_reqs [OF c(3)] by (auto simp: make_seq_def on_req_def res_simps put_defs)
  have fs: "w1 = v" "after_send i v = Inr ([], v)" "fs = [AfterSend i] \<or> fs = []"
    using v c(4) assms(3) by (auto simp: after_send_def stop_def split: if_splits)
  let ?q = "(prepared rpc q)\<lparr>req_seq := s, self_keeper := False\<rparr>"
  define w2 where "w2 = put_req i ?q v"
  have "release_keeper i v = Inr w2"
    using v assms(2) by (simp add: release_keeper_def w2_def)
  then have "drain co (fs @ [AfterFinally i]) w1 = Inr w2" using fs by auto
  moreover have "waiting w2 i" by (simp add: w2_def waiting_def put_req_def)
  moreover have d: "drop_ref i w2 = Inr (w2\<lparr>reqs := (reqs w2)(i := None)\<rparr>)"
    using assms(2) by (simp add: drop_ref_def w2_def put_req_def)
  moreover have "dispatch_open co r msg (w2\<lparr>reqs := (reqs w2)(i := None)\<rparr>) = Inl UseAfterFree"
    if "entry w1 r (m_seq msg) = Some (Some h)" "rh_this h = i" "dispatch_kind (m_type msg) = response" for r h msg
    using that fs(1) by (auto simp: dispatch_open_def Let_def dispatch_response_open_def rsp_open_def push_def
        with_req_def entry_def w2_def put_req_def split: option.splits)
  ultimately show ?thesis by blast
qed

theorem call_in_own_finally_dangles_witness:
  "\<exists>(w :: nat world) w1 w2 w3. nested_reachable coder_default [AfterFinally 0] w \<and>
     user_call_open coder_default 0 None w = Inr ([AfterSend 0], w1) \<and>
     drain coder_default [AfterSend 0, AfterFinally 0] w1 = Inr w2 \<and>
     waiting w2 0 \<and> drop_ref 0 w2 = Inr w3 \<and> dispatch_open coder_default 0 answer_0 w3 = Inl UseAfterFree"
proof -
  obtain w w1 :: "nat world" and q where w: "nested_reachable coder_default [AfterFinally 0] w"
      "reqs w 0 = Some q" "refs q = 1" "need_rsp_flag q"
      "user_call_open coder_default 0 None w = Inr ([AfterSend 0], w1)" "waiting w1 0"
      "entry w1 0 0 = Some (Some \<lparr>rh_this = 0, rh_cb = sample_cb\<rparr>)"
    using sample_in_finally by blast
  have m: "entry w1 0 (m_seq answer_0) = Some (Some \<lparr>rh_this = 0, rh_cb = sample_cb\<rparr>)"
      "dispatch_kind (m_type answer_0) = response"
    using w(7) answer_0_simps by simp_all
  from call_in_own_finally_dangles [OF w(2-6)] m w(1,5) show ?thesis by fastforce
qed

text \<open>
  C38: A request that nothing but its call keeps, and that is answered while it is sent (a retry over a
  loopback connection, whose peer answers inside the send function), is destroyed before \<open>call\<close> goes on,
  which then reads its flags: a use of the destroyed request.
\<close>

theorem answered_while_sent_dangles:
  assumes "entry w r (m_seq msg) = Some (Some h)" "dispatch_kind (m_type msg) = response"
    and "reqs w (rh_this h) = Some q" "waiting_rsp q" "self_keeper q" "refs q = 0"
    and "completed co (dispatch_open co r msg w) = Inr w'"
  shows "resume co (AfterSend (rh_this h)) w' = Inl UseAfterFree"
proof -
  have f: "reqs w2 (rh_this h) = None" if "on_finish (rh_this h) ty w1 = Inr w2" "reqs w1 = reqs w" for ty w1 w2
    using that assms(3-6) by (auto simp: on_finish_def Let_def release_keeper_def put_defs split: option.splits)
  from dispatch_erases(3) [OF assms(7) [unfolded dispatch_completed] assms(1,2)] obtain b w1
    where w1: "run_rsp_handle h msg w = Inr (b, w1)" "reqs w' = reqs w1" by blast
  have "reqs w1 (rh_this h) = None"
    using w1(1) assms(3)
    by (auto simp: run_rsp_handle_def Let_def res_simps run_user_def split: if_splits rsp_cb.splits dest!: f)
  with w1(2) show ?thesis by (simp add: after_send_def with_req_def)
qed

text \<open>The sample program when its request, of which the program has dropped its pointer, is sent again.\<close>

lemma sample_retried:
  "\<exists>w. nested_reachable coder_default [AfterSend 0, EraseTimer 0 0] w \<and>
     entry w 0 1 = Some (Some \<lparr>rh_this = 0, rh_cb = cb\<rparr>) \<and>
     (\<exists>q. reqs w 0 = Some q \<and> waiting_rsp q \<and> self_keeper q \<and> refs q = 0)"
proof -
  let ?w0 = "sample_world cb u"
  define w1 where "w1 = put_req 0 ((sample_request cb)\<lparr>refs := 0\<rparr>) ?w0"
  have "nested_step coder_default ([AfterSend 0], ?w0) ([] @ [], ?w0)"
    by (rule nested_step.return) (simp_all add: counters_ok_def sample_world_def after_send_def sample_defs)
  then have "nested_reachable coder_default [] ?w0" using sample_sending nested_reachable.step by fastforce
  moreover have "nested_step coder_default ([], ?w0) ([], w1)"
    by (rule nested_step.act [where a = "Drop 0"])
      (simp_all add: busy_def w1_def has_ref_def drop_ref_def sample_defs)
  ultimately have r: "nested_reachable coder_default [] w1" using nested_reachable.step by blast
  have "\<exists>w. elapse_open coder_default 0 w1 = Inr ([AfterSend 0, EraseTimer 0 0], w) \<and>
      entry w 0 1 = Some (Some \<lparr>rh_this = 0, rh_cb = cb\<rparr>) \<and>
      (\<exists>q. reqs w 0 = Some q \<and> waiting_rsp q \<and> self_keeper q \<and> refs q = 0)"
    by (simp add: w1_def sample_world_def sample_defs put_defs elapse_open_def fire_open_def timeout_open_def
        after_timeout_def on_req_def call_open_def rpc_lock_def call_through_open_def make_seq_def send_request_def
        subscribe_rsp_def put_dispatcher_def Let_def request_msg_def coder_default_def coder_serialize_def
        send_package_def user_sends_def push_def entry_def)
  then obtain w where w: "elapse_open coder_default 0 w1 = Inr ([AfterSend 0, EraseTimer 0 0], w)"
      "entry w 0 1 = Some (Some \<lparr>rh_this = 0, rh_cb = cb\<rparr>)"
      "\<exists>q. reqs w 0 = Some q \<and> waiting_rsp q \<and> self_keeper q \<and> refs q = 0" by blast
  have "nested_step coder_default ([], w1) ([AfterSend 0, EraseTimer 0 0] @ [], w)"
    using w(1) by (intro nested_step.elapse)
      (simp_all add: may_elapse_def Let_def counters_ok_def w1_def put_req_def sample_world_def split: option.split)
  with r w nested_reachable.step show ?thesis by fastforce
qed

theorem answered_while_sent_dangles_witness:
  "\<exists>w w'. nested_reachable coder_default [AfterSend 0, EraseTimer 0 0] (w :: nat world) \<and>
     completed coder_default (dispatch_open coder_default 0 (answer_0\<lparr>m_seq := 1\<rparr>) w) = Inr w' \<and>
     resume coder_default (AfterSend 0) w' = Inl UseAfterFree"
proof -
  obtain w :: "nat world" and q where w: "nested_reachable coder_default [AfterSend 0, EraseTimer 0 0] w"
      "entry w 0 1 = Some (Some \<lparr>rh_this = 0, rh_cb = Rsp0 id\<rparr>)"
      "reqs w 0 = Some q" "waiting_rsp q" "self_keeper q" "refs q = 0"
    using sample_retried [of "Rsp0 id"] by blast
  let ?m = "answer_0\<lparr>m_seq := 1\<rparr>"
  have m: "entry w 0 (m_seq ?m) = Some (Some \<lparr>rh_this = 0, rh_cb = Rsp0 id\<rparr>)" "dispatch_kind (m_type ?m) = response"
    using w(2) answer_0_simps by simp_all
  obtain w' where w': "completed coder_default (dispatch_open coder_default 0 ?m w) = Inr w'"
    using dispatch_completes [OF m, of q] w(3) by auto
  with answered_while_sent_dangles [OF m _ w(4-6) w'] w(1,3) show ?thesis by auto
qed

text \<open>
  A response that is delivered again inside the callback of the first one is handled again, since the
  entry is erased behind the callback only; when the first callback returns, the code uses the
  destroyed request, or erases by an iterator that is no longer valid.
\<close>

theorem response_inside_its_callback_dangles:
  assumes "entry w r (m_seq msg) = Some (Some h)" "dispatch_kind (m_type msg) = response"
    and "dispatch_open co r msg w = Inr (fs, w1)" "completed co (dispatch_open co r msg w1) = Inr w2"
  shows "drain co fs w2 = Inl UseAfterFree"
proof -
  from assms(1-3) obtain gs where g: "rsp_open h msg w = Inr (gs, w1)" "fs = gs @ [EraseHandler r (m_seq msg)]"
    by (auto simp: dispatch_open_def Let_def dispatch_response_open_def push_def entry_def split: option.splits)
  note e = entries_frame [OF rsp_open_rpcs [OF g(1)]]
  have w2: "entry w2 r (m_seq msg) = None" "rpcs w2 r \<noteq> None"
    using dispatch_erases(1,2) [OF assms(4) [unfolded dispatch_completed] _ assms(2)] assms(1) e by simp_all
  show ?thesis
    using rsp_open_rest [OF g(1), of co w2] w2 by (auto simp: g(2) drain_append entry_def split: option.splits)
qed

theorem response_inside_its_callback_dangles_witness:
  "\<exists>w2. dispatch_open coder_default 0 answer_0 (sample_world (Rsp0 id) (0 :: nat)) =
       Inr ([AfterRsp 0 normal, EraseHandler 0 0], sample_world (Rsp0 id) 0) \<and>
     completed coder_default (dispatch_open coder_default 0 answer_0 (sample_world (Rsp0 id) (0 :: nat))) = Inr w2 \<and>
     drain coder_default [AfterRsp 0 normal, EraseHandler 0 0] w2 = Inl UseAfterFree"
proof -
  let ?w = "sample_world (Rsp0 id) (0 :: nat)"
  have e: "entry ?w 0 (m_seq answer_0) = Some (Some \<lparr>rh_this = 0, rh_cb = Rsp0 id\<rparr>)"
      "dispatch_kind (m_type answer_0) = response"
    using answer_0_simps by (simp_all add: entry_def sample_dispatcher_def)
  have d: "dispatch_open coder_default 0 answer_0 ?w = Inr ([AfterRsp 0 normal, EraseHandler 0 0], ?w)"
    using sample_dispatch_open [of id "0 :: nat"] by simp
  obtain w2 where w2: "completed coder_default (dispatch_open coder_default 0 answer_0 ?w) = Inr w2"
    using dispatch_completes [OF e] by auto
  with response_inside_its_callback_dangles [OF e d w2] d show ?thesis by blast
qed

end
