(* ===== verification/Loopback.thy ===== *)
theory Loopback
  imports Reentry Calls
begin

text \<open>
  \<open>loopback_connection\<close> of \<open>connection.hpp\<close>: a pair of connections whose send functions run the
  other's receive function. So a package is received, and whatever it causes happens, inside the call
  that sends it: the frames of the sender wait below on the stack.
\<close>

section \<open>The code\<close>

text \<open>The pair that \<open>create\<close> returns; each send function holds a weak pointer to the other connection.\<close>

record loopback =
  lb_c1 :: nat
  lb_c2 :: nat

definition loopback_peer :: "loopback \<Rightarrow> nat \<Rightarrow> nat option" where
  "loopback_peer lb c = (if c = lb_c1 lb then Some (lb_c2 lb) else if c = lb_c2 lb then Some (lb_c1 lb) else None)"

definition loopback_create :: "nat \<Rightarrow> nat \<Rightarrow> 'u world \<Rightarrow> loopback \<times> 'u world" where
  "loopback_create c1 c2 w =
     (let x = plain_connection\<lparr>send_package_impl := UserSend\<rparr>
      in (\<lparr>lb_c1 = c1, lb_c2 = c2\<rparr>, put_conn c2 x (put_conn c1 x w)))"

text \<open>The send function of connection \<open>c\<close>; other connections' functions run elsewhere.\<close>

definition loopback_send :: "coder \<Rightarrow> loopback \<Rightarrow> nat \<Rightarrow> bytes \<Rightarrow> 'u world \<Rightarrow> 'u piece" where
  "loopback_send co lb c package w =
     (case loopback_peer lb c of None \<Rightarrow> stop w | Some c' \<Rightarrow> recv_open co c' package w)"

section \<open>Running it\<close>

text \<open>
  What is to be done: the send function of a connection on a package, or the code behind a function of
  the user. \<open>outbox\<close> logs the packages that the send functions are called with, so the packages that
  a piece has added are those to transmit, before what the piece leaves to do. (In each piece that
  sends, sending comes last, but for a handler that answers asynchronously before it returns.)
\<close>

datatype task = Transmit nat bytes | Code frame

definition fresh_packages :: "'u world \<Rightarrow> 'u world \<Rightarrow> nat \<Rightarrow> bytes list" where
  "fresh_packages w w' c =
     (case (conns w c, conns w' c) of
        (Some x, Some y) \<Rightarrow> drop (length (outbox x)) (outbox y)
      | _ \<Rightarrow> [])"

definition transmits :: "loopback \<Rightarrow> 'u world \<Rightarrow> 'u world \<Rightarrow> task list" where
  "transmits lb w w' =
     map (Transmit (lb_c1 lb)) (fresh_packages w w' (lb_c1 lb)) @
     map (Transmit (lb_c2 lb)) (fresh_packages w w' (lb_c2 lb))"

definition tasks :: "loopback \<Rightarrow> 'u world \<Rightarrow> 'u piece \<Rightarrow> (task list \<times> 'u world) res" where
  "tasks lb w m = bindr m (\<lambda>(fs, w'). Inr (transmits lb w w' @ map Code fs, w'))"

fun task_step :: "coder \<Rightarrow> loopback \<Rightarrow> task \<Rightarrow> 'u world \<Rightarrow> (task list \<times> 'u world) res" where
  "task_step co lb (Transmit c p) w = tasks lb w (loopback_send co lb c p w)"
| "task_step co lb (Code f) w = tasks lb w (resume co f w)"

fun lb_run :: "nat \<Rightarrow> coder \<Rightarrow> loopback \<Rightarrow> task list \<Rightarrow> 'u world \<Rightarrow> 'u world option res" where
  "lb_run n co lb [] w = Inr (Some w)"
| "lb_run 0 co lb (t # ts) w = Inr None"
| "lb_run (Suc n) co lb (t # ts) w =
     bindr (task_step co lb t w) (\<lambda>(ts', w'). lb_run n co lb (ts' @ ts) w')"

text \<open>A call over the pair, until the call returns; at most \<open>n\<close> tasks.\<close>

definition loopback_call :: "nat \<Rightarrow> coder \<Rightarrow> loopback \<Rightarrow> nat \<Rightarrow> 'u world \<Rightarrow> 'u world option res" where
  "loopback_call n co lb i w =
     bindr (tasks lb w (user_call_open co i None w)) (\<lambda>(ts, w'). lb_run n co lb ts w')"

section \<open>The pieces of a conversation\<close>

lemma transmits_none [simp]: "conns w' = conns w \<Longrightarrow> transmits lb w w' = []"
  by (simp add: transmits_def fresh_packages_def split: option.split)

lemma transmits_put:
  assumes "lb_c1 lb \<noteq> lb_c2 lb" "conns w c = Some x" "conns w' = (conns w)(c \<mapsto> x\<lparr>outbox := outbox x @ [p]\<rparr>)"
    "c = lb_c1 lb \<or> c = lb_c2 lb"
  shows "transmits lb w w' = [Transmit c p]"
  using assms by (auto simp: transmits_def fresh_packages_def split: option.split)

lemma tasks_Inr: "tasks lb w (Inr (fs, w')) = Inr (transmits lb w w' @ map Code fs, w')"
  by (simp add: tasks_def)

text \<open>Tasks that neither send nor leave anything to do.\<close>

lemma lb_run_code:
  "resume co f w = Inr (fs, w') \<Longrightarrow> conns w' = conns w \<Longrightarrow>
     lb_run (Suc n) co lb (Code f # ts) w = lb_run n co lb (map Code fs @ ts) w'"
  by (simp add: tasks_Inr)

lemma call_open_sends:
  assumes q: "reqs w i = Some q" "\<not> canceled_flag q" "need_rsp_flag q" "req_rpc q = Some r" "rsp_handle q = Some h"
    and x: "rpcs w r = Some x" "rpc_is_ready x" "timer_impl (dispatcher x)"
    and c: "conns w (rpc_conn x) = Some c" "send_package_impl c = UserSend"
    and p: "call_package co (rpc_seq x) q = Inr p"
  shows "call_open co i None w = Inr ([AfterSend i], called r i p w)"
proof -
  have s: "subscribe_rsp r s (rsp_handle q) cb ms (dispatcher x) =
      ((dispatcher x)\<lparr>rsp_handle_map := (rsp_handle_map (dispatcher x))(s \<mapsto> Some h)\<rparr>,
       [\<lparr>t_dispatcher = r, t_ms = ms, t_seq = s, t_cb = cb\<rparr>])" for s cb ms
    using q x by (simp add: subscribe_rsp_def)
  show ?thesis
    using q x c p s
    by (simp add: call_open_def on_req_def put_defs Let_def rpc_lock_def call_through_open_def make_seq_def
        send_request_def put_dispatcher_def call_package_def send_package_def called_def await_def
        call_timer_def sent_request_def user_sends_def)
qed

text \<open>The code behind the caller's callback, down to the bottom of the stack.\<close>

lemma lb_run_answered:
  assumes "reqs w i = Some q" "waiting_rsp q" "0 < refs q" "need_rsp_flag q"
    and "entry w r s \<noteq> None"
  shows "lb_run 4 co lb (map Code [AfterRsp i normal, EraseHandler r s, AfterSend i]) w =
    Inr (Some (erased r s (finished i q normal w)))"
proof -
  let ?w1 = "finished i q normal w"
  define w0 where "w0 = log_event (Finish i normal) (put_req i (q\<lparr>waiting_rsp := False, finally_type := normal\<rparr>) w)"
  have f: "lb_run (Suc (Suc n)) co lb (Code (AfterRsp i normal) # ts) w = lb_run n co lb ts ?w1 \<or>
      lb_run (Suc (Suc n)) co lb (Code (AfterRsp i normal) # ts) w = lb_run (Suc n) co lb ts ?w1" for n ts
  proof (cases "finally_fn q")
    case None
    with assms have "finish_open i normal w = Inr ([], ?w1)"
      by (auto simp: finish_open_def Let_def release_keeper_def put_defs finished_def)
    then show ?thesis using lb_run_code [of co "AfterRsp i normal" w "[]" ?w1] by (simp add: finished_def)
  next
    case (Some f)
    with assms have "finish_open i normal w = Inr ([AfterFinally i], run_user (f normal) w0)"
      by (simp add: finish_open_def Let_def w0_def)
    moreover have "release_keeper i (run_user (f normal) w0) = Inr ?w1"
      using assms Some by (simp add: release_keeper_def w0_def put_defs finished_def)
    ultimately show ?thesis
      by (simp add: tasks_Inr w0_def put_defs finished_def)
  qed
  obtain x e where x: "rpcs w r = Some x" "rsp_handle_map (dispatcher x) s = Some e"
    using assms(5) by (auto simp: entry_def split: option.splits)
  have e: "lb_run (Suc (Suc n)) co lb [Code (EraseHandler r s), Code (AfterSend i)] ?w1 = Inr (Some (erased r s ?w1))" for n
    using x assms
    by (simp add: tasks_Inr stop_def erased_def finished_def put_dispatcher_def put_rpc_def after_send_def)
  show ?thesis
    using f [of 2 "[Code (EraseHandler r s), Code (AfterSend i)]"] e [of 0] e [of 1]
    by (simp add: numeral_eq_Suc del: lb_run.simps(3))
qed

context message_coder
begin

lemma recv_open_dispatches:
  assumes "wire m" "co_serialize co m = Inr p"
    and "conns w c = Some x" "on_recv_package x = DispatcherRecv r" "rpcs w r = Some y"
  shows "recv_open co c p w = dispatch_open co r (received m) w"
  using assms deserialize_of_serialize [OF assms(1,2)] by (simp add: recv_open_def)

lemma loopback_concludes:
  assumes st: "staged s w" and wire: "wire (scene_msg s)" "wire rsp"
    and lb: "lb_c1 lb = rpc_conn (s_caller s)" "lb_c2 lb = rpc_conn (s_peer s)"
    and peer: "\<And>w1. user w1 = user w \<Longrightarrow> rpcs w1 (s_peer_rpc s) = Some (s_peer s) \<Longrightarrow>
      dispatch_open co (s_peer_rpc s) (received (scene_msg s)) w1 =
        Inr ([Respond (rpc_conn (s_peer s)) rsp], w1\<lparr>user := u'\<rparr>)"
    and rsp: "dispatch_kind (m_type rsp) = response" "m_seq rsp = rpc_seq (s_caller s)"
      "\<not> has_flag (m_type rsp) no_such_cmd" "m_response_state rsp = response_sync"
    and cb: "rh_cb (s_handle s) = Rsp1 unpack" "unpack (m_data (received rsp)) = Inr (True, f)"
    and refs: "0 < refs (s_req s)"
  shows "\<exists>p1 p2 w'. loopback_call 7 co lb (s_id s) w = Inr (Some w') \<and>
    co_serialize co (scene_msg s) = Inr p1 \<and> co_serialize co rsp = Inr p2 \<and>
    concluded s (log_event (event.Call (s_id s)) w) p1 p2 normal (f u') w'"
proof -
  obtain p1 where p1: "co_serialize co (scene_msg s) = Inr p1" using serialize_total wire by blast
  obtain p2 where p2: "co_serialize co rsp = Inr p2" using serialize_total wire by blast
  let ?x = "s_caller s" and ?q = "s_req s" and ?c = "s_conn s" and ?pc = "s_peer_conn s" and ?i = "s_id s"
  define w0 where "w0 = log_event (event.Call ?i) w"
  have n: "lb_c1 lb \<noteq> lb_c2 lb" using st lb by (simp add: staged_def)
  have pr: "loopback_peer lb (rpc_conn ?x) = Some (rpc_conn (s_peer s))"
      "loopback_peer lb (rpc_conn (s_peer s)) = Some (rpc_conn ?x)"
    using n lb by (auto simp: loopback_peer_def)
  define w1 where "w1 = called (s_rpc s) ?i p1 w0"
  have "call_open co ?i None w0 = Inr ([AfterSend ?i], w1)"
    unfolding w1_def
    by (rule call_open_sends) (use st p1 in \<open>auto simp: staged_def call_package_def scene_msg_def w0_def log_event_def\<close>)
  then have c1: "user_call_open co ?i None w = Inr ([AfterSend ?i], w1)" by (simp add: user_call_open_def w0_def)
  have w1: "user w1 = user w" "events w1 = events w0"
      "rpcs w1 (s_peer_rpc s) = Some (s_peer s)" "rpcs w1 (s_rpc s) = Some (await ?x (s_handle s))"
      "reqs w1 ?i = Some (sent_request (rpc_seq ?x) ?q)"
      "conns w1 = (conns w)(rpc_conn ?x \<mapsto> ?c\<lparr>outbox := outbox ?c @ [p1]\<rparr>)"
      "conns w1 (rpc_conn (s_peer s)) = Some ?pc" "conns w (rpc_conn ?x) = Some ?c"
    using st by (auto simp: w1_def w0_def called_def staged_def log_event_def)
  have t1: "transmits lb w w1 = [Transmit (rpc_conn ?x) p1]"
    by (rule transmits_put [OF n w1(8,6)]) (simp add: lb)
  define w2 where "w2 = w1\<lparr>user := u'\<rparr>"
  have c2: "task_step co lb (Transmit (rpc_conn ?x) p1) w1 = Inr ([Code (Respond (rpc_conn (s_peer s)) rsp)], w2)"
    using recv_open_dispatches [OF wire(1) p1 w1(7) _ w1(3)] peer [OF w1(1,3)] st
    by (simp add: loopback_send_def pr staged_def tasks_Inr w2_def)
  define w3 where "w3 = put_conn (rpc_conn (s_peer s)) (?pc\<lparr>outbox := outbox ?pc @ [p2]\<rparr>) w2"
  have "respond co (rpc_conn (s_peer s)) rsp w2 = Inr w3"
    using w1(7) st p2 rsp(4)
    by (simp add: respond_def send_msg_def send_package_def staged_def w3_def w2_def)
  moreover have "transmits lb w2 w3 = [Transmit (rpc_conn (s_peer s)) p2]"
    using w1(7) by (intro transmits_put [OF n, where x = ?pc]) (simp_all add: lb w3_def w2_def put_conn_def)
  ultimately have c3: "task_step co lb (Code (Respond (rpc_conn (s_peer s)) rsp)) w2 =
      Inr ([Transmit (rpc_conn (s_peer s)) p2], w3)"
    by (simp add: tasks_Inr)
  have peer3: "rpcs w3 (s_peer_rpc s) = Some (s_peer s)" "s_peer_rpc s \<noteq> s_rpc s"
    using w1 st by (auto simp: w3_def w2_def put_conn_def staged_def)
  have w3: "user w3 = u'" "events w3 = events w0" "rpcs w3 (s_rpc s) = Some (await ?x (s_handle s))"
      "reqs w3 ?i = Some (sent_request (rpc_seq ?x) ?q)"
      "conns w3 (rpc_conn ?x) = Some (?c\<lparr>outbox := outbox ?c @ [p1]\<rparr>)"
      "conns w3 (rpc_conn (s_peer s)) = Some (?pc\<lparr>outbox := outbox ?pc @ [p2]\<rparr>)"
    using w1 st by (auto simp: w3_def w2_def put_conn_def staged_def)
  let ?q2 = "sent_request (rpc_seq ?x) ?q" and ?s = "rpc_seq ?x"
  have id: "rh_this (s_handle s) = ?i" "\<not> canceled_flag ?q" "need_rsp_flag ?q" using st by (simp_all add: staged_def)
  define w4 where "w4 = run_user f w3"
  have "recv_open co (rpc_conn ?x) p2 w3 = dispatch_open co (s_rpc s) (received rsp) w3"
    by (rule recv_open_dispatches [OF wire(2) p2 w3(5) _ w3(3)]) (use st in \<open>simp add: staged_def\<close>)
  also have "\<dots> = Inr ([AfterRsp ?i normal, EraseHandler (s_rpc s) ?s], w4)"
    using w3(3,4) rsp id cb
    by (simp add: dispatch_open_def dispatch_response_open_def push_def rsp_open_def Let_def await_def w4_def)
      (simp add: sent_request_def)
  finally have c4: "task_step co lb (Transmit (rpc_conn (s_peer s)) p2) w3 =
      Inr (map Code [AfterRsp ?i normal, EraseHandler (s_rpc s) ?s], w4)"
    by (simp add: loopback_send_def pr tasks_Inr w4_def run_user_def)
  define w5 where "w5 = erased (s_rpc s) ?s (finished ?i ?q2 normal w4)"
  have "lb_run 4 co lb (map Code [AfterRsp ?i normal, EraseHandler (s_rpc s) ?s, AfterSend ?i]) w4 = Inr (Some w5)"
    unfolding w5_def using w3(3,4) refs id
    by (intro lb_run_answered) (simp_all add: w4_def run_user_def sent_request_def entry_def await_def)
  then have "lb_run 7 co lb [Transmit (rpc_conn ?x) p1, Code (AfterSend ?i)] w1 = Inr (Some w5)"
    using c2 c3 c4 by (simp add: numeral_eq_Suc del: task_step.simps)
  then have "loopback_call 7 co lb ?i w = Inr (Some w5)"
    by (simp add: loopback_call_def c1 tasks_Inr t1)
  moreover have "concluded s w0 p1 p2 normal (f u') w5"
    using w3 peer3
    by (simp add: concluded_def w5_def w4_def erased_def put_dispatcher_def put_rpc_def finished_def run_user_def
        sent_request_def await_def split: option.split)
  ultimately show ?thesis using p1 p2 unfolding w0_def by blast
qed

end

section \<open>Property: the answer is there when the call returns\<close>

text \<open>
  C10: A call over a loopback connection is answered before \<open>call\<close> returns, although each package is
  received inside the function that sends it: the peer's handler and the caller's callback run once,
  the request ends with \<open>normal\<close>, exactly one package goes each way, and none of the frames that wait
  on the stack meanwhile faults, provided the caller holds the request.
\<close>

theorem loopback_call_is_answered:
  assumes "message_coder co wire" "staged s w" "wire (scene_msg s)"
    and "wire (rsp_msg (rpc_seq (s_caller s)) d)"
    and "lb_c1 lb = rpc_conn (s_caller s)" "lb_c2 lb = rpc_conn (s_peer s)" "0 < refs (s_req s)"
    and "codec p okp" "okp v" "serialize p v = Inr (payload (s_req s))" "length (payload (s_req s)) < 2 ^ 64"
    and "cmd_handle_map (dispatcher (s_peer s)) (req_cmd (s_req s)) = Some (handle_ret_param p r handle)"
    and "\<not> is_ping (s_req s)"
    and "handle v (user w) = (ret, u')"
    and "codec r okr" "okr ret" "serialize r ret = Inr d" "length d < 2 ^ 64"
    and "rh_cb (s_handle s) = rsp_cb1 r g"
  shows "\<exists>p1 p2 w'. loopback_call 7 co lb (s_id s) w = Inr (Some w') \<and> co_serialize co (scene_msg s) = Inr p1 \<and>
    co_serialize co (rsp_msg (rpc_seq (s_caller s)) d) = Inr p2 \<and>
    concluded s (log_event (event.Call (s_id s)) w) p1 p2 normal (g ret u') w'"
proof (rule message_coder.loopback_concludes [OF assms(1-6), where u' = u' and f = "g ret" and
      unpack = "\<lambda>d. mapr (\<lambda>(ok, v). (ok, g v)) (deserialize r d)"])
  have dp: "deserialize p (payload (s_req s)) = Inr (True, v)"
    using codec.serialize_deserialize [OF assms(8-11)] .
  have need: "need_rsp_flag (s_req s)" and dc: "dispatcher_conn (dispatcher (s_peer s)) = rpc_conn (s_peer s)"
    using assms(2) by (simp_all add: staged_def)
  show "dispatch_open co (s_peer_rpc s) (received (scene_msg s)) w1 =
      Inr ([Respond (rpc_conn (s_peer s)) (rsp_msg (rpc_seq (s_caller s)) d)], w1\<lparr>user := u'\<rparr>)"
    if "user w1 = user w" "rpcs w1 (s_peer_rpc s) = Some (s_peer s)" for w1
    using that dp need dc assms(12-14)
      answers_ret_param [of p "received (scene_msg s)" v handle "user w" ret u' r d] assms(17)
    by (simp add: dispatch_open_def dispatch_command_open_def Let_def answers_def run_cmd_handle_def
        split: cmd_handle.splits)
  have "deserialize r d = Inr (True, ret)" using codec.serialize_deserialize [OF assms(15-18)] .
  then show "mapr (\<lambda>(ok, v). (ok, g v)) (deserialize r (m_data (received (rsp_msg (rpc_seq (s_caller s)) d)))) =
      Inr (True, g ret)"
    by simp
qed (use assms(7,19) in \<open>simp_all add: rsp_cb1_def\<close>)

theorem loopback_call_is_answered_witness:
  "\<exists>p1 p2 w'. loopback_call 7 coder_default \<lparr>lb_c1 = 0, lb_c2 = 1\<rparr> 0 (scene_world (sample_scene [99] False)) =
       Inr (Some w') \<and>
     coder_serialize (scene_msg (sample_scene [99] False)) = Inr p1 \<and>
     coder_serialize (rsp_msg 0 [1, 42]) = Inr p2 \<and>
     concluded (sample_scene [99] False) (log_event (event.Call 0) (scene_world (sample_scene [99] False))) p1 p2 normal 421 w'"
proof -
  have s: "serialize (int_codec True 32) 41 = Inr [1, 41]" "serialize (int_codec True 32) 42 = Inr [1, 42]"
    by code_simp+
  have c: "rpc_conn (s_caller (sample_scene [99] False)) = 0" "rpc_conn (s_peer (sample_scene [99] False)) = 1"
      "s_id (sample_scene [99] False) = 0" "refs (s_req (sample_scene [99] False)) = 1"
    by (simp_all add: sample_scene_def new_rpc_def req_rsp_def new_request_def)
  show ?thesis
    using loopback_call_is_answered [OF default_coder.message_coder_axioms sample_staged, of "[99]" False "[1, 42]"
        "\<lparr>lb_c1 = 0, lb_c2 = 1\<rparr>" "int_codec True 32" "auto_ok True 32" 41 "int_codec True 32" "\<lambda>v u. (v + 1, u + 1)" 42 1
        "auto_ok True 32" "\<lambda>v u. 10 * v + u"] s int.codec_axioms
    by (simp add: c coder_wire_def scene_msg_def rsp_msg_def empty_msg_def succ_handle_def coder_default_def auto_ok_def
        int_range_def)
qed

end
