(* ===== verification/Spec2Isabelle.thy ===== *)
theory Spec2Isabelle
  imports Balance DispatchProps Connection Future Dispose TypedProps Callable ReentryProps Loopback
begin

text \<open>
  \<^bold>\<open>rpc_core: a model of the C++ library, and what is proved of it\<close>

  The library (\<open>src/include/rpc_core\<close>, header files only) lets two peers call commands of each other
  over any connection that carries packages of bytes. A user makes a \<open>request\<close>, sets its command,
  message and callbacks, and calls it through an \<open>rpc\<close> object. The rpc object gives it a sequence
  number and, if a response is wanted, registers the response handler and a timer with its
  \<open>msg_dispatcher\<close>; the message, a \<open>msg_wrapper\<close>, goes through the \<open>coder\<close> to the \<open>connection\<close>.
  The peer's dispatcher decodes the package, finds the subscribed handler, unpacks the argument with
  the serializer, runs the user's function and sends a response with the same number, which the
  caller's dispatcher hands to the waiting handler. Over byte streams a \<open>stream_connection\<close> frames
  packages with a \<open>data_packer\<close>.

  \<^bold>\<open>The theories and the code they model\<close>

  \<^item> \<open>Prelude\<close>: bytes, words, little-endian numbers, the result type \<open>'a res\<close> (\<open>Inl\<close> a fault of the
    program: an access out of bounds, an overflow, a call of an empty function, a use of a destroyed
    object, an exception nothing catches; \<open>Inr\<close> a normal return), writers that only append.
  \<^item> The serializer, \<open>serialize_type.hpp\<close>, \<open>serialize_api.hpp\<close> and \<open>serialize/\<close>: \<open>AutoSize\<close> the
    variable-length integers; \<open>Archive\<close> the archives, the entry points, the loops that all containers
    share, and the locale \<open>codec\<close> (what a pair of operators promises) with its extension \<open>seq_codec\<close>;
    \<open>Scalars\<close>, \<open>Tuples\<close>, \<open>Containers\<close>, \<open>Structs\<close> the operators of the types. A C++ class template is a
    function from codecs to codecs, and each is shown to keep the locale's laws if its arguments do.
    \<open>SerializeProps\<close> has the properties on \<open>serialize\<close> and \<open>deserialize\<close>.
  \<^item> The serializer by types: \<open>Overloads\<close> has C++ types and the traits of the headers, which decide the
    overload that a type gets (\<open>serialize.hpp\<close> and the \<open>enable_if\<close> conditions), values of all types, and
    \<open>codec_of\<close>, the codec that a type is instantiated to. \<open>Typed\<close>, \<open>Sound\<close> and \<open>Wire\<close> are inductions on
    types: which values belong to a type and that its codec carries them; the locale \<open>sound\<close>, that
    reading any bytes leaves a value of the type; the wire format as an encoder of its own, which every
    writer is shown to be. \<open>TypedProps\<close> has the properties.
  \<^item> \<open>MsgWrapper\<close>, \<open>Varint\<close>, \<open>Coder\<close>: \<open>detail/msg_wrapper.hpp\<close>, \<open>detail/varint.hpp\<close>,
    \<open>detail/coder.hpp\<close>, \<open>detail/coder_varint.hpp\<close>. The locale \<open>message_coder\<close> is what the dispatcher
    relies on, with an interpretation for each of the two coders.
  \<^item> \<open>DataPacker\<close>: \<open>detail/data_packer.hpp\<close>, with the abstract specification \<open>deframe\<close> of a framed stream.
  \<^item> \<open>Result\<close>: \<open>result.hpp\<close>.
  \<^item> \<open>World\<close>: the state of a running program. Objects live in maps from numbers; a destroyed object is
    no longer in its map. The lambdas that the library stores are values of datatypes, with a
    constructor for each lambda of the code that holds what the lambda captures, a raw pointer being
    the number of the object. The user's callbacks are functions on a state of the user. The list
    \<open>events\<close> is a ghost: which calls were made and which ends were reported.
  \<^item> \<open>Dispatcher\<close>, \<open>Dispatch\<close>: \<open>detail/msg_dispatcher.hpp\<close> with its two tables (the locale
    \<open>handler_table\<close>), timers, and \<open>dispatch\<close> on every branch; \<open>request_response.hpp\<close>.
  \<^item> \<open>Request\<close>, \<open>Rpc\<close>, \<open>Future\<close>, \<open>Dispose\<close>: \<open>request.hpp\<close>, \<open>request.ipp\<close>, \<open>rpc.hpp\<close>, \<open>rpc.ipp\<close>,
    \<open>dispose.hpp\<close>.
  \<^item> \<open>Connection\<close>: \<open>stream_connection\<close> of \<open>connection.hpp\<close>, with the locale \<open>package_stream\<close>, which the
    packer provides; \<open>Loopback\<close>: \<open>loopback_connection\<close>, whose send functions run the receiver at once.
  \<^item> \<open>Reentry\<close>: the operations of \<open>request.hpp\<close>, \<open>request.ipp\<close> and \<open>detail/msg_dispatcher.hpp\<close> once more,
    cut wherever the code calls a function of the user. What is left to do is a frame on a stack, so a
    callback may call the library again; \<open>resume\<close> is the code behind the callback.
  \<^item> \<open>Callable\<close>: the traits under \<open>detail/callable\<close> as functions on C++ types, and the choice of the
    overloads of \<open>request::rsp\<close> and \<open>rpc::subscribe\<close> by them.
  \<^item> \<open>Lifecycle\<close>, \<open>Programs\<close>, \<open>Balance\<close>, \<open>Calls\<close>, \<open>DispatchProps\<close>, \<open>ReentrySafety\<close>, \<open>ReentryRespond\<close>,
    \<open>ReentryProps\<close>: reasoning about the above.

  \<^bold>\<open>What is proved\<close>

  \<^item> The life of a request. \<open>Lifecycle\<close> has the step relation of a disciplined program: any sequence of
    calls of the library, arriving packages and elapsing timers, in any order, in which a request is
    not called while it waits for a response, and sequence numbers are not used up. There are two
    disciplines: under the strict one \<open>cancel\<close> is not called on a waiting request, under the other it
    may be, and then the program keeps a pointer to the request while a table has an entry for it. The
    invariant of both says that each registered handler and each armed timer refers to a request that
    is alive, so neither responses nor timers use a destroyed object. Under the strict discipline every
    call ends exactly once or still waits (\<open>Balance\<close>); with \<open>cancel\<close>
    during the call, a retry reports the end again. Without a discipline the captured pointer dangles, as \<open>Programs\<close> shows for a pointer that
    is dropped and \<open>Dispose\<close> for a dispose that cancels.
  \<^item> Callbacks that call the library. Interrupted nowhere, the pieces of \<open>Reentry\<close> are the operations of the
    other theories. The step relation \<open>nested_step\<close> lets a program do anything of the strict discipline
    inside its callbacks and inside its send functions, to any depth, but to requests that a frame
    refers to: these may not be called, set or canceled, and if one is answered while it is being sent
    a pointer to it must be left. The invariant of \<open>ReentrySafety\<close> then gives again that nothing
    destroyed is used and that every call ends once; that of \<open>ReentryRespond\<close>, for the handlers that
    \<open>subscribe\<close> registers, that the code behind a command handler finds its \<open>async_helper\<close> and the functions in it.
    \<open>ReentryProps\<close> also shows that the conditions are needed. A call over a loopback connection is answered before it returns.
  \<^item> Callbacks by their types: the traits find the signature of whatever can be called, and exactly one
    overload fits it, or none.
  \<^item> Whole calls between two peers (\<open>Calls\<close>, \<open>Future\<close>): answered, of an unknown command, ping, refused,
    retried until the timeout, through a future; over any coder and codecs that keep their contracts.
  \<^item> Packages one by one (\<open>DispatchProps\<close>): at most one answer for each, none for a response; what is
    ignored; handlers that answer later.
  \<^item> The stream: framing is the inverse of packing for every way of cutting the stream, refines
    \<open>deframe\<close>, stays within its memory bound, and is transparent to the rpc objects above it.
  \<^item> The serializer: no type is ambiguous; a well-typed value of any type, however nested, comes back;
    deserializing arbitrary bytes leaves a well-typed object; the bytes depend on the shape of the type
    only, so types of one shape read each other. The coders: round trip and canonical decoding. And
    where the code fails: sizes that are not checked, errors that are swallowed, numbers that are cut.

  \<^bold>\<open>Bounds and termination\<close>

  Every function is total. Only \<open>lb_run\<close> of \<open>Loopback\<close> has fuel, since over a loopback connection callbacks
  and handlers may call each other for ever; an answered call takes seven tasks, one for each
  package, for the code behind the handler, the callback, \<open>finally\<close>, and the two calls that wait. A
  stack of frames onto which nothing is pushed is worked off in finitely many steps. The mutual recursion of \<open>feed\<close> and \<open>feed_body\<close> ends
  because each turn consumes bytes or a header. Machine integers keep their width: \<open>size_t\<close> and
  \<open>unsigned long long\<close> are 64 bits, pointers as well, and the byte order is little-endian, as on the
  platforms the library is built for. Lengths below \<open>2^64\<close> are conditions of the round trips.

  \<^bold>\<open>Not modelled\<close>

  \<^item> Threads. The user's functions are functions on a state of the user; what they do with the library
    is, in \<open>Reentry\<close>, further steps of the program. Handlers of commands run in one piece up to their
    return, and in \<open>Loopback\<close> a package is handed over at the end of the piece that sends it, so a handler
    that answers asynchronously before it returns is not covered there.
  \<^item> What the timers and schedulers given by the user do is unrestricted: timers elapse in any order, jobs
    run in any order. The executor of a coroutine is the function that completes it.
  \<^item> \<open>detail/log.h\<close> only prints; \<open>noncopyable\<close> and \<open>copyable\<close> delete or default copies; \<open>string_view\<close> is a pointer with a size. Other
    serializers (flatbuffers, nlohmann::json) are parameters.
  \<^item> In the types of the serializer: comparison objects are parameters, the fields of a structure have no
    initializers of their own, counts of durations are signed integers, complex numbers have a
    fundamental type. The heap order of a priority queue is not part of its values: the code puts the
    elements back as they were in the container.
  \<^item> The Rust implementation under \<open>src/rust\<close>.
\<close>

end
